(* ===== verification/Prelude.thy ===== *)
theory Prelude
  imports Main
begin

text \<open>
  What every component of the development shares: the result of running a piece of the C++
  program (a value, a thrown exception, a failed check that aborts the process, or undefined
  behaviour), programs over an explicit state, and the collection \<open>run_simps\<close> of the rules
  that execute them.
\<close>

named_theorems run_simps \<open>rules that execute programs over an explicit state\<close>

section \<open>Results of running code\<close>

text \<open>The exceptions the sources throw, or let the standard library throw.\<close>

datatype exn =
    Runtime_Error string        \<comment> \<open>\<open>std::runtime_error\<close>, thrown by value\<close>
  | Runtime_Error_Ptr string    \<comment> \<open>\<open>throw new std::runtime_error\<close>, thrown as a pointer\<close>
  | Invalid_Argument string     \<comment> \<open>\<open>std::invalid_argument\<close>\<close>
  | Out_Of_Range string         \<comment> \<open>\<open>std::out_of_range\<close>\<close>
  | Filesystem_Error string     \<comment> \<open>\<open>std::filesystem::filesystem_error\<close>\<close>

text \<open>The kinds of undefined behaviour the sources can run into.\<close>

datatype ub =
    Missing_Return              \<comment> \<open>control leaves a non-void function at its closing brace\<close>
  | Null_Deref
  | Use_After_Free
  | Double_Free
  | Out_Of_Bounds

datatype 'a res =
    Val 'a
  | Exn exn
  | Check_Failed string         \<comment> \<open>a \<open>DCHECK\<close> of a debug build\<close>
  | Undef ub

definition is_Val :: "'a res \<Rightarrow> bool" where
  "is_Val r = (case r of Val _ \<Rightarrow> True | _ \<Rightarrow> False)"

lemma is_Val_simps [simp]:
  "is_Val (Val a)" "\<not> is_Val (Exn e)" "\<not> is_Val (Check_Failed c)" "\<not> is_Val (Undef u)"
  by (simp_all add: is_Val_def)

lemma is_Val_iff: "is_Val r \<longleftrightarrow> (\<exists>a. r = Val a)"
  by (cases r) simp_all

text \<open>Sequencing of results without a state.\<close>

definition res_bind :: "'a res \<Rightarrow> ('a \<Rightarrow> 'b res) \<Rightarrow> 'b res" where
  "res_bind r f = (case r of Val a \<Rightarrow> f a | Exn e \<Rightarrow> Exn e
     | Check_Failed c \<Rightarrow> Check_Failed c | Undef u \<Rightarrow> Undef u)"

lemma res_bind_simps [simp]:
  "res_bind (Val a) f = f a" "res_bind (Exn e) f = Exn e"
  "res_bind (Check_Failed c) f = Check_Failed c" "res_bind (Undef u) f = Undef u"
  by (simp_all add: res_bind_def)

lemma res_bind_eq_Val: "res_bind r f = Val b \<longleftrightarrow> (\<exists>a. r = Val a \<and> f a = Val b)"
  by (cases r) simp_all

section \<open>Programs over an explicit state\<close>

type_synonym ('s, 'a) prog = "'s \<Rightarrow> 'a res \<times> 's"

definition ret :: "'a \<Rightarrow> ('s, 'a) prog" where
  "ret a s = (Val a, s)"

definition throw :: "exn \<Rightarrow> ('s, 'a) prog" where
  "throw e s = (Exn e, s)"

definition undef :: "ub \<Rightarrow> ('s, 'a) prog" where
  "undef u s = (Undef u, s)"

definition gets :: "('s \<Rightarrow> 'a) \<Rightarrow> ('s, 'a) prog" where
  "gets f s = (Val (f s), s)"

definition modify :: "('s \<Rightarrow> 's) \<Rightarrow> ('s, unit) prog" where
  "modify f s = (Val (), f s)"

definition bind :: "('s, 'a) prog \<Rightarrow> ('a \<Rightarrow> ('s, 'b) prog) \<Rightarrow> ('s, 'b) prog" where
  "bind m f s = (case m s of
       (Val a, s') \<Rightarrow> f a s'
     | (Exn e, s') \<Rightarrow> (Exn e, s')
     | (Check_Failed c, s') \<Rightarrow> (Check_Failed c, s')
     | (Undef u, s') \<Rightarrow> (Undef u, s'))"

text \<open>Running a program of one part of the state inside a larger state.\<close>

definition zoom :: "('s \<Rightarrow> 't) \<Rightarrow> ('t \<Rightarrow> 's \<Rightarrow> 's) \<Rightarrow> ('t, 'a) prog \<Rightarrow> ('s, 'a) prog" where
  "zoom get put p s = (case p (get s) of (r, t) \<Rightarrow> (r, put t s))"

lemma prog_simps [run_simps]:
  "ret a s = (Val a, s)" "throw e s = (Exn e, s)" "undef u s = (Undef u, s)"
  "gets f s = (Val (f s), s)" "modify g s = (Val (), g s)"
  by (simp_all add: ret_def throw_def undef_def gets_def modify_def)

lemma bind_run [run_simps]:
  "m s = (Val a, s') \<Longrightarrow> bind m f s = f a s'"
  "m s = (Exn e, s') \<Longrightarrow> bind m f s = (Exn e, s')"
  "m s = (Check_Failed c, s') \<Longrightarrow> bind m f s = (Check_Failed c, s')"
  "m s = (Undef u, s') \<Longrightarrow> bind m f s = (Undef u, s')"
  by (simp_all add: bind_def)

lemma bind_eq_Val:
  "bind m f s = (Val b, t) \<longleftrightarrow> (\<exists>a s'. m s = (Val a, s') \<and> f a s' = (Val b, t))"
  by (cases "m s"; cases "fst (m s)") (auto simp: bind_def)

lemma zoom_run [run_simps]: "p (get s) = (r, t) \<Longrightarrow> zoom get put p s = (r, put t s)"
  by (simp add: zoom_def)

text \<open>
  A property of the state that each of two programs keeps is kept by running one after the
  other, whatever their results.
\<close>

definition keeps :: "('s \<Rightarrow> bool) \<Rightarrow> ('s, 'a) prog \<Rightarrow> bool" where
  "keeps P p \<longleftrightarrow> (\<forall>s. P s \<longrightarrow> P (snd (p s)))"

lemma keepsI: "(\<And>s. P s \<Longrightarrow> P (snd (p s))) \<Longrightarrow> keeps P p"
  by (simp add: keeps_def)

lemma keepsD: "keeps P p \<Longrightarrow> P s \<Longrightarrow> P (snd (p s))"
  by (simp add: keeps_def)

lemma keeps_bind:
  assumes "keeps P m" and "\<And>a. keeps P (f a)"
  shows "keeps P (bind m f)"
proof (rule keepsI)
  fix s assume "P s"
  obtain r s' where ms: "m s = (r, s')" by (cases "m s")
  with assms(1) \<open>P s\<close> have "P s'" by (auto dest: keepsD)
  with ms assms(2) show "P (snd (bind m f s))"
    by (cases r) (auto simp: bind_def dest: keepsD)
qed

lemma keeps_simple [intro, simp]:
  "keeps P (ret a)" "keeps P (throw e)" "keeps P (undef u)" "keeps P (gets f)"
  by (auto simp: keeps_def run_simps)

section \<open>Lists\<close>

lemma takeWhile_neq_append [simp]: "c \<notin> set xs \<Longrightarrow> takeWhile (\<lambda>x. x \<noteq> c) (xs @ c # ys) = xs"
  by (induction xs) auto

lemma takeWhile_neq_id: "c \<notin> set xs \<Longrightarrow> takeWhile (\<lambda>x. x \<noteq> c) xs = xs"
  by (induction xs) auto

lemma list_update_append_right: "length xs \<le> i \<Longrightarrow> (xs @ ys)[i := v] = xs @ ys[i - length xs := v]"
  by (simp add: list_update_append)

end
