(* ===== verification/Cxx_String.thy ===== *)
theory Cxx_String
  imports Prelude
begin

text \<open>
  The operations of the C++ string library the sources use: \<open>c_str\<close>, \<open>find_last_of\<close> and
  \<open>remove_suffix\<close> of \<open>std::string_view\<close>, \<open>std::to_string\<close> and \<open>std::stol\<close>, and the helper
  \<open>ends_with\<close> of fs/fs\_util.h. A \<open>std::string\<close> is a list of characters, a character is a byte.
  The platform is LP64: \<open>long\<close> and \<open>int64_t\<close> have 64 bits.
\<close>

section \<open>Views\<close>

definition c_str :: "string \<Rightarrow> string" where
  "c_str s = takeWhile (\<lambda>c. c \<noteq> CHR 0x00) s"

fun find_last_of :: "char \<Rightarrow> string \<Rightarrow> nat option" where
  "find_last_of c [] = None"
| "find_last_of c (x # xs) =
     (case find_last_of c xs of
        Some i \<Rightarrow> Some (Suc i)
      | None \<Rightarrow> (if x = c then Some 0 else None))"

text \<open>\<open>remove_suffix\<close> is undefined when more characters are removed than there are.\<close>

definition remove_suffix :: "string \<Rightarrow> nat \<Rightarrow> string res" where
  "remove_suffix s n = (if n \<le> length s then Val (take (length s - n) s) else Undef Out_Of_Bounds)"

text \<open>\<open>ends_with\<close> compares the characters of the two strings from their ends.\<close>

definition ends_with :: "string \<Rightarrow> string \<Rightarrow> bool" where
  "ends_with value ending =
     (if length value < length ending then False
      else list_all2 (=) (rev ending) (take (length ending) (rev value)))"

lemma ends_with_iff: "ends_with v e \<longleftrightarrow> (\<exists>p. v = p @ e)"
proof
  assume "ends_with v e"
  then have "rev e = take (length e) (rev v)"
    by (auto simp: ends_with_def list.rel_eq split: if_splits)
  then have "e = drop (length v - length e) v"
    by (metis rev_rev_ident rev_take length_rev)
  then show "\<exists>p. v = p @ e"
    by (metis append_take_drop_id)
next
  assume "\<exists>p. v = p @ e"
  then show "ends_with v e" by (auto simp: ends_with_def list.rel_eq)
qed

lemma ends_with_append [simp]: "ends_with (p @ e) e"
  by (auto simp: ends_with_iff)

lemma find_last_of_None_iff: "find_last_of c s = None \<longleftrightarrow> c \<notin> set s"
  by (induction s) (auto split: option.splits)

lemma find_last_of_append [simp]:
  "c \<notin> set ys \<Longrightarrow> find_last_of c (xs @ c # ys) = Some (length xs)"
proof (induction xs)
  case Nil
  then have "find_last_of c ys = None" by (simp add: find_last_of_None_iff)
  then show ?case by simp
qed simp

lemma find_last_of_Some:
  assumes "find_last_of c s = Some i"
  shows "i < length s" "s ! i = c" "c \<notin> set (drop (Suc i) s)"
proof -
  have "i < length s \<and> s ! i = c \<and> c \<notin> set (drop (Suc i) s)"
    using assms
  proof (induction s arbitrary: i)
    case (Cons x xs)
    then show ?case
      by (auto simp: find_last_of_None_iff split: option.splits if_splits)
  qed simp
  then show "i < length s" "s ! i = c" "c \<notin> set (drop (Suc i) s)" by auto
qed

lemma find_last_of_split:
  assumes "find_last_of c s = Some i"
  shows "s = take i s @ c # drop (Suc i) s"
  using find_last_of_Some[OF assms] by (metis id_take_nth_drop)

lemma remove_suffix_append [simp]: "n = length e \<Longrightarrow> remove_suffix (p @ e) n = Val p"
  by (simp add: remove_suffix_def)

section \<open>Decimal numbers\<close>

definition INT64_MIN :: int where "INT64_MIN = - 9223372036854775808"
definition INT64_MAX :: int where "INT64_MAX = 9223372036854775807"

definition is_int64 :: "int \<Rightarrow> bool" where
  "is_int64 v \<longleftrightarrow> INT64_MIN \<le> v \<and> v \<le> INT64_MAX"

definition digit_char :: "nat \<Rightarrow> char" where
  "digit_char d = char_of (48 + d)"

definition is_digit :: "char \<Rightarrow> bool" where
  "is_digit c \<longleftrightarrow> 48 \<le> (of_char c :: nat) \<and> (of_char c :: nat) \<le> 57"

definition digit_val :: "char \<Rightarrow> nat" where
  "digit_val c = of_char c - 48"

fun dec_digits :: "nat \<Rightarrow> string" where
  "dec_digits n =
     (if n < 10 then [digit_char n] else dec_digits (n div 10) @ [digit_char (n mod 10)])"

declare dec_digits.simps [simp del]

definition dec_val :: "string \<Rightarrow> nat" where
  "dec_val ds = foldl (\<lambda>acc c. 10 * acc + digit_val c) 0 ds"

definition to_string :: "int \<Rightarrow> string" where
  "to_string v = (if v < 0 then CHR ''-'' # dec_digits (nat (- v)) else dec_digits (nat v))"

text \<open>The characters \<open>isspace\<close> accepts in the C locale: blank, \<open>\t \n \v \f \r\<close>.\<close>

definition is_space :: "char \<Rightarrow> bool" where
  "is_space c \<longleftrightarrow> c = CHR '' '' \<or> (9 \<le> (of_char c :: nat) \<and> (of_char c :: nat) \<le> 13)"

text \<open>
  \<open>std::stol\<close> in base ten: leading blanks, an optional sign, then the longest run of digits;
  what follows the digits is ignored. No digit is \<open>std::invalid_argument\<close>, a value outside
  \<open>long\<close> is \<open>std::out_of_range\<close>.
\<close>

definition split_sign :: "string \<Rightarrow> bool \<times> string" where
  "split_sign s = (case s of
       [] \<Rightarrow> (False, [])
     | c # cs \<Rightarrow> (if c = CHR ''-'' then (True, cs) else if c = CHR ''+'' then (False, cs) else (False, c # cs)))"

definition stol :: "string \<Rightarrow> int res" where
  "stol s =
     (let (neg, u) = split_sign (dropWhile is_space s);
          ds = takeWhile is_digit u;
          v = (if neg then - int (dec_val ds) else int (dec_val ds))
      in if ds = [] then Exn (Invalid_Argument ''stol'')
         else if is_int64 v then Val v
         else Exn (Out_Of_Range ''stol''))"

lemma digit_char_props [simp]:
  assumes "d < 10"
  shows "is_digit (digit_char d)" "digit_val (digit_char d) = d" "\<not> is_space (digit_char d)"
    "digit_char d \<noteq> CHR ''-''" "digit_char d \<noteq> CHR ''+''" "digit_char d \<noteq> CHR ''_''"
    "digit_char d \<noteq> CHR ''/''"
proof -
  have v: "(of_char (digit_char d) :: nat) = 48 + d"
    using assms by (simp add: digit_char_def)
  then show "is_digit (digit_char d)" "digit_val (digit_char d) = d" "\<not> is_space (digit_char d)"
    "digit_char d \<noteq> CHR ''-''" "digit_char d \<noteq> CHR ''+''" "digit_char d \<noteq> CHR ''_''"
    "digit_char d \<noteq> CHR ''/''"
    using assms by (auto simp: is_digit_def digit_val_def is_space_def)
qed

lemma digit_char_neq_sym [simp]:
  assumes "d < 10"
  shows "CHR ''_'' \<noteq> digit_char d" "CHR ''/'' \<noteq> digit_char d"
  using digit_char_props(6,7)[OF assms] by metis+

lemma dec_digits_chars: "c \<in> set (dec_digits n) \<Longrightarrow> \<exists>d < 10. c = digit_char d"
proof (induction n rule: dec_digits.induct)
  case (1 n)
  show ?case
  proof (cases "n < 10")
    case True
    with "1.prems" show ?thesis by (subst (asm) dec_digits.simps) auto
  next
    case False
    then have "dec_digits n = dec_digits (n div 10) @ [digit_char (n mod 10)]"
      by (subst dec_digits.simps) simp
    with "1.prems" consider "c \<in> set (dec_digits (n div 10))" | "c = digit_char (n mod 10)"
      by auto
    then show ?thesis
    proof cases
      case 1
      with "1.IH" False show ?thesis by simp
    next
      case 2
      then show ?thesis by (intro exI[of _ "n mod 10"]) simp
    qed
  qed
qed

lemma dec_digits_not_Nil [simp]: "dec_digits n \<noteq> []"
  by (subst dec_digits.simps) simp

lemma dec_val_snoc [simp]: "dec_val (ds @ [c]) = 10 * dec_val ds + digit_val c"
  by (simp add: dec_val_def)

lemma dec_val_dec_digits [simp]: "dec_val (dec_digits n) = n"
proof (induction n rule: dec_digits.induct)
  case (1 n)
  show ?case
  proof (cases "n < 10")
    case True
    then show ?thesis by (subst dec_digits.simps) (simp add: dec_val_def)
  next
    case False
    with 1 show ?thesis by (subst dec_digits.simps) simp
  qed
qed

lemma takeWhile_dec_digits [simp]: "takeWhile is_digit (dec_digits n) = dec_digits n"
  by (rule takeWhile_eq_all_conv[THEN iffD2]) (auto dest: dec_digits_chars)

lemma dec_digits_Cons: "\<exists>d ds. d < 10 \<and> dec_digits n = digit_char d # ds"
proof (cases "dec_digits n")
  case Nil
  then show ?thesis by simp
next
  case (Cons c ds)
  then have "c \<in> set (dec_digits n)" by simp
  then obtain d where "d < 10" "c = digit_char d" using dec_digits_chars by blast
  with Cons show ?thesis by blast
qed

lemma split_sign_dec_digits [simp]:
  "split_sign (dropWhile is_space (dec_digits n)) = (False, dec_digits n)"
proof -
  obtain d ds where "d < 10" "dec_digits n = digit_char d # ds"
    using dec_digits_Cons by blast
  then show ?thesis by (simp add: split_sign_def)
qed

lemma split_sign_minus [simp]:
  "split_sign (dropWhile is_space (CHR ''-'' # u)) = (True, u)"
  by (simp add: split_sign_def is_space_def)

lemma stol_to_string:
  assumes "is_int64 v"
  shows "stol (to_string v) = Val v"
proof (cases "v < 0")
  case True
  with assms show ?thesis
    by (simp add: stol_def to_string_def del: dropWhile.simps)
next
  case False
  with assms show ?thesis by (simp add: stol_def to_string_def)
qed

lemma to_string_chars:
  assumes "c \<in> set (to_string v)"
  shows "c \<noteq> CHR ''_''" "c \<noteq> CHR ''/''"
  using assms by (auto simp: to_string_def split: if_splits dest!: dec_digits_chars)

lemma stol_is_int64: "stol s = Val v \<Longrightarrow> is_int64 v"
  by (auto simp: stol_def Let_def split: prod.splits if_splits)

section \<open>Codecs\<close>

text \<open>
  The contract of a printer and its parser: parsing what was printed from an admissible value
  gives the value back. The driver file names, the hexadecimal digests and the HTTP method
  names rest on it.
\<close>

locale codec =
  fixes enc :: "'a \<Rightarrow> 'b" and dec :: "'b \<Rightarrow> 'a option" and ok :: "'a \<Rightarrow> bool"
  assumes dec_enc: "ok x \<Longrightarrow> dec (enc x) = Some x"
begin

lemma enc_inj: "ok x \<Longrightarrow> ok y \<Longrightarrow> enc x = enc y \<longleftrightarrow> x = y"
  by (metis dec_enc option.inject)

lemma enc_inj_on: "inj_on enc {x. ok x}"
  by (rule inj_onI) (simp add: enc_inj)

lemma dec_image: "dec ` enc ` {x. ok x} = Some ` {x. ok x}"
  by (auto simp: dec_enc image_iff)

end

definition stol_opt :: "string \<Rightarrow> int option" where
  "stol_opt s = (case stol s of Val v \<Rightarrow> Some v | _ \<Rightarrow> None)"

interpretation decimal: codec to_string stol_opt is_int64
  by unfold_locales (simp add: stol_opt_def stol_to_string)

end
