(* ===== verification/Status.thy ===== *)
theory Status
  imports Cxx_String
begin

text \<open>
  common/status.h and common/statusor.h. A \<open>Status\<close> owns a heap block through the raw pointer
  \<open>_state\<close>; the copy operations are defaulted, so they copy the pointer, and the destructor
  frees it. The model keeps the heap explicit: a list of blocks, each live with its message or
  freed, a pointer being an index. On top of it stands the abstract status value the callers
  have in mind, and a small language of the operations on named \<open>Status\<close> objects.
\<close>

section \<open>The heap of message blocks\<close>

datatype block = Live string | Freed

type_synonym sheap = "block list"

text \<open>The member \<open>_state\<close>: \<open>None\<close> is the null pointer.\<close>

type_synonym status_ptr = "nat option"

definition status_default :: status_ptr where
  "status_default = None"

definition status_OK :: status_ptr where
  "status_OK = status_default"

definition status_ok :: "status_ptr \<Rightarrow> bool" where
  "status_ok st \<longleftrightarrow> st = None"

text \<open>
  \<open>InternalError\<close> allocates \<open>length + 1\<close> characters and fills them with \<open>strcpy\<close>, which
  stops at the first NUL of the message.
\<close>

definition status_InternalError :: "string \<Rightarrow> sheap \<Rightarrow> status_ptr \<times> sheap" where
  "status_InternalError msg h = (Some (length h), h @ [Live (c_str msg)])"

definition deref :: "nat \<Rightarrow> sheap \<Rightarrow> string res" where
  "deref p h = (if p < length h then (case h ! p of Live m \<Rightarrow> Val m | Freed \<Rightarrow> Undef Use_After_Free)
                else Undef Use_After_Free)"

definition status_message :: "status_ptr \<Rightarrow> sheap \<Rightarrow> string res" where
  "status_message st h = (case st of None \<Rightarrow> Val '''' | Some p \<Rightarrow> deref p h)"

text \<open>The destructor: \<open>delete[] _state\<close>, which does nothing on the null pointer.\<close>

definition status_destroy :: "status_ptr \<Rightarrow> (sheap, unit) prog" where
  "status_destroy st h = (case st of
       None \<Rightarrow> (Val (), h)
     | Some p \<Rightarrow> (if p < length h \<and> h ! p \<noteq> Freed then (Val (), h[p := Freed])
                 else (Undef Double_Free, h)))"

text \<open>The defaulted copy operations, and the move operations with their emptied source.\<close>

definition status_copy :: "status_ptr \<Rightarrow> status_ptr" where
  "status_copy other = other"

definition status_move :: "status_ptr \<Rightarrow> status_ptr \<times> status_ptr" where
  "status_move other = (other, None)"

text \<open>
  Assignment gives the new values of \<open>*this\<close> and of \<open>other\<close>. Move assignment frees the
  block of \<open>*this\<close> first, unless the two objects are the same.
\<close>

definition status_copy_assign :: "status_ptr \<Rightarrow> status_ptr \<Rightarrow> status_ptr" where
  "status_copy_assign this other = other"

definition status_move_assign ::
    "bool \<Rightarrow> status_ptr \<Rightarrow> status_ptr \<Rightarrow> (sheap, status_ptr \<times> status_ptr) prog" where
  "status_move_assign same_object this other =
     (if same_object then ret (this, other)
      else bind (status_destroy this) (\<lambda>_. ret (other, None)))"

section \<open>The abstract status value\<close>

datatype status = OK | Internal_Error string

definition ok :: "status \<Rightarrow> bool" where
  "ok s \<longleftrightarrow> s = OK"

definition message :: "status \<Rightarrow> string" where
  "message s = (case s of OK \<Rightarrow> '''' | Internal_Error m \<Rightarrow> m)"

definition internal_error :: "string \<Rightarrow> status" where
  "internal_error msg = Internal_Error (c_str msg)"

lemma ok_simps [simp]: "ok OK" "\<not> ok (Internal_Error m)" "\<not> ok (internal_error m)"
  by (simp_all add: ok_def internal_error_def)

lemma internal_error_neq_OK [simp]: "internal_error m \<noteq> OK" "OK \<noteq> internal_error m"
  by (simp_all add: internal_error_def)

text \<open>The value a \<open>Status\<close> object stands for: \<open>None\<close> when its pointer dangles.\<close>

definition abs_status :: "status_ptr \<Rightarrow> sheap \<Rightarrow> status option" where
  "abs_status st h = (case st of
       None \<Rightarrow> Some OK
     | Some p \<Rightarrow> (case deref p h of Val m \<Rightarrow> Some (Internal_Error m) | _ \<Rightarrow> None))"

lemma deref_append [simp]: "p < length h \<Longrightarrow> deref p (h @ h') = deref p h"
  by (simp add: deref_def nth_append)

lemma deref_new [simp]: "deref (length h) (h @ [Live m]) = Val m"
  by (simp add: deref_def)

lemma deref_update_neq [simp]: "p \<noteq> q \<Longrightarrow> deref p (h[q := b]) = deref p h"
  by (simp add: deref_def)

lemma deref_freed [simp]: "deref p (h[p := Freed]) = Undef Use_After_Free"
  by (simp add: deref_def)

lemma deref_Val_iff: "deref p h = Val m \<longleftrightarrow> p < length h \<and> h ! p = Live m"
  by (auto simp: deref_def split: block.splits)

lemma status_default_simps [simp]: "status_default = None" "status_OK = None"
  by (simp_all add: status_default_def status_OK_def)

lemma status_refines:
  assumes "abs_status st h = Some v"
  shows "status_ok st \<longleftrightarrow> ok v" "status_message st h = Val (message v)"
  using assms
  by (auto simp: abs_status_def status_ok_def status_message_def message_def
      split: option.splits res.splits)

section \<open>Programs over named status objects\<close>

text \<open>
  The operations a function body performs on its \<open>Status\<close> objects, which are named by
  numbers; the state maps the objects that are alive to their pointers. Naming an object
  outside its lifetime is undefined.
\<close>

datatype status_op =
    Default nat                 \<comment> \<open>\<open>Status v;\<close>\<close>
  | Make_Error nat string       \<comment> \<open>\<open>Status v = Status::InternalError(msg);\<close>\<close>
  | Copy_Init nat nat           \<comment> \<open>\<open>Status v(w);\<close>\<close>
  | Move_Init nat nat           \<comment> \<open>\<open>Status v(std::move(w));\<close>\<close>
  | Copy_Assign nat nat         \<comment> \<open>\<open>v = w;\<close>\<close>
  | Move_Assign nat nat         \<comment> \<open>\<open>v = std::move(w);\<close>\<close>
  | Destroy nat                 \<comment> \<open>the end of \<open>v\<close>'s scope\<close>

record status_state =
  heap :: sheap
  vars :: "nat \<Rightarrow> status_ptr option"

definition bind_var :: "nat \<Rightarrow> status_ptr \<Rightarrow> status_state \<Rightarrow> status_state" where
  "bind_var v st s = s\<lparr>vars := (vars s)(v := Some st)\<rparr>"

fun status_step :: "status_op \<Rightarrow> (status_state, unit) prog" where
  "status_step (Default v) s = (Val (), bind_var v status_default s)"
| "status_step (Make_Error v msg) s =
     (case status_InternalError msg (heap s) of
        (st, h) \<Rightarrow> (Val (), bind_var v st (s\<lparr>heap := h\<rparr>)))"
| "status_step (Copy_Init v w) s =
     (case vars s w of
        None \<Rightarrow> (Undef Use_After_Free, s)
      | Some st \<Rightarrow> (Val (), bind_var v (status_copy st) s))"
| "status_step (Move_Init v w) s =
     (case vars s w of
        None \<Rightarrow> (Undef Use_After_Free, s)
      | Some st \<Rightarrow> (case status_move st of (new, old) \<Rightarrow> (Val (), bind_var v new (bind_var w old s))))"
| "status_step (Copy_Assign v w) s =
     (case (vars s v, vars s w) of
        (Some a, Some b) \<Rightarrow> (Val (), bind_var v (status_copy_assign a b) s)
      | _ \<Rightarrow> (Undef Use_After_Free, s))"
| "status_step (Move_Assign v w) s =
     (case (vars s v, vars s w) of
        (Some a, Some b) \<Rightarrow>
          (case status_move_assign (v = w) a b (heap s) of
             (Val (a', b'), h) \<Rightarrow> (Val (), bind_var v a' (bind_var w b' (s\<lparr>heap := h\<rparr>)))
           | (Exn e, h) \<Rightarrow> (Exn e, s\<lparr>heap := h\<rparr>)
           | (Check_Failed c, h) \<Rightarrow> (Check_Failed c, s\<lparr>heap := h\<rparr>)
           | (Undef u, h) \<Rightarrow> (Undef u, s\<lparr>heap := h\<rparr>))
      | _ \<Rightarrow> (Undef Use_After_Free, s))"
| "status_step (Destroy v) s =
     (case vars s v of
        None \<Rightarrow> (Undef Use_After_Free, s)
      | Some st \<Rightarrow>
          (case status_destroy st (heap s) of
             (r, h) \<Rightarrow> (r, s\<lparr>heap := h, vars := (vars s)(v := None)\<rparr>)))"

fun status_run :: "status_op list \<Rightarrow> (status_state, unit) prog" where
  "status_run [] = ret ()"
| "status_run (op # ops) = bind (status_step op) (\<lambda>_. status_run ops)"

definition status_init :: status_state where
  "status_init = \<lparr>heap = [], vars = (\<lambda>_. None)\<rparr>"

text \<open>
  Single ownership: every object that is alive and not OK points to a live block, no two of
  them to the same one, and every live block has an owner.
\<close>

definition owned :: "status_state \<Rightarrow> bool" where
  "owned s \<longleftrightarrow>
     (\<forall>v p. vars s v = Some (Some p) \<longrightarrow> p < length (heap s) \<and> heap s ! p \<noteq> Freed) \<and>
     (\<forall>v w p. vars s v = Some (Some p) \<longrightarrow> vars s w = Some (Some p) \<longrightarrow> v = w) \<and>
     (\<forall>p < length (heap s). heap s ! p \<noteq> Freed \<longrightarrow> (\<exists>v. vars s v = Some (Some p)))"

text \<open>
  The operations single ownership survives: objects are constructed under a fresh name, used
  while alive, and only an OK status is ever copied (and copied over an OK status).
\<close>

fun disciplined :: "status_op \<Rightarrow> status_state \<Rightarrow> bool" where
  "disciplined (Default v) s = (vars s v = None)"
| "disciplined (Make_Error v msg) s = (vars s v = None)"
| "disciplined (Copy_Init v w) s = (vars s v = None \<and> vars s w = Some None)"
| "disciplined (Move_Init v w) s = (vars s v = None \<and> vars s w \<noteq> None)"
| "disciplined (Copy_Assign v w) s = (vars s v = Some None \<and> vars s w = Some None)"
| "disciplined (Move_Assign v w) s = (vars s v \<noteq> None \<and> vars s w \<noteq> None)"
| "disciplined (Destroy v) s = (vars s v \<noteq> None)"

fun disciplined_run :: "status_op list \<Rightarrow> status_state \<Rightarrow> bool" where
  "disciplined_run [] s = True"
| "disciplined_run (op # ops) s = (disciplined op s \<and> disciplined_run ops (snd (status_step op s)))"

lemma owned_init: "owned status_init"
  by (simp add: owned_def status_init_def)

lemma ownedD:
  assumes "owned s"
  shows "vars s v = Some (Some p) \<Longrightarrow> p < length (heap s) \<and> heap s ! p \<noteq> Freed"
    and "vars s v = Some (Some p) \<Longrightarrow> vars s w = Some (Some p) \<Longrightarrow> v = w"
    and "p < length (heap s) \<Longrightarrow> heap s ! p \<noteq> Freed \<Longrightarrow> \<exists>v. vars s v = Some (Some p)"
  using assms by (auto simp: owned_def)

lemma ownedI:
  assumes "\<And>v p. vars s v = Some (Some p) \<Longrightarrow> p < length (heap s) \<and> heap s ! p \<noteq> Freed"
    and "\<And>v w p. vars s v = Some (Some p) \<Longrightarrow> vars s w = Some (Some p) \<Longrightarrow> v = w"
    and "\<And>p. p < length (heap s) \<Longrightarrow> heap s ! p \<noteq> Freed \<Longrightarrow> \<exists>v. vars s v = Some (Some p)"
  shows "owned s"
  using assms by (simp add: owned_def)

text \<open>The changes of the state that the operations are made of.\<close>

lemma owned_null:
  assumes "owned s" "vars s v = None \<or> vars s v = Some None"
  shows "owned (bind_var v None s)"
  using assms by (auto simp: owned_def bind_var_def split: if_splits) (metis option.distinct(1) option.inject)+

lemma owned_alloc:
  assumes "owned s" "vars s v = None"
  shows "owned (bind_var v (Some (length (heap s))) (s\<lparr>heap := heap s @ [Live m]\<rparr>))"
  using assms
  by (auto simp: owned_def bind_var_def nth_append less_Suc_eq split: if_splits)
     (metis less_irrefl option.distinct(1))+

lemma owned_move:
  assumes "owned s" "vars s v = None \<or> vars s v = Some None" "vars s w = Some st" "v \<noteq> w"
  shows "owned (bind_var v st (bind_var w None s))"
  using assms
  by (auto simp: owned_def bind_var_def split: if_splits) (metis option.distinct(1) option.inject)+

lemma owned_free:
  assumes "owned s" "vars s v = Some (Some p)" "x = None \<or> x = Some None"
  shows "owned (s\<lparr>heap := (heap s)[p := Freed], vars := (vars s)(v := x)\<rparr>)"
proof -
  let ?s = "s\<lparr>heap := (heap s)[p := Freed], vars := (vars s)(v := x)\<rparr>"
  have old: "vars s w = Some (Some q) \<and> q \<noteq> p" if "vars ?s w = Some (Some q)" for w q
  proof -
    have "w \<noteq> v" using that assms(3) by auto
    with that have "vars s w = Some (Some q)" by simp
    with ownedD(2)[OF assms(1) assms(2)] \<open>w \<noteq> v\<close> show ?thesis by blast
  qed
  show ?thesis
  proof (rule ownedI)
    fix w q assume "vars ?s w = Some (Some q)"
    from old[OF this] show "q < length (heap ?s) \<and> heap ?s ! q \<noteq> Freed"
      using ownedD(1)[OF assms(1), of w q] by simp
  next
    fix w1 w2 q assume "vars ?s w1 = Some (Some q)" "vars ?s w2 = Some (Some q)"
    then show "w1 = w2" by (metis old ownedD(2)[OF assms(1)])
  next
    fix q assume q: "q < length (heap ?s)" "heap ?s ! q \<noteq> Freed"
    then have "q \<noteq> p" by auto
    with q have "q < length (heap s)" "heap s ! q \<noteq> Freed" by simp_all
    then obtain w where w: "vars s w = Some (Some q)" using ownedD(3)[OF assms(1)] by blast
    with \<open>q \<noteq> p\<close> assms(2) have "w \<noteq> v" by auto
    with w show "\<exists>w. vars ?s w = Some (Some q)" by auto
  qed
qed

lemma status_destroy_owned:
  assumes "owned s" "vars s v = Some st" "x = None \<or> x = Some None"
  shows "\<exists>h. status_destroy st (heap s) = (Val (), h) \<and> owned (s\<lparr>heap := h, vars := (vars s)(v := x)\<rparr>)"
proof (cases st)
  case None
  have "owned (s\<lparr>vars := (vars s)(v := x)\<rparr>)"
    using assms None by (auto simp: owned_def split: if_splits) (metis option.distinct(1) option.inject)+
  with None show ?thesis by (simp add: status_destroy_def)
next
  case (Some p)
  with assms show ?thesis
    using ownedD(1)[of s v p] owned_free[of s v p x] by (simp add: status_destroy_def)
qed

text \<open>Every disciplined operation runs, and keeps single ownership.\<close>

lemma status_step_owned:
  assumes "owned s" "disciplined op s"
  shows "\<exists>s'. status_step op s = (Val (), s') \<and> owned s'"
proof (cases op)
  case (Default v)
  with assms show ?thesis by (simp add: owned_null)
next
  case (Make_Error v msg)
  with assms show ?thesis
    by (simp add: status_InternalError_def owned_alloc)
next
  case (Copy_Init v w)
  with assms show ?thesis by (simp add: status_copy_def owned_null)
next
  case (Move_Init v w)
  with assms obtain st where "vars s w = Some st" "vars s v = None" by auto
  moreover from this have "v \<noteq> w" by auto
  ultimately show ?thesis using assms(1) Move_Init by (simp add: status_move_def owned_move)
next
  case (Copy_Assign v w)
  with assms show ?thesis by (simp add: status_copy_assign_def owned_null)
next
  case (Destroy v)
  with assms obtain st where "vars s v = Some st" by auto
  with status_destroy_owned[OF assms(1) this, of None] Destroy show ?thesis by auto
next
  case (Move_Assign v w)
  with assms obtain a b where ab: "vars s v = Some a" "vars s w = Some b" by auto
  show ?thesis
  proof (cases "v = w")
    case True
    with ab Move_Assign assms(1) show ?thesis
      by (simp add: status_move_assign_def run_simps bind_var_def fun_upd_idem)
  next
    case False
    obtain h where h: "status_destroy a (heap s) = (Val (), h)"
      and "owned (s\<lparr>heap := h, vars := (vars s)(v := Some None)\<rparr>)"
      using status_destroy_owned[OF assms(1) ab(1), of "Some None"] by auto
    then have "owned (bind_var v b (bind_var w None (s\<lparr>heap := h, vars := (vars s)(v := Some None)\<rparr>)))"
      using ab False by (intro owned_move) auto
    moreover have "bind_var v b (bind_var w None (s\<lparr>heap := h, vars := (vars s)(v := Some None)\<rparr>))
        = bind_var v b (bind_var w None (s\<lparr>heap := h\<rparr>))"
      using False by (simp add: bind_var_def fun_upd_twist[of v w])
    ultimately show ?thesis
      using False ab Move_Assign h by (simp add: status_move_assign_def run_simps)
  qed
qed

lemma status_run_owned:
  "owned s \<Longrightarrow> disciplined_run ops s \<Longrightarrow> \<exists>s'. status_run ops s = (Val (), s') \<and> owned s'"
proof (induction ops arbitrary: s)
  case Nil
  then show ?case by (simp add: run_simps)
next
  case (Cons op ops)
  then obtain s1 where s1: "status_step op s = (Val (), s1)" "owned s1"
    using status_step_owned by (metis disciplined_run.simps(2))
  with Cons.prems have "disciplined_run ops s1" by simp
  with Cons.IH[OF s1(2)] s1(1) show ?case by (simp add: run_simps)
qed

text \<open>When no object is left alive, no block is left allocated.\<close>

lemma owned_no_leak:
  assumes "owned s" "\<And>v. vars s v = None" "b \<in> set (heap s)"
  shows "b = Freed"
  using assms ownedD(3)[OF assms(1)] by (fastforce simp: in_set_conv_nth)

section \<open>What the operations promise\<close>


definition status_ops_example :: "status_op list" where
  "status_ops_example =
     [Default 0, Make_Error 1 ''disk full'', Move_Assign 0 1, Default 2, Copy_Assign 2 1,
      Move_Init 3 0, Destroy 3, Destroy 2, Destroy 1, Destroy 0]"


text \<open>Copying an error status with the defaulted copy constructor makes two owners of one
  block: letting both objects go out of scope, in either order, frees it twice.\<close>

theorem status_copy_double_free:
  assumes "owned s" "vars s v = Some (Some p)" "vars s w = None" "{a, b} = {v, w}"
  shows "fst (status_run [Copy_Init w v, Destroy a, Destroy b] s) = Undef Double_Free"
proof -
  have "w \<noteq> v" using assms(2,3) by auto
  then consider "a = v" "b = w" "w \<noteq> v" | "a = w" "b = v" "w \<noteq> v"
    using assms(4) by (auto simp: doubleton_eq_iff)
  then show ?thesis
    using ownedD(1)[OF assms(1,2)] assms(2,3)
    by cases (simp_all add: bind_def ret_def bind_var_def status_copy_def status_destroy_def)
qed

theorem status_copy_double_free_witness:
  "fst (status_run [Copy_Init 1 0, Destroy 0, Destroy 1]
     (snd (status_run [Make_Error 0 ''timeout''] status_init))) = Undef Double_Free"
proof -
  define s where "s = snd (status_run [Make_Error 0 ''timeout''] status_init)"
  have s: "s = \<lparr>heap = [Live (c_str ''timeout'')], vars = (\<lambda>_. None)(0 := Some (Some 0))\<rparr>"
    by (simp add: s_def bind_def ret_def status_init_def bind_var_def status_InternalError_def)
  have "owned s" by (simp add: s owned_def c_str_def)
  then show ?thesis
    unfolding s_def[symmetric]
    using status_copy_double_free[of s 0 0 1 0 1] by (simp add: s)
qed

text \<open>A fresh error status refines the abstract value: it is not OK, and its message is the
  given text up to the first NUL; the statuses that were there keep their values.\<close>

theorem internal_error_refines:
  "abs_status (fst (status_InternalError msg h)) (snd (status_InternalError msg h))
     = Some (internal_error msg) \<and>
   (abs_status st h = Some v \<longrightarrow> abs_status st (snd (status_InternalError msg h)) = Some v)"
proof -
  have "deref p (h @ [Live c]) = Val m" if "deref p h = Val m" for p c m
    using that by (simp add: deref_Val_iff nth_append)
  then show ?thesis
    by (auto simp: status_InternalError_def abs_status_def internal_error_def
        split: option.splits res.splits)
qed

theorem internal_error_refines_witness:
  "abs_status (Some 0) (snd (status_InternalError ''b'' [Live ''a''])) = Some (Internal_Error ''a'')"
  using internal_error_refines[of "''b''" "[Live ''a'']" "Some 0" "Internal_Error ''a''"]
  by (simp add: abs_status_def deref_def)

section \<open>StatusOr\<close>

record 'a status_or =
  so_value :: "'a option"
  so_status :: status_ptr

text \<open>
  Construction from a status copies it (the pointer), and throws for an OK status; construction
  from a value, copied or moved.
\<close>

definition ok_without_value_msg :: string where
  "ok_without_value_msg = ''Cannot create a StatusOr with a OK status without a value.''"

definition value_of_error_msg :: string where
  "value_of_error_msg = ''Attempted to access the value of a StatusOr object that is not OK. Error: ''"

definition statusor_of_status :: "status_ptr \<Rightarrow> 'a status_or res" where
  "statusor_of_status st =
     (if status_ok (status_copy st)
      then Exn (Invalid_Argument ok_without_value_msg)
      else Val \<lparr>so_value = None, so_status = status_copy st\<rparr>)"

definition statusor_of_value :: "'a \<Rightarrow> 'a status_or" where
  "statusor_of_value x = \<lparr>so_value = Some x, so_status = status_OK\<rparr>"

definition statusor_OK :: "'a status_or \<Rightarrow> bool" where
  "statusor_OK so = status_ok (so_status so)"

definition statusor_GetStatus :: "'a status_or \<Rightarrow> status_ptr" where
  "statusor_GetStatus so = status_copy (so_status so)"

text \<open>\<open>*value_\<close> of an empty optional is undefined; no constructor leads there, but a move does.\<close>

definition statusor_ValueOrDie :: "'a status_or \<Rightarrow> sheap \<Rightarrow> 'a res" where
  "statusor_ValueOrDie so h =
     (if \<not> statusor_OK so then
        res_bind (status_message (so_status so) h) (\<lambda>m.
          Exn (Runtime_Error
            (value_of_error_msg @ m)))
      else (case so_value so of Some x \<Rightarrow> Val x | None \<Rightarrow> Undef Null_Deref))"

definition statusor_destroy :: "'a status_or \<Rightarrow> (sheap, unit) prog" where
  "statusor_destroy so = status_destroy (so_status so)"

text \<open>
  The defaulted copies and moves, member by member. What a move leaves of the value in its source
  depends on the type; an empty optional stays empty.
\<close>

definition statusor_copy :: "'a status_or \<Rightarrow> 'a status_or" where
  "statusor_copy other = \<lparr>so_value = so_value other, so_status = status_copy (so_status other)\<rparr>"

definition statusor_move :: "('a \<Rightarrow> 'a) \<Rightarrow> 'a status_or \<Rightarrow> 'a status_or \<times> 'a status_or" where
  "statusor_move moved other =
     (case status_move (so_status other) of (st, st') \<Rightarrow>
        (\<lparr>so_value = so_value other, so_status = st\<rparr>,
         \<lparr>so_value = map_option moved (so_value other), so_status = st'\<rparr>))"

definition statusor_copy_assign :: "'a status_or \<Rightarrow> 'a status_or \<Rightarrow> 'a status_or" where
  "statusor_copy_assign this other =
     \<lparr>so_value = so_value other, so_status = status_copy_assign (so_status this) (so_status other)\<rparr>"

definition statusor_move_assign ::
    "bool \<Rightarrow> ('a \<Rightarrow> 'a) \<Rightarrow> 'a status_or \<Rightarrow> 'a status_or \<Rightarrow> (sheap, 'a status_or \<times> 'a status_or) prog" where
  "statusor_move_assign same_object moved this other =
     bind (status_move_assign same_object (so_status this) (so_status other)) (\<lambda>(st, st').
       ret (if same_object then (this, other)
            else (\<lparr>so_value = so_value other, so_status = st\<rparr>,
                  \<lparr>so_value = map_option moved (so_value other), so_status = st'\<rparr>)))"

text \<open>
  A function returning \<open>StatusOr\<close> whose body says \<open>return Status::InternalError(msg)\<close>: the
  temporary status is built, the result is constructed from it, the temporary is destroyed.
\<close>

definition return_error_as_statusor :: "string \<Rightarrow> (sheap, 'a status_or) prog" where
  "return_error_as_statusor msg h =
     (case status_InternalError msg h of (tmp, h1) \<Rightarrow>
        (case statusor_of_status tmp of
           Val so \<Rightarrow> (case status_destroy tmp h1 of
               (Val _, h2) \<Rightarrow> (Val so, h2)
             | (Exn e, h2) \<Rightarrow> (Exn e, h2)
             | (Check_Failed c, h2) \<Rightarrow> (Check_Failed c, h2)
             | (Undef u, h2) \<Rightarrow> (Undef u, h2))
         | Exn e \<Rightarrow> (Exn e, h1)
         | Check_Failed c \<Rightarrow> (Check_Failed c, h1)
         | Undef u \<Rightarrow> (Undef u, h1)))"

lemma statusor_value_roundtrip:
  "statusor_OK (statusor_of_value x)" "statusor_ValueOrDie (statusor_of_value x) h = Val x"
  by (simp_all add: statusor_of_value_def statusor_OK_def status_ok_def statusor_ValueOrDie_def)

lemma statusor_ValueOrDie_error:
  "so_status so = Some p \<Longrightarrow> statusor_ValueOrDie so h
     = res_bind (deref p h) (\<lambda>m. Exn (Runtime_Error (value_of_error_msg @ m)))"
  by (simp add: statusor_ValueOrDie_def statusor_OK_def status_ok_def status_message_def)

lemma deref_end_freed [simp]: "deref (length h) (h @ [Freed]) = Undef Use_After_Free"
  by (simp add: deref_def)



lemma returned_error_dangling:
  "\<exists>so h'. return_error_as_statusor msg h = (Val so, h') \<and> \<not> statusor_OK so \<and>
     statusor_ValueOrDie so h' = Undef Use_After_Free \<and>
     fst (statusor_destroy so h') = Undef Double_Free"
  by (simp add: return_error_as_statusor_def status_InternalError_def statusor_of_status_def
      status_ok_def status_copy_def status_destroy_def statusor_OK_def statusor_ValueOrDie_error
      statusor_destroy_def)

text \<open>Returning an error from a function whose result is a \<open>StatusOr\<close> yields an object that is
  not OK but whose status already dangles: asking it for the value, which should throw with the
  message, reads freed memory, and destroying it frees the block a second time.\<close>

theorem returned_error_dangles:
  "\<exists>so h'. return_error_as_statusor msg h = (Val so, h') \<and> \<not> statusor_OK so \<and>
     statusor_ValueOrDie so h' = Undef Use_After_Free \<and>
     fst (statusor_destroy so h') = Undef Double_Free"
  by (rule returned_error_dangling)

text \<open>C37. Moving an error out of a \<open>StatusOr\<close> hands it over intact, by construction as by assignment
  to an object that has no block of its own, but leaves a source that says it is OK and has no
  value: asking the source for its value is undefined, where an error should have been thrown.\<close>

theorem moved_error_claims_value:
  fixes moved :: "'a \<Rightarrow> 'a"
  assumes "abs_status (so_status err) h = Some (Internal_Error m)" "so_value err = None"
    and "so_status this = None"
    and "(new, old) = statusor_move moved err \<or> statusor_move_assign False moved this err h = (Val (new, old), h)"
  shows "statusor_ValueOrDie new h = Exn (Runtime_Error (value_of_error_msg @ m)) \<and>
    statusor_OK old \<and> statusor_ValueOrDie old h = Undef Null_Deref"
proof -
  from assms have n: "so_status new = so_status err" "so_value old = None" "so_status old = None"
    by (auto simp: statusor_move_def status_move_def statusor_move_assign_def status_move_assign_def
        status_destroy_def bind_eq_Val run_simps)
  moreover obtain p where "so_status err = Some p" "deref p h = Val m"
    using assms(1) by (auto simp: abs_status_def split: option.splits res.splits)
  ultimately show ?thesis
    by (simp add: statusor_ValueOrDie_error) (simp add: statusor_ValueOrDie_def statusor_OK_def status_ok_def)
qed

theorem moved_error_claims_value_witness:
  "statusor_ValueOrDie (snd (statusor_move id (\<lparr>so_value = None, so_status = Some 0\<rparr> :: nat status_or))) [Live ''gone'']
     = Undef Null_Deref"
  using moved_error_claims_value[of "\<lparr>so_value = None, so_status = Some 0\<rparr> :: nat status_or" "[Live ''gone'']"
      "''gone''" "statusor_of_value 1" "fst (statusor_move id \<lparr>so_value = None, so_status = Some 0\<rparr>)"
      "snd (statusor_move id \<lparr>so_value = None, so_status = Some 0\<rparr>)" id]
  by (simp add: abs_status_def deref_def statusor_of_value_def)

end
