(* ===== verification/Filesystem.thy ===== *)
theory Filesystem
  imports Cxx_String "HOL-Library.AList" "HOL-Library.Word"
begin

text \<open>
  fs/fs\_util.h over a model of the part of the file system it touches. A file system is an
  association list from absolute, normalised paths to regular files (with their bytes) or
  directories; its order is the unspecified order in which a directory is listed. What the
  operating system decides by itself (permissions, a full device) is the parameter \<open>os_env\<close>.
\<close>

section \<open>File systems\<close>

datatype fnode = Regular string | Directory

type_synonym fs = "(string \<times> fnode) list"

record os_env =
  denied :: "string \<Rightarrow> bool"                  \<comment> \<open>paths the process may not open, create or remove\<close>
  accept :: "string \<Rightarrow> string \<Rightarrow> nat"    \<comment> \<open>how many bytes of a write reach a file holding the given bytes\<close>

definition content :: "fs \<Rightarrow> string \<Rightarrow> string option" where
  "content d p = (case map_of d p of Some (Regular c) \<Rightarrow> Some c | _ \<Rightarrow> None)"

definition put_file :: "string \<Rightarrow> string \<Rightarrow> fs \<Rightarrow> fs" where
  "put_file p c d = AList.update p (Regular c) d"

definition drop_path :: "string \<Rightarrow> fs \<Rightarrow> fs" where
  "drop_path p d = AList.delete p d"

text \<open>The directory part of a path; the root (and the working directory) is the empty path.\<close>

definition parent_path :: "string \<Rightarrow> string" where
  "parent_path p = (case find_last_of CHR ''/'' p of None \<Rightarrow> [] | Some i \<Rightarrow> take i p)"

definition is_dir :: "fs \<Rightarrow> string \<Rightarrow> bool" where
  "is_dir d p \<longleftrightarrow> p = [] \<or> map_of d p = Some Directory"

definition below :: "string \<Rightarrow> string \<Rightarrow> bool" where
  "below dir p \<longleftrightarrow> take (Suc (length dir)) p = dir @ ''/''"

definition entry_name :: "string \<Rightarrow> string \<Rightarrow> string option" where
  "entry_name dir p =
     (let r = drop (Suc (length dir)) p
      in if below dir p \<and> r \<noteq> [] \<and> CHR ''/'' \<notin> set r then Some r else None)"

lemma below_append [simp]: "below dir (dir @ CHR ''/'' # r)"
  by (simp add: below_def)

lemma entry_name_append [simp]:
  "entry_name dir (dir @ CHR ''/'' # r) = (if r \<noteq> [] \<and> CHR ''/'' \<notin> set r then Some r else None)"
  by (simp add: entry_name_def)

lemma entry_name_Some: "entry_name dir p = Some r \<Longrightarrow> p = dir @ CHR ''/'' # r"
  unfolding entry_name_def below_def Let_def
  by (auto split: if_splits) (metis append.assoc append_Cons append_Nil append_take_drop_id)

lemma parent_path_append [simp]: "CHR ''/'' \<notin> set r \<Longrightarrow> parent_path (dir @ CHR ''/'' # r) = dir"
  by (simp add: parent_path_def)

section \<open>The file store interface\<close>

text \<open>
  What the clients of the file system rely on: the contents of files by path, storing a file
  and removing a path, and that each changes the contents at its own path only.
\<close>

locale file_store =
  fixes cont :: "'s \<Rightarrow> 'p \<Rightarrow> 'c option" and store :: "'p \<Rightarrow> 'c \<Rightarrow> 's \<Rightarrow> 's" and remv :: "'p \<Rightarrow> 's \<Rightarrow> 's"
  assumes cont_store: "cont (store p c s) q = (if q = p then Some c else cont s q)"
    and cont_remv: "cont (remv p s) q = (if q = p then None else cont s q)"
begin

lemma cont_move:
  "cont (store q c (remv p s)) r = (if r = q then Some c else if r = p then None else cont s r)"
  by (simp add: cont_store cont_remv)

lemma store_other: "r \<noteq> p \<Longrightarrow> cont (store p c s) r = cont s r"
  by (simp add: cont_store)

lemma cont_store_list:
  "p \<notin> fst ` set ws \<Longrightarrow> cont (foldl (\<lambda>s (q, c). store q c s) s ws) p = cont s p"
  by (induction ws arbitrary: s) (auto simp: cont_store)

end

interpretation disk: file_store content put_file drop_path
  by unfold_locales
     (auto simp: content_def put_file_def drop_path_def update_conv' delete_conv')

declare disk.cont_store [simp] disk.cont_remv [simp]

definition fs_wf :: "fs \<Rightarrow> bool" where
  "fs_wf d \<longleftrightarrow> distinct (map fst d)"

lemma fs_wf_put [simp]: "fs_wf d \<Longrightarrow> fs_wf (put_file p c d)"
  by (simp add: fs_wf_def put_file_def distinct_update)

lemma fs_wf_drop [simp]: "fs_wf d \<Longrightarrow> fs_wf (drop_path p d)"
  by (simp add: fs_wf_def drop_path_def distinct_delete)

lemma map_of_put [simp]: "map_of (put_file p c d) q = (if q = p then Some (Regular c) else map_of d q)"
  by (simp add: put_file_def update_conv')

lemma map_of_drop [simp]: "map_of (drop_path p d) q = (if q = p then None else map_of d q)"
  by (simp add: drop_path_def delete_conv')

lemma content_eq_Some: "content d p = Some c \<longleftrightarrow> map_of d p = Some (Regular c)"
  by (auto simp: content_def split: option.splits fnode.splits)

section \<open>The operations of the standard library the sources call\<close>

definition fs_exists :: "fs \<Rightarrow> string \<Rightarrow> bool" where
  "fs_exists d p \<longleftrightarrow> map_of d p \<noteq> None"

definition fs_children :: "fs \<Rightarrow> string \<Rightarrow> string list" where
  "fs_children d dir = List.map_filter (\<lambda>(p, _). entry_name dir p) d"

text \<open>
  \<open>std::filesystem::remove\<close>: false when there is nothing to remove; a directory that is not
  empty, or a path the process may not remove, is an exception.
\<close>

definition std_remove :: "os_env \<Rightarrow> string \<Rightarrow> (fs, bool) prog" where
  "std_remove env p d =
     (case map_of d p of
        None \<Rightarrow> (Val False, d)
      | Some n \<Rightarrow>
          (if denied env p \<or> (n = Directory \<and> (\<exists>(q, _) \<in> set d. below p q))
           then (Exn (Filesystem_Error p), d)
           else (Val True, drop_path p d)))"

text \<open>\<open>std::filesystem::remove_all\<close>: the number of paths removed.\<close>

definition std_remove_all :: "os_env \<Rightarrow> string \<Rightarrow> (fs, nat) prog" where
  "std_remove_all env p d =
     (let gone = filter (\<lambda>(q, _). q = p \<or> below p q) d
      in if map_of d p = None then (Val 0, d)
         else if (\<exists>(q, _) \<in> set gone. denied env q) then (Exn (Filesystem_Error p), d)
         else (Val (length gone), filter (\<lambda>(q, _). \<not> (q = p \<or> below p q)) d))"

text \<open>
  \<open>std::filesystem::create_directories\<close> makes every missing directory on the way, and tells
  whether the last one was made.
\<close>

definition dir_prefixes :: "string \<Rightarrow> string list" where
  "dir_prefixes p = map (\<lambda>i. take i p) (filter (\<lambda>i. p ! i = CHR ''/'') [1..<length p]) @ [p]"

fun make_dirs :: "os_env \<Rightarrow> string list \<Rightarrow> bool \<Rightarrow> (fs, bool) prog" where
  "make_dirs env [] created d = (Val created, d)"
| "make_dirs env (q # qs) created d =
     (case map_of d q of
        Some Directory \<Rightarrow> make_dirs env qs False d
      | Some (Regular _) \<Rightarrow> (Exn (Filesystem_Error q), d)
      | None \<Rightarrow>
          (if denied env q then (Exn (Filesystem_Error q), d)
           else make_dirs env qs True (d @ [(q, Directory)])))"

definition create_directories :: "os_env \<Rightarrow> string \<Rightarrow> (fs, bool) prog" where
  "create_directories env p = make_dirs env (dir_prefixes p) False"

text \<open>
  Opening for writing needs a name, a directory to put the file in and must not hit a directory.
  \<open>fopen(p, "w")\<close> and \<open>std::ofstream\<close> create or truncate the file. The buffering of the
  stream is not modelled here: bytes that are written are in the file (Download\_Stdio has it).
\<close>

definition can_open_w :: "os_env \<Rightarrow> fs \<Rightarrow> string \<Rightarrow> bool" where
  "can_open_w env d p \<longleftrightarrow>
     p \<noteq> [] \<and> \<not> denied env p \<and> is_dir d (parent_path p) \<and> map_of d p \<noteq> Some Directory"

definition fopen_w :: "os_env \<Rightarrow> string \<Rightarrow> fs \<Rightarrow> bool \<times> fs" where
  "fopen_w env p d = (if can_open_w env d p then (True, put_file p [] d) else (False, d))"

definition stored :: "os_env \<Rightarrow> string \<Rightarrow> string \<Rightarrow> nat" where
  "stored env c data = min (accept env c data) (length data)"

text \<open>
  \<open>fwrite(data, length, 1, fp)\<close> on the file at \<open>p\<close> returns the number of complete items: 1
  when all bytes were stored, 0 when not all were or when the length is 0.
\<close>

definition fwrite :: "os_env \<Rightarrow> string \<Rightarrow> string \<Rightarrow> fs \<Rightarrow> nat \<times> fs" where
  "fwrite env p data d =
     (if data = [] then (0, d)
      else let c = (case content d p of None \<Rightarrow> [] | Some c \<Rightarrow> c);
               n = stored env c data
           in (if n = length data then 1 else 0, put_file p (c @ take n data) d))"

text \<open>\<open>rename\<close> of a regular file: 0 on success.\<close>

definition rename_file :: "os_env \<Rightarrow> string \<Rightarrow> string \<Rightarrow> fs \<Rightarrow> int \<times> fs" where
  "rename_file env old new d =
     (case content d old of
        None \<Rightarrow> (-1, d)
      | Some c \<Rightarrow>
          (if denied env old \<or> \<not> can_open_w env d new then (-1, d)
           else if old = new then (0, d)
           else (0, put_file new c (drop_path old d))))"

section \<open>fs/fs\_util.h\<close>

definition open_error :: "string \<Rightarrow> exn" where
  "open_error p = Runtime_Error (''Could not open file: '' @ p)"

definition readFile :: "os_env \<Rightarrow> string \<Rightarrow> (fs, string) prog" where
  "readFile env p d =
     (case map_of d p of
        None \<Rightarrow> (Exn (open_error p), d)
      | Some n \<Rightarrow>
          (if denied env p then (Exn (open_error p), d)
           else (Val (case n of Regular c \<Rightarrow> c | Directory \<Rightarrow> []), d)))"

definition writeFile :: "os_env \<Rightarrow> string \<Rightarrow> string \<Rightarrow> (fs, unit) prog" where
  "writeFile env p txt d =
     (if can_open_w env d p then (Val (), put_file p (take (stored env [] txt) txt) d)
      else (Exn (open_error p), d))"

definition appendToFile :: "os_env \<Rightarrow> string \<Rightarrow> string \<Rightarrow> (fs, unit) prog" where
  "appendToFile env p txt d =
     (if can_open_w env d p
      then let c = (case content d p of None \<Rightarrow> [] | Some c \<Rightarrow> c)
           in (Val (), put_file p (c @ take (stored env c txt) txt) d)
      else (Exn (open_error p), d))"

definition fileExists :: "fs \<Rightarrow> string \<Rightarrow> bool" where
  "fileExists d p = fs_exists d p"

text \<open>
  \<open>deleteFile\<close> promises a \<open>bool\<close> and has no \<open>return\<close>: after a successful removal control
  reaches the closing brace. The standard leaves that undefined; a translation that does not
  trap there (\<open>falls\<close>) goes back to the caller with an indeterminate value, which every
  caller discards.
\<close>

definition deleteFile :: "bool \<Rightarrow> os_env \<Rightarrow> string \<Rightarrow> (fs, unit) prog" where
  "deleteFile falls env p =
     bind (std_remove env p) (\<lambda>removed.
       if \<not> removed then throw (Runtime_Error (''Could not delete files: '' @ p))
       else if falls then ret () else undef Missing_Return)"

definition getFileSize :: "string \<Rightarrow> (fs, nat) prog" where
  "getFileSize p d =
     (if \<not> fileExists d p then (Exn (Runtime_Error (''File does not exist: '' @ p)), d)
      else (case content d p of
              Some c \<Rightarrow> (Val (length c), d)
            | None \<Rightarrow> (Exn (Filesystem_Error p), d)))"

definition createDirectory :: "os_env \<Rightarrow> string \<Rightarrow> (fs, unit) prog" where
  "createDirectory env p =
     bind (create_directories env p) (\<lambda>created.
       if \<not> created then throw (Runtime_Error (''Could not create directory: '' @ p)) else ret ())"

definition deleteDirectory :: "os_env \<Rightarrow> string \<Rightarrow> (fs, unit) prog" where
  "deleteDirectory env p =
     bind (std_remove_all env p) (\<lambda>n.
       if n = 0 then throw (Runtime_Error_Ptr (''Could not delete directory: '' @ p)) else ret ())"

definition directoryExists :: "fs \<Rightarrow> string \<Rightarrow> bool" where
  "directoryExists d p \<longleftrightarrow> fs_exists d p \<and> map_of d p = Some Directory"

definition listDirectory :: "string \<Rightarrow> (fs, string list) prog" where
  "listDirectory p d =
     (if \<not> directoryExists d p then (Exn (Runtime_Error (''Directory does not exist: '' @ p)), d)
      else (Val (fs_children d p), d))"

text \<open>The size of a directory: the sizes of the regular files below it, added as \<open>uintmax_t\<close>.\<close>

definition getDirectorySize :: "string \<Rightarrow> (fs, 64 word) prog" where
  "getDirectorySize p d =
     (if \<not> directoryExists d p then (Exn (Runtime_Error (''Directory does not exist: '' @ p)), d)
      else (Val (foldl (\<lambda>size (q, n). case n of
                    Regular c \<Rightarrow> (if below p q then size + of_nat (length c) else size)
                  | Directory \<Rightarrow> size) 0 d), d))"

section \<open>Lemmas of the operations\<close>

lemma can_open_w_denied: "can_open_w env d p \<Longrightarrow> \<not> denied env p"
  by (simp add: can_open_w_def)

lemma stored_all: "length data \<le> accept env c data \<Longrightarrow> stored env c data = length data"
  by (simp add: stored_def)

lemma fs_children_iff: "r \<in> set (fs_children d dir) \<longleftrightarrow>
    r \<noteq> [] \<and> CHR ''/'' \<notin> set r \<and> fs_exists d (dir @ CHR ''/'' # r)"
proof
  assume "r \<in> set (fs_children d dir)"
  then obtain p n where pn: "(p, n) \<in> set d" "entry_name dir p = Some r"
    by (auto simp: fs_children_def List.map_filter_def)
  then have "p = dir @ CHR ''/'' # r" by (simp add: entry_name_Some)
  with pn show "r \<noteq> [] \<and> CHR ''/'' \<notin> set r \<and> fs_exists d (dir @ CHR ''/'' # r)"
    by (auto simp: fs_exists_def map_of_eq_None_iff intro: rev_image_eqI split: if_splits)
next
  assume r: "r \<noteq> [] \<and> CHR ''/'' \<notin> set r \<and> fs_exists d (dir @ CHR ''/'' # r)"
  then obtain n where "map_of d (dir @ CHR ''/'' # r) = Some n" by (auto simp: fs_exists_def)
  then have "(dir @ CHR ''/'' # r, n) \<in> set d" by (rule map_of_SomeD)
  with r show "r \<in> set (fs_children d dir)"
    by (force simp: fs_children_def List.map_filter_def)
qed

lemma fs_children_distinct: "fs_wf d \<Longrightarrow> distinct (fs_children d dir)"
proof (induction d)
  case Nil
  then show ?case by (simp add: fs_children_def List.map_filter_def)
next
  case (Cons a d)
  obtain p n where a: "a = (p, n)" by (cases a)
  from Cons.prems have "fs_wf d" and p: "p \<notin> fst ` set d" by (auto simp: fs_wf_def a)
  with Cons.IH have IH: "distinct (fs_children d dir)" by simp
  show ?case
  proof (cases "entry_name dir p")
    case None
    with IH show ?thesis by (simp add: a fs_children_def List.map_filter_def)
  next
    case (Some r)
    then have "p = dir @ CHR ''/'' # r" by (rule entry_name_Some)
    with p have "map_of d (dir @ CHR ''/'' # r) = None" by (simp add: map_of_eq_None_iff)
    then have "r \<notin> set (fs_children d dir)" by (simp add: fs_children_iff fs_exists_def)
    with Some IH show ?thesis by (simp add: a fs_children_def List.map_filter_def)
  qed
qed

lemma make_dirs_sound:
  assumes "make_dirs env qs created d = (Val b, d')"
  shows "map_of d' = (\<lambda>q. if q \<in> set qs then Some Directory else map_of d q)"
  using assms
proof (induction qs arbitrary: created d)
  case (Cons q qs)
  show ?case
  proof (cases "map_of d q")
    case None
    with Cons.prems have "make_dirs env qs True (d @ [(q, Directory)]) = (Val b, d')"
      by (simp split: if_splits)
    from Cons.IH[OF this] None show ?thesis
      by (auto simp: fun_eq_iff map_add_def split: option.splits)
  next
    case (Some n)
    with Cons.prems have "n = Directory" "make_dirs env qs False d = (Val b, d')"
      by (auto split: fnode.splits)
    with Cons.IH[of False d] Some show ?thesis by (auto simp: fun_eq_iff)
  qed
qed simp

lemma make_dirs_snoc:
  "make_dirs env (qs @ [q]) created d =
     bind (make_dirs env qs created) (\<lambda>c. make_dirs env [q] c) d"
  by (induction qs arbitrary: created d) (auto simp: bind_def split: option.splits fnode.splits)

lemma fs_wf_append_new: "fs_wf d \<Longrightarrow> map_of d q = None \<Longrightarrow> fs_wf (d @ [(q, n)])"
  by (auto simp: fs_wf_def map_of_eq_None_iff)

lemma make_dirs_wf: "keeps fs_wf (make_dirs env qs created)"
proof (rule keepsI)
  show "fs_wf d \<Longrightarrow> fs_wf (snd (make_dirs env qs created d))" for d
    by (induction qs arbitrary: created d) (auto simp: fs_wf_append_new split: option.splits fnode.splits)
qed

lemma std_remove_wf: "keeps fs_wf (std_remove env p)"
  by (rule keepsI) (simp add: std_remove_def split: option.splits)

lemma deleteFile_run:
  "deleteFile falls env p d =
     (case std_remove env p d of
        (Val True, d') \<Rightarrow> ((if falls then Val () else Undef Missing_Return), d')
      | (Val False, d') \<Rightarrow> (Exn (Runtime_Error (''Could not delete files: '' @ p)), d')
      | (Exn e, d') \<Rightarrow> (Exn e, d')
      | (Check_Failed c, d') \<Rightarrow> (Check_Failed c, d')
      | (Undef u, d') \<Rightarrow> (Undef u, d'))"
  by (simp add: deleteFile_def bind_def ret_def throw_def undef_def split: prod.splits res.splits bool.splits)

lemma deleteFile_regular:
  assumes "content d p = Some c" "\<not> denied env p"
  shows "deleteFile True env p d = (Val (), drop_path p d)"
  using assms by (simp add: deleteFile_run std_remove_def content_eq_Some)

section \<open>What the operations promise\<close>

text \<open>A text written to a file is read back unchanged, byte for byte, when the device takes it;
  the file then exists, has the length of the text, appears once in the listing of its directory,
  and no other path is touched.\<close>

theorem write_read_roundtrip:
  assumes "can_open_w env d p" "length txt \<le> accept env [] txt"
  shows "\<exists>d'. writeFile env p txt d = (Val (), d') \<and> readFile env p d' = (Val txt, d') \<and>
    fileExists d' p \<and> getFileSize p d' = (Val (length txt), d') \<and>
    (\<forall>q. q \<noteq> p \<longrightarrow> map_of d' q = map_of d q)"
  using assms
  by (auto simp: writeFile_def readFile_def stored_all fileExists_def fs_exists_def getFileSize_def
      content_def dest: can_open_w_denied)

definition roomy_os :: os_env where
  "roomy_os = \<lparr>denied = (\<lambda>_. False), accept = (\<lambda>_ data. length data)\<rparr>"

theorem write_read_roundtrip_witness:
  "\<exists>d'. writeFile roomy_os ''/a/x'' ''hi'' [(''/a'', Directory)] = (Val (), d') \<and>
     readFile roomy_os ''/a/x'' d' = (Val ''hi'', d')"
  using write_read_roundtrip[of roomy_os "[(''/a'', Directory)]" "''/a/x''" "''hi''"]
  by (auto simp: can_open_w_def is_dir_def parent_path_def roomy_os_def)

text \<open>Deleting a file that exists and may be removed removes exactly that path, but defined
  control only comes back when the translation falls off the closing brace of \<open>deleteFile\<close>
  without trapping; deleting what is not there throws a runtime error and a directory with
  something in it the error of the library, both leaving the file system alone.\<close>

theorem deleteFile_effect:
  "deleteFile falls env p d =
     (case map_of d p of
        None \<Rightarrow> (Exn (Runtime_Error (''Could not delete files: '' @ p)), d)
      | Some n \<Rightarrow>
          (if denied env p \<or> n = Directory \<and> (\<exists>(q, _) \<in> set d. below p q)
           then (Exn (Filesystem_Error p), d)
           else ((if falls then Val () else Undef Missing_Return), drop_path p d)))"
proof (cases "map_of d p")
  case (Some n)
  then show ?thesis
    by (cases "denied env p \<or> n = Directory \<and> (\<exists>(q, _) \<in> set d. below p q)")
       (simp_all only: deleteFile_run std_remove_def option.case prod.case res.case if_True if_False bool.case)
qed (simp add: deleteFile_run std_remove_def)

text \<open>When \<open>createDirectory\<close> returns, the directory and every directory on the way to it
  exist and no other path has changed; it returns only if the directory was not there before,
  and an existing directory makes it throw.\<close>

theorem createDirectory_effect:
  "(createDirectory env p d = (Val (), d') \<longrightarrow>
      directoryExists d' p \<and> map_of d p = None \<and>
      (\<forall>q. map_of d' q = (if q \<in> set (dir_prefixes p) then Some Directory else map_of d q))) \<and>
   (directoryExists d p \<longrightarrow> \<not> is_Val (fst (createDirectory env p d)))"
proof -
  obtain qs where qs: "dir_prefixes p = qs @ [p]" by (auto simp: dir_prefixes_def)
  have last: "map_of e p = None" if r: "create_directories env p e = (Val True, e')" for e e'
  proof -
    obtain c e1 where e1: "make_dirs env qs False e = (Val c, e1)"
      and step: "make_dirs env [p] c e1 = (Val True, e')"
      using r by (auto simp: create_directories_def qs make_dirs_snoc bind_eq_Val simp del: make_dirs.simps)
    from step have "map_of e1 p = None"
      by (auto split: option.splits fnode.splits if_splits)
    with make_dirs_sound[OF e1] show ?thesis by (auto split: if_splits)
  qed
  have p_in: "p \<in> set (dir_prefixes p)" by (simp add: dir_prefixes_def)
  have ret: "create_directories env p d = (Val True, d'')" if "createDirectory env p d = (Val (), d'')" for d''
    using that by (auto simp: createDirectory_def bind_eq_Val run_simps split: if_splits)
  show ?thesis
  proof (intro conjI impI)
    assume r: "createDirectory env p d = (Val (), d')"
    from make_dirs_sound[OF ret[OF r, unfolded create_directories_def]] p_in last[OF ret[OF r]]
    show "directoryExists d' p" "map_of d p = None"
      "\<forall>q. map_of d' q = (if q \<in> set (dir_prefixes p) then Some Directory else map_of d q)"
      by (auto simp: directoryExists_def fs_exists_def)
  next
    assume dd: "directoryExists d p"
    show "\<not> is_Val (fst (createDirectory env p d))"
    proof
      assume "is_Val (fst (createDirectory env p d))"
      then obtain d'' where "createDirectory env p d = (Val (), d'')"
        by (cases "createDirectory env p d") (auto simp: is_Val_iff)
      from last[OF ret[OF this]] dd show False by (simp add: directoryExists_def)
    qed
  qed
qed

theorem createDirectory_effect_witness:
  "createDirectory roomy_os ''/a/b'' [] = (Val (), [(''/a'', Directory), (''/a/b'', Directory)]) \<and>
   directoryExists [(''/a'', Directory), (''/a/b'', Directory)] ''/a/b''"
proof -
  have r: "createDirectory roomy_os ''/a/b'' [] = (Val (), [(''/a'', Directory), (''/a/b'', Directory)])"
    by (simp add: createDirectory_def create_directories_def dir_prefixes_def roomy_os_def bind_def
        run_simps upt_rec)
  from createDirectory_effect[THEN conjunct1, rule_format, OF this] r show ?thesis by blast
qed

text \<open>Listing a directory gives exactly the names of its direct entries, each once.\<close>

theorem listDirectory_exact:
  assumes "directoryExists d dir" "fs_wf d"
  shows "\<exists>names. listDirectory dir d = (Val names, d) \<and> distinct names \<and>
    (\<forall>r. r \<in> set names \<longleftrightarrow> r \<noteq> [] \<and> CHR ''/'' \<notin> set r \<and> fs_exists d (dir @ CHR ''/'' # r))"
  using assms by (auto simp: listDirectory_def fs_children_iff fs_children_distinct)

theorem listDirectory_exact_witness:
  "\<exists>names. listDirectory ''/a'' [(''/a'', Directory), (''/a/x'', Regular []), (''/a/y/z'', Regular [])]
     = (Val names, [(''/a'', Directory), (''/a/x'', Regular []), (''/a/y/z'', Regular [])]) \<and> names = [''x'']"
  using listDirectory_exact[of "[(''/a'', Directory), (''/a/x'', Regular []), (''/a/y/z'', Regular [])]" "''/a''"]
  by (simp add: directoryExists_def fs_exists_def fs_wf_def listDirectory_def fs_children_def
      List.map_filter_def entry_name_def below_def)

end
