(* ===== verification/Md5_Digest.thy ===== *)
theory Md5_Digest
  imports Cxx_String "HOL-Library.Word"
begin

text \<open>
  util/md5.h and util/md5.cpp: the class that feeds data to OpenSSL's MD5 and prints the digest
  in lower case hexadecimal. The library itself is a parameter, the three functions of
  \<open>md5_lib\<close>; what the class relies on, that the digest of a stream does not depend on how it
  was cut into pieces and has 16 bytes, is the hypothesis \<open>md5_streaming\<close>.
\<close>

unbundle bit_operations_syntax

record 'c md5_lib =
  MD5_Init :: 'c
  MD5_Update :: "'c \<Rightarrow> string \<Rightarrow> 'c"
  MD5_Final :: "'c \<Rightarrow> 8 word list \<times> 'c"

definition md5_streaming :: "'c md5_lib \<Rightarrow> (string \<Rightarrow> 8 word list) \<Rightarrow> bool" where
  "md5_streaming lib H \<longleftrightarrow>
     (\<forall>pieces. fst (MD5_Final lib (foldl (MD5_Update lib) (MD5_Init lib) pieces)) = H (concat pieces)) \<and>
     (\<forall>data. length (H data) = 16)"

record 'c md5_digest =
  md5_ctx :: 'c
  hex :: string

definition Md5Digest :: "'c md5_lib \<Rightarrow> 'c md5_digest" where
  "Md5Digest lib = \<lparr>md5_ctx = MD5_Init lib, hex = []\<rparr>"

definition md5_update :: "'c md5_lib \<Rightarrow> string \<Rightarrow> 'c md5_digest \<Rightarrow> 'c md5_digest" where
  "md5_update lib data d = d\<lparr>md5_ctx := MD5_Update lib (md5_ctx d) data\<rparr>"

definition dig_vec_lower :: string where
  "dig_vec_lower = ''0123456789abcdef''"

text \<open>The loop of \<open>digest\<close>: the two nibbles of every byte index the table of digits.\<close>

fun hex_loop :: "8 word list \<Rightarrow> string" where
  "hex_loop [] = []"
| "hex_loop (i # buf) =
     dig_vec_lower ! unat (drop_bit 4 i) # dig_vec_lower ! unat (i AND 0x0f) # hex_loop buf"

definition md5_finish :: "'c md5_lib \<Rightarrow> 'c md5_digest \<Rightarrow> 'c md5_digest" where
  "md5_finish lib d =
     (case MD5_Final lib (md5_ctx d) of (buf, ctx) \<Rightarrow> \<lparr>md5_ctx = ctx, hex = hex_loop buf\<rparr>)"

section \<open>The printed form determines the digest\<close>

fun index_of :: "char \<Rightarrow> string \<Rightarrow> nat option" where
  "index_of c [] = None"
| "index_of c (x # xs) = (if x = c then Some 0 else map_option Suc (index_of c xs))"

fun unhex :: "string \<Rightarrow> 8 word list option" where
  "unhex [] = Some []"
| "unhex [c] = None"
| "unhex (h # l # s) =
     (case (index_of h dig_vec_lower, index_of l dig_vec_lower, unhex s) of
        (Some hi, Some lo, Some bs) \<Rightarrow> Some (of_nat (16 * hi + lo) # bs)
      | _ \<Rightarrow> None)"

lemma less_16_cases: "(n::nat) < 16 \<Longrightarrow> n \<in> {0,1,2,3,4,5,6,7,8,9,10,11,12,13,14,15}"
  by (simp only: insert_iff empty_iff) presburger

lemma index_of_dig [simp]: "n < 16 \<Longrightarrow> index_of (dig_vec_lower ! n) dig_vec_lower = Some n"
  by (drule less_16_cases) (auto simp: dig_vec_lower_def)

lemma unat_high_nibble: "unat (drop_bit 4 (i :: 8 word)) = unat i div 16"
  by (simp add: drop_bit_eq_div unat_div)

lemma unat_low_nibble: "unat ((i :: 8 word) AND 0x0f) = unat i mod 16"
proof -
  have "i AND 0x0f = take_bit 4 i" by (simp add: take_bit_eq_mask mask_eq_exp_minus_1)
  then show ?thesis by (simp add: take_bit_eq_mod unat_mod)
qed

lemma nibbles_less [simp]:
  "unat (drop_bit 4 (i :: 8 word)) < 16" "unat ((i :: 8 word) AND 0x0f) < 16"
proof -
  have "unat i < 256" using unsigned_less[of i, where ?'a = nat] by simp
  then show "unat (drop_bit 4 i) < 16" "unat (i AND 0x0f) < 16"
    by (simp_all add: unat_high_nibble unat_low_nibble del: unat_drop_bit_eq)
qed

lemma nibbles_join: "16 * drop_bit 4 i + (i AND 0x0f) = (i :: 8 word)"
proof -
  have "of_nat (16 * unat (drop_bit 4 i) + unat (i AND 0x0f)) = i"
    by (simp only: unat_high_nibble unat_low_nibble mult_div_mod_eq) simp
  then show ?thesis by simp
qed

interpretation hexadecimal: codec hex_loop unhex "\<lambda>_. True"
proof unfold_locales
  show "unhex (hex_loop buf) = Some buf" for buf
    by (induction buf) (simp_all add: nibbles_join)
qed

lemma length_hex_loop [simp]: "length (hex_loop buf) = 2 * length buf"
  by (induction buf) simp_all

lemma hex_loop_chars: "c \<in> set (hex_loop buf) \<Longrightarrow> c \<in> set dig_vec_lower"
proof (induction buf)
  case (Cons i buf)
  have "length dig_vec_lower = 16" by (simp add: dig_vec_lower_def)
  with Cons show ?case by (auto intro: nth_mem)
qed simp

definition md5_feed :: "'c md5_lib \<Rightarrow> string list \<Rightarrow> 'c md5_digest \<Rightarrow> 'c md5_digest" where
  "md5_feed lib pieces d = foldl (\<lambda>d x. md5_update lib x d) d pieces"

lemma md5_feed_ctx: "md5_ctx (md5_feed lib pieces d) = foldl (MD5_Update lib) (md5_ctx d) pieces"
  by (induction pieces arbitrary: d) (simp_all add: md5_feed_def md5_update_def)

lemma md5_hex_of_stream:
  "md5_streaming lib H \<Longrightarrow> md5_ctx d = foldl (MD5_Update lib) (MD5_Init lib) pieces \<Longrightarrow>
   hex (md5_finish lib d) = hex_loop (H (concat pieces))"
  by (simp add: md5_finish_def md5_streaming_def split: prod.split) (metis fst_conv)

text \<open>However the data is cut into pieces, the text \<open>hex\<close> holds after \<open>digest\<close> is the
  hexadecimal form of the digest of the whole data: 32 characters, all of them lower case
  hexadecimal digits, and two streams get the same text only if their digests are the same.\<close>

theorem md5_digest_hex:
  assumes "md5_streaming lib H"
  shows "hex (md5_finish lib (md5_feed lib pieces (Md5Digest lib))) = hex_loop (H (concat pieces)) \<and>
    length (hex_loop (H (concat pieces))) = 32 \<and>
    set (hex_loop (H (concat pieces))) \<subseteq> set dig_vec_lower \<and>
    (hex_loop (H (concat pieces)) = hex_loop (H x) \<longleftrightarrow> H (concat pieces) = H x)"
proof -
  have "hex (md5_finish lib (md5_feed lib pieces (Md5Digest lib))) = hex_loop (H (concat pieces))"
    by (rule md5_hex_of_stream[OF assms]) (simp add: md5_feed_ctx Md5Digest_def)
  moreover have "length (H (concat pieces)) = 16" using assms by (simp add: md5_streaming_def)
  ultimately show ?thesis
    by (auto simp: hexadecimal.enc_inj dest: hex_loop_chars)
qed

text \<open>A concrete library to instantiate the parameter: 16 copies of the length of the data.\<close>

definition length_md5 :: "string md5_lib" where
  "length_md5 = \<lparr>MD5_Init = [], MD5_Update = (@), MD5_Final = (\<lambda>c. (replicate 16 (of_nat (length c)), c))\<rparr>"

definition length_hash :: "string \<Rightarrow> 8 word list" where
  "length_hash data = replicate 16 (of_nat (length data))"

lemma length_md5_streaming: "md5_streaming length_md5 length_hash"
proof -
  have "foldl (@) c pieces = c @ concat pieces" for c :: string and pieces
    by (induction pieces arbitrary: c) simp_all
  then show ?thesis by (simp add: md5_streaming_def length_md5_def length_hash_def)
qed

theorem md5_digest_hex_witness:
  "hex (md5_finish length_md5 (md5_feed length_md5 [''ab'', ''c''] (Md5Digest length_md5)))
     = ''03030303030303030303030303030303''"
proof -
  have "hex_loop (replicate n 3) = concat (replicate n ''03'')" for n
    by (induction n) (simp_all add: dig_vec_lower_def)
  then have "hex_loop (length_hash ''abc'') = ''03030303030303030303030303030303''"
    by (simp add: length_hash_def) (simp add: numeral_eq_Suc)
  then show ?thesis
    using md5_digest_hex[OF length_md5_streaming, of "[''ab'', ''c'']" "[]"] by simp
qed

end
