(* ===== verification/Http_Proto.thy ===== *)
theory Http_Proto
  imports Cxx_String
begin

text \<open>
  The protocol tables and values of http/: request methods (http\_method.h, http\_method.cpp),
  status codes and their reason phrases (http\_status.h, http\_status.cpp), header names
  (http\_headers.h, http\_headers.cpp) and responses (http\_response.h, http\_response.cpp).
  A \<open>std::map\<close> built from an initialiser list keeps the first of two entries with equal keys,
  as \<open>map_of\<close> does.
\<close>

section \<open>Methods\<close>

datatype http_method = GET | PUT | POST | DELETE | HEAD | OPTIONS | UNKNOWN

definition s_method_by_desc :: "(string \<times> http_method) list" where
  "s_method_by_desc =
     [(''GET'', GET), (''PUT'', PUT), (''POST'', POST),
      (''HEAD'', HEAD), (''DELETE'', DELETE), (''OPTIONS'', OPTIONS)]"

definition s_desc_by_method :: "(http_method \<times> string) list" where
  "s_desc_by_method =
     [(GET, ''GET''), (PUT, ''PUT''), (POST, ''POST''),
      (HEAD, ''HEAD''), (DELETE, ''DELETE''), (OPTIONS, ''OPTIONS'')]"

definition to_http_method :: "string \<Rightarrow> http_method" where
  "to_http_method desc = (case map_of s_method_by_desc (c_str desc) of None \<Rightarrow> UNKNOWN | Some m \<Rightarrow> m)"

definition to_method_desc :: "http_method \<Rightarrow> string" where
  "to_method_desc m = (case map_of s_desc_by_method m of None \<Rightarrow> ''UNKNOWN'' | Some d \<Rightarrow> d)"

text \<open>The enumeration of libevent, as far as the sources name it.\<close>

datatype evhttp_cmd_type =
    EVHTTP_REQ_GET | EVHTTP_REQ_POST | EVHTTP_REQ_HEAD | EVHTTP_REQ_PUT
  | EVHTTP_REQ_DELETE | EVHTTP_REQ_OPTIONS | EVHTTP_REQ_OTHER nat

fun to_http_method_ev :: "evhttp_cmd_type \<Rightarrow> http_method" where
  "to_http_method_ev EVHTTP_REQ_GET = GET"
| "to_http_method_ev EVHTTP_REQ_POST = POST"
| "to_http_method_ev EVHTTP_REQ_HEAD = HEAD"
| "to_http_method_ev EVHTTP_REQ_PUT = PUT"
| "to_http_method_ev EVHTTP_REQ_DELETE = DELETE"
| "to_http_method_ev EVHTTP_REQ_OPTIONS = OPTIONS"
| "to_http_method_ev _ = UNKNOWN"

definition parse_method :: "string \<Rightarrow> http_method option" where
  "parse_method s = Some (to_http_method s)"

interpretation method_name: codec to_method_desc parse_method "\<lambda>_. True"
proof unfold_locales
  show "parse_method (to_method_desc m) = Some m" for m
    by (cases m)
       (simp_all add: parse_method_def to_http_method_def to_method_desc_def s_method_by_desc_def
        s_desc_by_method_def c_str_def)
qed

lemma to_http_method_known:
  "to_http_method d \<noteq> UNKNOWN \<Longrightarrow> to_method_desc (to_http_method d) = c_str d"
  by (auto simp: to_http_method_def to_method_desc_def s_method_by_desc_def s_desc_by_method_def
      split: option.splits if_splits)

text \<open>The names of the methods and the methods correspond: the name of every method, also of
  the unknown one, reads back as that method, different methods have different names, and a
  text that reads as a known method is exactly its name, in capitals.\<close>

theorem http_method_roundtrip:
  "to_http_method (to_method_desc m) = m \<and>
   (to_method_desc m = to_method_desc m' \<longleftrightarrow> m = m') \<and>
   (to_http_method d = UNKNOWN \<or> to_method_desc (to_http_method d) = c_str d)"
  using method_name.dec_enc[of m] method_name.enc_inj[of m m'] to_http_method_known[of d]
  by (auto simp: parse_method_def)

section \<open>Status codes\<close>

datatype http_status =
    CONTINUE | SWITCHING_PROTOCOLS | HTTP_OK | CREATED | ACCEPTED
  | NON_AUTHORITATIVE_INFORMATION | NO_CONTENT | RESET_CONTENT | PARTIAL_CONTENT
  | MULTIPLE_CHOICES | MOVED_PERMANENTLY | FOUND | SEE_OTHER | NOT_MODIFIED | USE_PROXY
  | TEMPORARY_REDIRECT | BAD_REQUEST | UNAUTHORIZED | PAYMENT_REQUIRED | FORBIDDEN | NOT_FOUND
  | METHOD_NOT_ALLOWED | NOT_ACCEPTABLE | PROXY_AUTHENTICATION | REQUEST_TIMEOUT | CONFLICT | GONE
  | LENGTH_REQUIRED | PRECONDITION_FAILED | REQUEST_ENTITY_TOO_LARGE | REQUEST_URI_TOO_LONG
  | UNSUPPORTED_MEDIA_TYPE | REQUESTED_RANGE_NOT_SATISFIED | EXPECTATION_FAILED
  | INTERNAL_SERVER_ERROR | NOT_IMPLEMENTED | BAD_GATEWAY | SERVICE_UNAVAILABLE | GATEWAY_TIMEOUT
  | HTTP_VERSION_NOT_SUPPORTED

text \<open>The values of the enumerators; an object of the enumeration type is its value.\<close>

primrec status_value :: "http_status \<Rightarrow> int" where
  "status_value CONTINUE = 100"
| "status_value SWITCHING_PROTOCOLS = 101"
| "status_value HTTP_OK = 200"
| "status_value CREATED = 201"
| "status_value ACCEPTED = 202"
| "status_value NON_AUTHORITATIVE_INFORMATION = 203"
| "status_value NO_CONTENT = 204"
| "status_value RESET_CONTENT = 205"
| "status_value PARTIAL_CONTENT = 205"
| "status_value MULTIPLE_CHOICES = 300"
| "status_value MOVED_PERMANENTLY = 301"
| "status_value FOUND = 302"
| "status_value SEE_OTHER = 303"
| "status_value NOT_MODIFIED = 304"
| "status_value USE_PROXY = 305"
| "status_value TEMPORARY_REDIRECT = 307"
| "status_value BAD_REQUEST = 400"
| "status_value UNAUTHORIZED = 401"
| "status_value PAYMENT_REQUIRED = 402"
| "status_value FORBIDDEN = 403"
| "status_value NOT_FOUND = 404"
| "status_value METHOD_NOT_ALLOWED = 405"
| "status_value NOT_ACCEPTABLE = 406"
| "status_value PROXY_AUTHENTICATION = 407"
| "status_value REQUEST_TIMEOUT = 408"
| "status_value CONFLICT = 409"
| "status_value GONE = 410"
| "status_value LENGTH_REQUIRED = 411"
| "status_value PRECONDITION_FAILED = 412"
| "status_value REQUEST_ENTITY_TOO_LARGE = 413"
| "status_value REQUEST_URI_TOO_LONG = 414"
| "status_value UNSUPPORTED_MEDIA_TYPE = 415"
| "status_value REQUESTED_RANGE_NOT_SATISFIED = 416"
| "status_value EXPECTATION_FAILED = 417"
| "status_value INTERNAL_SERVER_ERROR = 500"
| "status_value NOT_IMPLEMENTED = 501"
| "status_value BAD_GATEWAY = 502"
| "status_value SERVICE_UNAVAILABLE = 503"
| "status_value GATEWAY_TIMEOUT = 504"
| "status_value HTTP_VERSION_NOT_SUPPORTED = 505"

text \<open>The entries of the initialiser of \<open>s_reason_map\<close>, in their order.\<close>

primrec reason_entry :: "http_status \<Rightarrow> string" where
  "reason_entry CONTINUE = ''Continue''"
| "reason_entry SWITCHING_PROTOCOLS = ''Switching Protocols''"
| "reason_entry HTTP_OK = ''OK''"
| "reason_entry CREATED = ''Created''"
| "reason_entry ACCEPTED = ''Accepted''"
| "reason_entry NON_AUTHORITATIVE_INFORMATION = ''Non-Authoritative Information''"
| "reason_entry NO_CONTENT = ''No Content''"
| "reason_entry RESET_CONTENT = ''Reset Content''"
| "reason_entry PARTIAL_CONTENT = ''Partial Content''"
| "reason_entry MULTIPLE_CHOICES = ''Multiple Choices''"
| "reason_entry MOVED_PERMANENTLY = ''Moved Permanently''"
| "reason_entry FOUND = ''Found''"
| "reason_entry SEE_OTHER = ''See Other''"
| "reason_entry NOT_MODIFIED = ''Not Modified''"
| "reason_entry USE_PROXY = ''Use Proxy''"
| "reason_entry TEMPORARY_REDIRECT = ''Temporary Redirect''"
| "reason_entry BAD_REQUEST = ''Bad Request''"
| "reason_entry UNAUTHORIZED = ''Unauthorized''"
| "reason_entry PAYMENT_REQUIRED = ''Payment Required''"
| "reason_entry FORBIDDEN = ''Forbidden''"
| "reason_entry NOT_FOUND = ''Not Found''"
| "reason_entry METHOD_NOT_ALLOWED = ''Method Not Allowed''"
| "reason_entry NOT_ACCEPTABLE = ''Not Acceptable''"
| "reason_entry PROXY_AUTHENTICATION = ''Proxy Authentication Required''"
| "reason_entry REQUEST_TIMEOUT = ''Request Time-out''"
| "reason_entry CONFLICT = ''Conflict''"
| "reason_entry GONE = ''Gone''"
| "reason_entry LENGTH_REQUIRED = ''Length Required''"
| "reason_entry PRECONDITION_FAILED = ''Precondition Failed''"
| "reason_entry REQUEST_ENTITY_TOO_LARGE = ''Request Entity Too Large''"
| "reason_entry REQUEST_URI_TOO_LONG = ''Request-URI Too Large''"
| "reason_entry UNSUPPORTED_MEDIA_TYPE = ''Unsupported Media Type''"
| "reason_entry REQUESTED_RANGE_NOT_SATISFIED = ''Requested range not satisfiable''"
| "reason_entry EXPECTATION_FAILED = ''Expectation Failed''"
| "reason_entry INTERNAL_SERVER_ERROR = ''Internal Server Error''"
| "reason_entry NOT_IMPLEMENTED = ''Not Implemented''"
| "reason_entry BAD_GATEWAY = ''Bad Gateway''"
| "reason_entry SERVICE_UNAVAILABLE = ''Service Unavailable''"
| "reason_entry GATEWAY_TIMEOUT = ''Gateway Time-out''"
| "reason_entry HTTP_VERSION_NOT_SUPPORTED = ''HTTP Version not supported''"

definition s_reason_keys :: "http_status list" where
  "s_reason_keys =
     [CONTINUE, SWITCHING_PROTOCOLS, HTTP_OK, CREATED,
      ACCEPTED, NON_AUTHORITATIVE_INFORMATION, NO_CONTENT, RESET_CONTENT,
      PARTIAL_CONTENT, MULTIPLE_CHOICES, MOVED_PERMANENTLY, FOUND,
      SEE_OTHER, NOT_MODIFIED, USE_PROXY, TEMPORARY_REDIRECT,
      BAD_REQUEST, UNAUTHORIZED, PAYMENT_REQUIRED, FORBIDDEN,
      NOT_FOUND, METHOD_NOT_ALLOWED, NOT_ACCEPTABLE, PROXY_AUTHENTICATION,
      REQUEST_TIMEOUT, CONFLICT, GONE, LENGTH_REQUIRED,
      PRECONDITION_FAILED, REQUEST_ENTITY_TOO_LARGE, REQUEST_URI_TOO_LONG, UNSUPPORTED_MEDIA_TYPE,
      REQUESTED_RANGE_NOT_SATISFIED, EXPECTATION_FAILED, INTERNAL_SERVER_ERROR, NOT_IMPLEMENTED,
      BAD_GATEWAY, SERVICE_UNAVAILABLE, GATEWAY_TIMEOUT, HTTP_VERSION_NOT_SUPPORTED]"

definition s_reason_map :: "(int \<times> string) list" where
  "s_reason_map = map (\<lambda>s. (status_value s, reason_entry s)) s_reason_keys"

definition default_reason :: "int \<Rightarrow> string" where
  "default_reason status = (case map_of s_reason_map status of Some r \<Rightarrow> r | None \<Rightarrow> ''No reason'')"

lemma default_reason_value:
  "default_reason (status_value s) =
     (if s = PARTIAL_CONTENT then reason_entry RESET_CONTENT else reason_entry s)"
  by (cases s)
     (simp_all add: default_reason_def s_reason_map_def s_reason_keys_def del: reason_entry.simps)

lemma default_reason_other:
  "v \<notin> range status_value \<Longrightarrow> default_reason v = ''No reason''"
proof -
  assume v: "v \<notin> range status_value"
  have "map_of s_reason_map v = None"
    using v by (auto simp: s_reason_map_def map_of_eq_None_iff image_iff)
  then show ?thesis by (simp add: default_reason_def)
qed

text \<open>Every status code but one gets the phrase its own entry of the table gives; the code
  named \<open>PARTIAL_CONTENT\<close> shares its value with \<open>RESET_CONTENT\<close>, declared before it, and so gets
  ``Reset Content'', its own entry being dead, while the code 206 of the protocol, like every
  value that is not an enumerator's, has no reason.\<close>

theorem default_reason_exact:
  "(s \<noteq> PARTIAL_CONTENT \<longrightarrow> default_reason (status_value s) = reason_entry s) \<and>
   reason_entry PARTIAL_CONTENT = ''Partial Content'' \<and>
   default_reason (status_value PARTIAL_CONTENT) = ''Reset Content'' \<and>
   default_reason 206 = ''No reason'' \<and>
   (v \<notin> range status_value \<longrightarrow> default_reason v = ''No reason'')"
proof -
  have "status_value s \<noteq> 206" for s by (cases s) simp_all
  then have "(206::int) \<notin> range status_value" by auto
  then show ?thesis
    using default_reason_value[of PARTIAL_CONTENT]
    by (simp add: default_reason_value[of s] default_reason_other)
qed

theorem default_reason_exact_witness:
  "default_reason 410 = ''Gone'' \<and> default_reason 206 = ''No reason''"
  using default_reason_exact[of GONE 206] by simp

section \<open>Header names\<close>

text \<open>The constants of \<open>HttpHeaders\<close>, each with its name in the class and its text.\<close>

definition http_headers :: "(string \<times> string) list" where
  "http_headers =
     [(''ACCEPT'', ''Accept''),
      (''ACCEPT_CHARSET'', ''Accept-Charset''),
      (''ACCEPT_ENCODING'', ''Accept-Encoding''),
      (''ACCEPT_LANGUAGE'', ''Accept-Language''),
      (''ACCEPT_RANGES'', ''Accept-Ranges''),
      (''ACCEPT_PATCH'', ''Accept-Patch''),
      (''ACCESS_CONTROL_ALLOW_CREDENTIALS'', ''Access-Control-Allow-Credentials''),
      (''ACCESS_CONTROL_ALLOW_HEADERS'', ''Access-Control-Allow-Headers''),
      (''ACCESS_CONTROL_ALLOW_METHODS'', ''Access-Control-Allow-Methods''),
      (''ACCESS_CONTROL_ALLOW_ORIGIN'', ''Access-Control-Allow-Origin''),
      (''ACCESS_CONTROL_EXPOSE_HEADERS'', ''Access-Control-Expose-Headers''),
      (''ACCESS_CONTROL_MAX_AGE'', ''Access-Control-Max-Age''),
      (''ACCESS_CONTROL_REQUEST_HEADERS'', ''Access-Control-Request-Headers''),
      (''ACCESS_CONTROL_REQUEST_METHOD'', ''Access-Control-Request-Method''),
      (''AGE'', ''Age''),
      (''ALLOW'', ''Allow''),
      (''AUTHORIZATION'', ''Authorization''),
      (''CACHE_CONTROL'', ''Cache-Control''),
      (''CONNECTION'', ''Connection''),
      (''CONTENT_BASE'', ''Content-Base''),
      (''CONTENT_ENCODING'', ''Content-Encoding''),
      (''CONTENT_LANGUAGE'', ''Content-Language''),
      (''CONTENT_LENGTH'', ''Content-Length''),
      (''CONTENT_LOCATION'', ''Content-Location''),
      (''CONTENT_TRANSFER_ENCODING'', ''Content-Transfer-Encoding''),
      (''CONTENT_MD5'', ''Content-MD5''),
      (''CONTENT_RANGE'', ''Content-Range''),
      (''CONTENT_TYPE'', ''Content-Type''),
      (''COOKIE'', ''Cookie''),
      (''DATE'', ''Date''),
      (''ETAG'', ''ETag''),
      (''EXPECT'', ''Expect''),
      (''EXPIRES'', ''Expires''),
      (''FROM'', ''From''),
      (''HOST'', ''Host''),
      (''IF_MATCH'', ''If-Match''),
      (''IF_MODIFIED_SINCE'', ''If-Modified-Since''),
      (''IF_NONE_MATCH'', ''If-None-Match''),
      (''IF_RANGE'', ''If-Range''),
      (''IF_UNMODIFIED_SINCE'', ''If-Unmodified-Since''),
      (''LAST_MODIFIED'', ''Last-Modified''),
      (''LOCATION'', ''Location''),
      (''MAX_FORWARDS'', ''Max-Forwards''),
      (''ORIGIN'', ''Origin''),
      (''PRAGMA'', ''Pragma''),
      (''PROXY_AUTHENTICATE'', ''Proxy-Authenticate''),
      (''PROXY_AUTHORIZATION'', ''Proxy-Authorization''),
      (''RANGE'', ''Range''),
      (''REFERER'', ''Referer''),
      (''RETRY_AFTER'', ''Retry-After''),
      (''SEC_WEBSOCKET_KEY1'', ''Sec-WebSocket-Key1''),
      (''SEC_WEBSOCKET_KEY2'', ''Sec-WebSocket-Key2''),
      (''SEC_WEBSOCKET_LOCATION'', ''Sec-WebSocket-Location''),
      (''SEC_WEBSOCKET_ORIGIN'', ''Sec-WebSocket-Origin''),
      (''SEC_WEBSOCKET_PROTOCOL'', ''Sec-WebSocket-Protocol''),
      (''SEC_WEBSOCKET_VERSION'', ''Sec-WebSocket-Version''),
      (''SEC_WEBSOCKET_KEY'', ''Sec-WebSocket-Key''),
      (''SEC_WEBSOCKET_ACCEPT'', ''Sec-WebSocket-Accept''),
      (''SERVER'', ''Server''),
      (''SET_COOKIE'', ''Set-Cookie''),
      (''SET_COOKIE2'', ''Set-Cookie2''),
      (''TE'', ''TE''),
      (''TRAILER'', ''Trailer''),
      (''TRANSFER_ENCODING'', ''Transfer-Encoding''),
      (''UPGRADE'', ''Upgrade''),
      (''USER_AGENT'', ''User-Agent''),
      (''VARY'', ''Vary''),
      (''VIA'', ''Via''),
      (''WARNING'', ''Warning''),
      (''WEBSOCKET_LOCATION'', ''WebSocket-Location''),
      (''WEBSOCKET_ORIGIN'', ''WebSocket-Origin''),
      (''WEBSOCKET_PROTOCOL'', ''WebSocket-Protocol''),
      (''WWW_AUTHENTICATE'', ''WWW-Authenticate'')]"

definition JsonType :: string where
  "JsonType = ''application/json''"

definition header_text :: "string \<Rightarrow> string option" where
  "header_text n = map_of http_headers n"

text \<open>
  The naming scheme: the constant for a header is its text in capitals, with an underscore for
  a hyphen. Field names of the protocol are tokens: letters, digits and hyphens here.
\<close>

definition upper :: "char \<Rightarrow> char" where
  "upper c = (case map_of (zip ''abcdefghijklmnopqrstuvwxyz'' ''ABCDEFGHIJKLMNOPQRSTUVWXYZ'') c of
                None \<Rightarrow> c | Some u \<Rightarrow> u)"

definition constant_name :: "string \<Rightarrow> string" where
  "constant_name h = map (\<lambda>c. if c = CHR ''-'' then CHR ''_'' else upper c) h"

definition is_token_char :: "char \<Rightarrow> bool" where
  "is_token_char c =
     (let n = of_char c :: nat
      in c = CHR ''-'' \<or> (48 \<le> n \<and> n \<le> 57) \<or> (65 \<le> n \<and> n \<le> 90) \<or> (97 \<le> n \<and> n \<le> 122))"

lemma upper_chars:
    "upper (CHR ''-'') = CHR ''-''" "upper (CHR ''1'') = CHR ''1''" "upper (CHR ''2'') = CHR ''2''"
    "upper (CHR ''5'') = CHR ''5''" "upper (CHR ''A'') = CHR ''A''" "upper (CHR ''B'') = CHR ''B''"
    "upper (CHR ''C'') = CHR ''C''" "upper (CHR ''D'') = CHR ''D''" "upper (CHR ''E'') = CHR ''E''"
    "upper (CHR ''F'') = CHR ''F''" "upper (CHR ''H'') = CHR ''H''" "upper (CHR ''I'') = CHR ''I''"
    "upper (CHR ''K'') = CHR ''K''" "upper (CHR ''L'') = CHR ''L''" "upper (CHR ''M'') = CHR ''M''"
    "upper (CHR ''N'') = CHR ''N''" "upper (CHR ''O'') = CHR ''O''" "upper (CHR ''P'') = CHR ''P''"
    "upper (CHR ''R'') = CHR ''R''" "upper (CHR ''S'') = CHR ''S''" "upper (CHR ''T'') = CHR ''T''"
    "upper (CHR ''U'') = CHR ''U''" "upper (CHR ''V'') = CHR ''V''" "upper (CHR ''W'') = CHR ''W''"
    "upper (CHR ''a'') = CHR ''A''" "upper (CHR ''b'') = CHR ''B''" "upper (CHR ''c'') = CHR ''C''"
    "upper (CHR ''d'') = CHR ''D''" "upper (CHR ''e'') = CHR ''E''" "upper (CHR ''f'') = CHR ''F''"
    "upper (CHR ''g'') = CHR ''G''" "upper (CHR ''h'') = CHR ''H''" "upper (CHR ''i'') = CHR ''I''"
    "upper (CHR ''k'') = CHR ''K''" "upper (CHR ''l'') = CHR ''L''" "upper (CHR ''m'') = CHR ''M''"
    "upper (CHR ''n'') = CHR ''N''" "upper (CHR ''o'') = CHR ''O''" "upper (CHR ''p'') = CHR ''P''"
    "upper (CHR ''q'') = CHR ''Q''" "upper (CHR ''r'') = CHR ''R''" "upper (CHR ''s'') = CHR ''S''"
    "upper (CHR ''t'') = CHR ''T''" "upper (CHR ''u'') = CHR ''U''" "upper (CHR ''v'') = CHR ''V''"
    "upper (CHR ''w'') = CHR ''W''" "upper (CHR ''x'') = CHR ''X''" "upper (CHR ''y'') = CHR ''Y''"
    "upper (CHR ''z'') = CHR ''Z''"
  by (simp_all add: upper_def)

lemma token_chars:
    "is_token_char (CHR ''-'')" "is_token_char (CHR ''1'')" "is_token_char (CHR ''2'')"
    "is_token_char (CHR ''5'')" "is_token_char (CHR ''A'')" "is_token_char (CHR ''B'')"
    "is_token_char (CHR ''C'')" "is_token_char (CHR ''D'')" "is_token_char (CHR ''E'')"
    "is_token_char (CHR ''F'')" "is_token_char (CHR ''H'')" "is_token_char (CHR ''I'')"
    "is_token_char (CHR ''K'')" "is_token_char (CHR ''L'')" "is_token_char (CHR ''M'')"
    "is_token_char (CHR ''N'')" "is_token_char (CHR ''O'')" "is_token_char (CHR ''P'')"
    "is_token_char (CHR ''R'')" "is_token_char (CHR ''S'')" "is_token_char (CHR ''T'')"
    "is_token_char (CHR ''U'')" "is_token_char (CHR ''V'')" "is_token_char (CHR ''W'')"
    "is_token_char (CHR ''a'')" "is_token_char (CHR ''b'')" "is_token_char (CHR ''c'')"
    "is_token_char (CHR ''d'')" "is_token_char (CHR ''e'')" "is_token_char (CHR ''f'')"
    "is_token_char (CHR ''g'')" "is_token_char (CHR ''h'')" "is_token_char (CHR ''i'')"
    "is_token_char (CHR ''k'')" "is_token_char (CHR ''l'')" "is_token_char (CHR ''m'')"
    "is_token_char (CHR ''n'')" "is_token_char (CHR ''o'')" "is_token_char (CHR ''p'')"
    "is_token_char (CHR ''q'')" "is_token_char (CHR ''r'')" "is_token_char (CHR ''s'')"
    "is_token_char (CHR ''t'')" "is_token_char (CHR ''u'')" "is_token_char (CHR ''v'')"
    "is_token_char (CHR ''w'')" "is_token_char (CHR ''x'')" "is_token_char (CHR ''y'')"
    "is_token_char (CHR ''z'')"
  by (simp_all add: is_token_char_def)

lemma http_headers_named: "list_all (\<lambda>(n, h). n = constant_name h) http_headers"
  by (simp add: http_headers_def constant_name_def upper_chars)

lemma http_headers_tokens: "list_all (\<lambda>(n, h). h \<noteq> [] \<and> list_all is_token_char h) http_headers"
  by (simp add: http_headers_def token_chars)

lemma http_headers_distinct: "distinct (map fst http_headers)"
  by (simp add: http_headers_def)

text \<open>The header table is consistent: every constant holds the header its own name says (in
  capitals, underscores for hyphens), looking a constant up gives exactly one text, every text
  is a non-empty token, and no two headers are the same up to the case of their letters.\<close>

theorem http_headers_consistent:
  "(header_text n = Some h \<longleftrightarrow> (n, h) \<in> set http_headers) \<and>
   (header_text n = Some h \<longrightarrow> n = constant_name h \<and> h \<noteq> [] \<and> (\<forall>c \<in> set h. is_token_char c)) \<and>
   (header_text n = Some h \<longrightarrow> header_text m = Some h' \<longrightarrow> map upper h = map upper h' \<longrightarrow> n = m)"
proof -
  have look: "header_text n = Some h \<longleftrightarrow> (n, h) \<in> set http_headers" for n h
    using http_headers_distinct by (simp add: header_text_def map_of_eq_Some_iff)
  have name: "n = constant_name h \<and> h \<noteq> [] \<and> (\<forall>c \<in> set h. is_token_char c)"
    if "header_text n = Some h" for n h
    using that[unfolded look] http_headers_named http_headers_tokens
    by (auto simp: list_all_iff)
  have up: "constant_name h = map (\<lambda>c. if c = CHR ''-'' then CHR ''_'' else c) (map upper h)" for h
  proof -
    have "upper c = CHR ''-'' \<longleftrightarrow> c = CHR ''-''" for c
      by (auto simp: upper_def split: option.splits if_splits)
    then show ?thesis by (simp add: constant_name_def)
  qed
  show ?thesis
    using look[of n h] name[of n h] name[of m h'] up by metis
qed

theorem http_headers_consistent_witness:
  "header_text ''CONTENT_TYPE'' = Some ''Content-Type'' \<and>
   ''CONTENT_TYPE'' = constant_name ''Content-Type''"
proof -
  have "header_text ''CONTENT_TYPE'' = Some ''Content-Type''" by code_simp
  with http_headers_consistent[of "''CONTENT_TYPE''" "''Content-Type''"] show ?thesis by blast
qed

section \<open>Responses\<close>

text \<open>
  A response borrows its content through a pointer, here the address of a string of the caller
  or \<open>None\<close> for the null pointer; the custom headers map a name to its values in order.
\<close>

record http_response =
  resp_status :: int
  resp_content_type :: string
  resp_content :: "nat option"
  custom_headers :: "string \<Rightarrow> string list option"

definition s_text_content_type :: string where
  "s_text_content_type = ''text/plain; charset=UTF-8''"

definition HttpResponse_status :: "int \<Rightarrow> http_response" where
  "HttpResponse_status status =
     \<lparr>resp_status = status, resp_content_type = s_text_content_type, resp_content = None,
      custom_headers = (\<lambda>_. None)\<rparr>"

definition HttpResponse_content :: "int \<Rightarrow> nat option \<Rightarrow> http_response" where
  "HttpResponse_content status content =
     \<lparr>resp_status = status, resp_content_type = s_text_content_type, resp_content = content,
      custom_headers = (\<lambda>_. None)\<rparr>"

definition HttpResponse_typed :: "int \<Rightarrow> string \<Rightarrow> nat option \<Rightarrow> http_response" where
  "HttpResponse_typed status ct content =
     \<lparr>resp_status = status, resp_content_type = ct, resp_content = content,
      custom_headers = (\<lambda>_. None)\<rparr>"

definition add_header :: "string \<Rightarrow> string \<Rightarrow> http_response \<Rightarrow> http_response" where
  "add_header key value r = r\<lparr>custom_headers :=
     (custom_headers r)(key := Some ((case custom_headers r key of None \<Rightarrow> [] | Some vs \<Rightarrow> vs) @ [value]))\<rparr>"

definition header_values :: "http_response \<Rightarrow> string \<Rightarrow> string list" where
  "header_values r key = (case custom_headers r key of None \<Rightarrow> [] | Some vs \<Rightarrow> vs)"

lemma header_values_add:
  "header_values (add_header k v r) key = header_values r key @ (if key = k then [v] else [])"
  by (simp add: header_values_def add_header_def)

lemma header_values_fold:
  "header_values (fold (\<lambda>(k, v). add_header k v) kvs r) key
     = header_values r key @ map snd (filter (\<lambda>(k, _). k = key) kvs)"
  by (induction kvs arbitrary: r) (auto simp: header_values_add)

lemma add_header_frame [simp]:
  "resp_status (add_header k v r) = resp_status r"
  "resp_content_type (add_header k v r) = resp_content_type r"
  "resp_content (add_header k v r) = resp_content r"
  by (simp_all add: add_header_def)

text \<open>The headers added to a response, in whatever order their names are interleaved, are
  kept per name in the order they were added, none lost; names that were not added have no
  values, and the status, the content type and the content stay what the constructor set.\<close>

theorem add_headers_in_order:
  "let r = fold (\<lambda>(k, v). add_header k v) kvs (HttpResponse_typed status ct c)
   in header_values r key = map snd (filter (\<lambda>(k, _). k = key) kvs) \<and>
      (custom_headers r key = None \<longleftrightarrow> key \<notin> fst ` set kvs) \<and>
      resp_status r = status \<and> resp_content_type r = ct \<and> resp_content r = c"
proof -
  have dom: "custom_headers (fold (\<lambda>(k, v). add_header k v) kvs r) key = None
      \<longleftrightarrow> custom_headers r key = None \<and> key \<notin> fst ` set kvs" for r
    by (induction kvs arbitrary: r) (auto simp: add_header_def split: if_splits)
  have frame: "resp_status (fold (\<lambda>(k, v). add_header k v) kvs r) = resp_status r \<and>
      resp_content_type (fold (\<lambda>(k, v). add_header k v) kvs r) = resp_content_type r \<and>
      resp_content (fold (\<lambda>(k, v). add_header k v) kvs r) = resp_content r" for r
    by (induction kvs arbitrary: r) (auto split: prod.splits)
  show ?thesis
    unfolding Let_def using frame[of "HttpResponse_typed status ct c"]
    by (simp add: header_values_fold dom) (simp add: HttpResponse_typed_def header_values_def)
qed

end
