(* ===== verification/Http_Client.thy ===== *)
theory Http_Client
  imports Complex_Main Status Filesystem Http_Proto
begin

text \<open>
  http/http\_client.h and http/http\_client.cpp. libcurl is a parameter: the record \<open>curl_lib\<close>
  gives whether a handle can be made, the codes the option calls return, the texts of the
  transfer codes and the transfer itself. A handle is known to the program only through the
  options it set on it, so the model keeps those, the latest first. What the client relies on in
  a transfer, that the data arrives at the write callback piece by piece and that the transfer
  stops at the first piece the callback does not take whole, is the hypothesis
  \<open>curl_delivers\<close>; which pieces arrive and how the transfer ends depends on the options alone.
\<close>

section \<open>libcurl\<close>

datatype curl_option =
    CURLOPT_ERRORBUFFER | CURLOPT_NOSIGNAL | CURLOPT_FAILONERROR | CURLOPT_FOLLOWLOCATION
  | CURLOPT_MAXREDIRS | CURLOPT_WRITEFUNCTION | CURLOPT_WRITEDATA | CURLOPT_URL | CURLOPT_HTTPGET
  | CURLOPT_UPLOAD | CURLOPT_POST | CURLOPT_CUSTOMREQUEST | CURLOPT_NOBODY | CURLOPT_HTTPAUTH
  | CURLOPT_USERNAME | CURLOPT_PASSWORD | CURLOPT_HTTPHEADER | CURLOPT_POSTFIELDSIZE
  | CURLOPT_COPYPOSTFIELDS | CURLOPT_UNRESTRICTED_AUTH | CURLOPT_TIMEOUT_MS
  | CURLOPT_SSL_VERIFYPEER | CURLOPT_SSL_VERIFYHOST | CURLOPT_LOW_SPEED_LIMIT
  | CURLOPT_LOW_SPEED_TIME

datatype curl_value =
    VLong int | VStr string | VList "string list" | VAuthBasic | VErrorBuf | VWriteCallback | VThis

type_synonym curl_handle = "(curl_option \<times> curl_value) list"

definition CURLE_OK :: nat where "CURLE_OK = 0"

text \<open>
  The write callback takes a piece and the state it works on, and returns how many bytes it
  took care of, as a \<open>size_t\<close>.
\<close>

type_synonym 's write_callback = "string \<Rightarrow> 's \<Rightarrow> 64 word \<times> 's"

record 's curl_lib =
  easy_init_ok :: bool
  setopt_code :: "curl_option \<Rightarrow> curl_value \<Rightarrow> nat"
  easy_perform :: "curl_handle option \<Rightarrow> 's write_callback \<Rightarrow> 's \<Rightarrow> nat \<times> 's"
  easy_errbuf :: "curl_handle option \<Rightarrow> nat \<Rightarrow> string"
  easy_strerror :: "nat \<Rightarrow> string"

fun deliver :: "'s write_callback \<Rightarrow> string list \<Rightarrow> nat \<Rightarrow> 's \<Rightarrow> nat \<times> 's" where
  "deliver cb [] code s = (code, s)"
| "deliver cb (x # xs) code s =
     (case cb x s of (n, s') \<Rightarrow>
        if n = of_nat (length x) then deliver cb xs code s' else (23, s'))"

text \<open>\<open>CURL_MAX_WRITE_SIZE\<close> bounds the pieces.\<close>

definition curl_delivers :: "'s curl_lib \<Rightarrow> (curl_handle option \<Rightarrow> string list \<times> nat) \<Rightarrow> bool" where
  "curl_delivers lib remote \<longleftrightarrow>
     (\<forall>h cb s. easy_perform lib h cb s = deliver cb (fst (remote h)) (snd (remote h)) s) \<and>
     (\<forall>h. \<forall>x \<in> set (fst (remote h)). length x \<le> 16384)"

text \<open>A library that serves a fixed list of pieces, to instantiate the parameter.\<close>

definition serving :: "string list \<Rightarrow> nat \<Rightarrow> 's curl_lib" where
  "serving pieces code =
     \<lparr>easy_init_ok = True, setopt_code = (\<lambda>_ _. 0),
      easy_perform = (\<lambda>h cb s. deliver cb pieces code s),
      easy_errbuf = (\<lambda>_ _. []), easy_strerror = (\<lambda>_. ''transfer failed'')\<rparr>"

lemma serving_delivers:
  "\<forall>x \<in> set pieces. length x \<le> 16384 \<Longrightarrow> curl_delivers (serving pieces code) (\<lambda>_. (pieces, code))"
  by (simp add: curl_delivers_def serving_def)

section \<open>The client\<close>

record http_client =
  curl :: "curl_handle option"
  error_buf :: string
  header_list :: "string list option"

definition HttpClient :: http_client where
  "HttpClient = \<lparr>curl = None, error_buf = [], header_list = None\<rparr>"

definition HttpClient_destroy :: "http_client \<Rightarrow> http_client" where
  "HttpClient_destroy c =
     (let c1 = (if curl c \<noteq> None then c\<lparr>curl := None\<rparr> else c)
      in if header_list c1 \<noteq> None then c1\<lparr>header_list := None\<rparr> else c1)"

text \<open>
  One option call: its code, and the option recorded when the call succeeds. On the null handle
  it fails without effect.
\<close>

definition easy_setopt :: "'s curl_lib \<Rightarrow> curl_option \<Rightarrow> curl_value \<Rightarrow> http_client \<Rightarrow> nat \<times> http_client" where
  "easy_setopt lib opt v c =
     (case curl c of
        None \<Rightarrow> (43, c)
      | Some h \<Rightarrow>
          (let code = setopt_code lib opt v
           in (code, if code = CURLE_OK then c\<lparr>curl := Some ((opt, v) # h)\<rparr> else c)))"

definition option_of :: "http_client \<Rightarrow> curl_option \<Rightarrow> curl_value option" where
  "option_of c opt = (case curl c of None \<Rightarrow> None | Some h \<Rightarrow> map_of h opt)"

text \<open>An option call whose code the sources ignore.\<close>

definition set_option :: "'s curl_lib \<Rightarrow> curl_option \<Rightarrow> curl_value \<Rightarrow> http_client \<Rightarrow> http_client" where
  "set_option lib opt v c = snd (easy_setopt lib opt v c)"

text \<open>
  The checked option calls of \<open>init\<close> in their order, each with the message of its error return.
\<close>

fun setopts_checked ::
    "'s curl_lib \<Rightarrow> (curl_option \<times> curl_value \<times> string) list \<Rightarrow> http_client \<Rightarrow> status \<times> http_client" where
  "setopts_checked lib [] c = (OK, c)"
| "setopts_checked lib ((opt, v, msg) # rest) c =
     (case easy_setopt lib opt v c of (code, c') \<Rightarrow>
        if code \<noteq> CURLE_OK then (internal_error msg, c') else setopts_checked lib rest c')"

definition init_opts :: "string \<Rightarrow> (curl_option \<times> curl_value \<times> string) list" where
  "init_opts url =
     [(CURLOPT_ERRORBUFFER, VErrorBuf, ''fail to set error buffer''),
      (CURLOPT_NOSIGNAL, VLong 1, ''fail to set CURLOPT_NOSIGNAL''),
      (CURLOPT_FAILONERROR, VLong 1, ''fail to set CURLOPT_FAILONERROR''),
      (CURLOPT_FAILONERROR, VLong 1, ''fail to set CURLOPT_FOLLOWLOCATION''),
      (CURLOPT_MAXREDIRS, VLong 20, ''fail to set CURLOPT_MAXREDIRS''),
      (CURLOPT_WRITEFUNCTION, VWriteCallback, ''fail to set CURLOPT_WRITEFUNCTION''),
      (CURLOPT_WRITEDATA, VThis, ''fail to set CURLOPT_WRITEDATA''),
      (CURLOPT_URL, VStr (c_str url), ''fail to set CURLOPT_RUL'')]"

definition init :: "'s curl_lib \<Rightarrow> string \<Rightarrow> http_client \<Rightarrow> status \<times> http_client" where
  "init lib url c =
     (if curl c = None \<and> \<not> easy_init_ok lib then (internal_error ''fail to initialize curl'', c)
      else
        let c1 = c\<lparr>curl := Some []\<rparr>;
            c2 = (if header_list c1 \<noteq> None then c1\<lparr>header_list := None\<rparr> else c1);
            c3 = c2\<lparr>error_buf := []\<rparr>
        in setopts_checked lib (init_opts url) c3)"

fun set_method :: "'s curl_lib \<Rightarrow> http_method \<Rightarrow> http_client \<Rightarrow> http_client" where
  "set_method lib GET c = set_option lib CURLOPT_HTTPGET (VLong 1) c"
| "set_method lib PUT c = set_option lib CURLOPT_UPLOAD (VLong 1) c"
| "set_method lib POST c = set_option lib CURLOPT_POST (VLong 1) c"
| "set_method lib DELETE c = set_option lib CURLOPT_CUSTOMREQUEST (VStr ''DELETE'') c"
| "set_method lib HEAD c = set_option lib CURLOPT_NOBODY (VLong 1) c"
| "set_method lib OPTIONS c = set_option lib CURLOPT_CUSTOMREQUEST (VStr ''OPTIONS'') c"
| "set_method lib UNKNOWN c = c"

definition set_basic_auth :: "'s curl_lib \<Rightarrow> string \<Rightarrow> string \<Rightarrow> http_client \<Rightarrow> http_client" where
  "set_basic_auth lib user passwd c =
     set_option lib CURLOPT_PASSWORD (VStr (c_str passwd))
       (set_option lib CURLOPT_USERNAME (VStr (c_str user))
         (set_option lib CURLOPT_HTTPAUTH VAuthBasic c))"

text \<open>\<open>curl_slist_append\<close> copies the text to the end of the list.\<close>

definition slist_append :: "string list option \<Rightarrow> string \<Rightarrow> string list option" where
  "slist_append l s = Some ((case l of None \<Rightarrow> [] | Some xs \<Rightarrow> xs) @ [c_str s])"

definition send_header_list :: "'s curl_lib \<Rightarrow> http_client \<Rightarrow> http_client" where
  "send_header_list lib c =
     set_option lib CURLOPT_HTTPHEADER (VList (case header_list c of None \<Rightarrow> [] | Some xs \<Rightarrow> xs)) c"

definition set_content_type :: "'s curl_lib \<Rightarrow> string \<Rightarrow> http_client \<Rightarrow> http_client" where
  "set_content_type lib content_type c =
     send_header_list lib
       (c\<lparr>header_list := slist_append (header_list c) (''Content-Type: '' @ content_type)\<rparr>)"

definition set_http_header :: "'s curl_lib \<Rightarrow> string list \<Rightarrow> http_client \<Rightarrow> http_client" where
  "set_http_header lib hs c =
     send_header_list lib (foldl (\<lambda>c h. c\<lparr>header_list := slist_append (header_list c) h\<rparr>) c hs)"

definition set_payload :: "'s curl_lib \<Rightarrow> string \<Rightarrow> http_client \<Rightarrow> http_client" where
  "set_payload lib post_body c =
     set_option lib CURLOPT_COPYPOSTFIELDS (VStr post_body)
       (set_option lib CURLOPT_POSTFIELDSIZE (VLong (int (length post_body))) c)"

definition set_unrestricted_auth :: "'s curl_lib \<Rightarrow> int \<Rightarrow> http_client \<Rightarrow> http_client" where
  "set_unrestricted_auth lib gohead c = set_option lib CURLOPT_UNRESTRICTED_AUTH (VLong gohead) c"

definition set_timeout_ms :: "'s curl_lib \<Rightarrow> int \<Rightarrow> http_client \<Rightarrow> http_client" where
  "set_timeout_ms lib timeout c = set_option lib CURLOPT_TIMEOUT_MS (VLong timeout) c"

definition trust_all_ssl :: "'s curl_lib \<Rightarrow> http_client \<Rightarrow> http_client" where
  "trust_all_ssl lib c =
     set_option lib CURLOPT_SSL_VERIFYHOST (VLong 0) (set_option lib CURLOPT_SSL_VERIFYPEER (VLong 0) c)"

section \<open>Transfers\<close>

text \<open>A \<open>std::function\<close>, empty or holding a function that says whether to go on.\<close>

type_synonym 's http_callback = "(string \<Rightarrow> 's \<Rightarrow> bool \<times> 's) option"

text \<open>
  The pointer \<open>_callback\<close> is set by \<open>execute\<close> for the time of the transfer; the function takes
  what it points to. A refusal is returned as \<open>-1\<close>, the largest \<open>size_t\<close>.
\<close>

definition on_response_data :: "'s http_callback \<Rightarrow> 's write_callback" where
  "on_response_data cb data s =
     (case cb of
        Some f \<Rightarrow> (case f data s of (is_continue, s') \<Rightarrow>
           if \<not> is_continue then (-1, s') else (of_nat (length data), s'))
      | None \<Rightarrow> (of_nat (length data), s))"

definition to_errmsg :: "'s curl_lib \<Rightarrow> http_client \<Rightarrow> nat \<Rightarrow> string" where
  "to_errmsg lib c code = (if error_buf c = [] then easy_strerror lib code else error_buf c)"

text \<open>libcurl writes its message into the client's buffer only when the buffer was given to the
  handle; without that option the buffer keeps what it held.\<close>

definition fill_error_buf :: "'s curl_lib \<Rightarrow> nat \<Rightarrow> http_client \<Rightarrow> http_client" where
  "fill_error_buf lib code c =
     (if option_of c CURLOPT_ERRORBUFFER = Some VErrorBuf
      then c\<lparr>error_buf := easy_errbuf lib (curl c) code\<rparr> else c)"

definition execute :: "'s curl_lib \<Rightarrow> 's http_callback \<Rightarrow> http_client \<Rightarrow> 's \<Rightarrow> status \<times> http_client \<times> 's" where
  "execute lib cb c s =
     (case easy_perform lib (curl c) (on_response_data cb) s of (code, s') \<Rightarrow>
        let c' = fill_error_buf lib code c
        in (if code \<noteq> CURLE_OK then internal_error (to_errmsg lib c' code) else OK, c', s'))"

text \<open>Collecting the response in a string.\<close>

definition append_cb :: "string \<Rightarrow> string \<Rightarrow> bool \<times> string" where
  "append_cb data response = (True, response @ data)"

definition execute_string :: "string curl_lib \<Rightarrow> http_client \<Rightarrow> string \<Rightarrow> status \<times> http_client \<times> string" where
  "execute_string lib c response = execute lib (Some append_cb) c response"

definition execute_post_request ::
    "string curl_lib \<Rightarrow> string \<Rightarrow> http_client \<Rightarrow> string \<Rightarrow> status \<times> http_client \<times> string" where
  "execute_post_request lib payload c response =
     execute_string lib (set_payload lib payload (set_method lib POST c)) response"

definition execute_delete_request ::
    "string curl_lib \<Rightarrow> string \<Rightarrow> http_client \<Rightarrow> string \<Rightarrow> status \<times> http_client \<times> string" where
  "execute_delete_request lib payload c response =
     execute_string lib (set_payload lib payload (set_method lib DELETE c)) response"

definition head :: "'s curl_lib \<Rightarrow> http_client \<Rightarrow> 's \<Rightarrow> status \<times> http_client \<times> 's" where
  "head lib c s = execute lib None (set_method lib HEAD c) s"

text \<open>Downloading to a local file; the code of the transfer is not looked at.\<close>

definition write_cb :: "os_env \<Rightarrow> string \<Rightarrow> string \<Rightarrow> string \<Rightarrow> status \<times> fs \<Rightarrow> bool \<times> (status \<times> fs)" where
  "write_cb env path msg data sd =
     (case fwrite env path data (snd sd) of (res, d') \<Rightarrow>
        if res \<noteq> 1 then (False, (internal_error msg, d')) else (True, (fst sd, d')))"

definition download_opts :: "'s curl_lib \<Rightarrow> http_client \<Rightarrow> http_client" where
  "download_opts lib c =
     set_option lib CURLOPT_LOW_SPEED_TIME (VLong (50000 * 1024))
       (set_option lib CURLOPT_LOW_SPEED_TIME (VLong 300)
         (set_option lib CURLOPT_LOW_SPEED_LIMIT (VLong (50 * 1024))
           (set_method lib GET c)))"

definition client_download ::
    "(status \<times> fs) curl_lib \<Rightarrow> os_env \<Rightarrow> string \<Rightarrow> http_client \<Rightarrow> fs \<Rightarrow> status \<times> http_client \<times> fs" where
  "client_download lib env local_path c d =
     (let c1 = download_opts lib c
      in case fopen_w env local_path d of
           (False, d1) \<Rightarrow> (internal_error ''open file failed'', c1, d1)
         | (True, d1) \<Rightarrow>
             (case execute lib (Some (write_cb env local_path ''fail to write data when download'')) c1 (OK, d1) of
                (_, c2, (status, d2)) \<Rightarrow> (status, c2, d2)))"

section \<open>What the transfer says about itself\<close>

text \<open>
  \<open>curl_easy_getinfo\<close> is a parameter, one function for each kind of information: its code, and
  what it stored at the address it was given, if it stored anything. A content length is a
  \<open>double\<close> there, which the return statement turns into an \<open>int64_t\<close> by cutting the fraction off;
  outside the range of an \<open>int64_t\<close> that is undefined. The status is read into a variable that is
  not initialised, so it is indeterminate when the call stores nothing.
\<close>

definition get_response_content_type ::
    "(curl_handle option \<Rightarrow> nat \<times> string option) \<Rightarrow> http_client \<Rightarrow> string" where
  "get_response_content_type getinfo c =
     (case getinfo (curl c) of (code, ct) \<Rightarrow>
        case ct of Some s \<Rightarrow> if code = CURLE_OK then s else [] | None \<Rightarrow> [])"

definition get_content_length :: "(curl_handle option \<Rightarrow> nat \<times> rat option) \<Rightarrow> http_client \<Rightarrow> int option" where
  "get_content_length getinfo c =
     (let cl = (case snd (getinfo (curl c)) of Some r \<Rightarrow> r | None \<Rightarrow> 0);
          n = (if cl < 0 then \<lceil>cl\<rceil> else \<lfloor>cl\<rfloor>)
      in if - (2 ^ 63) \<le> n \<and> n < 2 ^ 63 then Some n else None)"

definition get_http_status :: "(curl_handle option \<Rightarrow> nat \<times> int option) \<Rightarrow> http_client \<Rightarrow> int option" where
  "get_http_status getinfo c = snd (getinfo (curl c))"

text \<open>A length libcurl does not know is \<open>-1\<close>, and stays so; a whole length is exact.\<close>

lemma get_content_length_int:
  "snd (getinfo (curl c)) = Some (of_int n) \<Longrightarrow> - (2 ^ 63) \<le> n \<Longrightarrow> n < 2 ^ 63 \<Longrightarrow>
   get_content_length getinfo c = Some n"
  by (simp add: get_content_length_def Let_def)

section \<open>Retrying\<close>

text \<open>
  The loop of \<open>execute_with_retry\<close>: \<open>n\<close> attempts are left, each with a fresh client, and a
  sleep after each one that fails. The state is that of the callback, and the sleeps done.
\<close>

fun retry_loop ::
    "nat \<Rightarrow> int \<Rightarrow> (http_client \<Rightarrow> 'w \<Rightarrow> status \<times> http_client \<times> 'w) \<Rightarrow> status \<Rightarrow> 'w \<times> int list
       \<Rightarrow> status \<times> ('w \<times> int list)" where
  "retry_loop 0 sleep_time callback status ws = (status, ws)"
| "retry_loop (Suc n) sleep_time callback status ws =
     (case callback HttpClient (fst ws) of (status', _, w') \<Rightarrow>
        if ok status' then (status', (w', snd ws))
        else retry_loop n sleep_time callback status' (w', snd ws @ [sleep_time]))"

definition execute_with_retry ::
    "int \<Rightarrow> int \<Rightarrow> (http_client \<Rightarrow> 'w \<Rightarrow> status \<times> http_client \<times> 'w) \<Rightarrow> 'w \<Rightarrow> status \<times> ('w \<times> int list)" where
  "execute_with_retry retry_times sleep_time callback w =
     retry_loop (nat retry_times) sleep_time callback OK (w, [])"

section \<open>Sinks\<close>

text \<open>
  The contract of a callback that stores what it is given: taking a piece adds it at the end of
  what was stored, refusing one leaves the error mark set. The transfer's client reads off it
  what a whole transfer leaves behind.
\<close>

locale sink =
  fixes take_piece :: "string \<Rightarrow> 's \<Rightarrow> bool \<times> 's"
    and failed :: "'s \<Rightarrow> bool" and got :: "'s \<Rightarrow> string" and ready :: "'s \<Rightarrow> bool"
  assumes taken: "ready s \<Longrightarrow> take_piece x s = (True, s') \<Longrightarrow>
      ready s' \<and> got s' = got s @ x \<and> failed s' = failed s"
    and refused: "ready s \<Longrightarrow> take_piece x s = (False, s') \<Longrightarrow> ready s' \<and> failed s'"
begin

lemma on_response_cases:
  assumes "length x \<le> 16384" "ready s"
  shows "(\<exists>s'. take_piece x s = (True, s') \<and> on_response_data (Some take_piece) x s = (of_nat (length x), s')
             \<and> ready s' \<and> got s' = got s @ x \<and> failed s' = failed s) \<or>
         (\<exists>s' n. take_piece x s = (False, s') \<and> on_response_data (Some take_piece) x s = (n, s')
             \<and> n \<noteq> of_nat (length x) \<and> ready s' \<and> failed s')"
proof -
  obtain b s' where r: "take_piece x s = (b, s')" by (cases "take_piece x s")
  have "(-1 :: 64 word) \<noteq> of_nat (length x)"
  proof
    assume "(-1 :: 64 word) = of_nat (length x)"
    then have "unat (-1 :: 64 word) = length x mod 2 ^ 64" by (simp add: unat_of_nat)
    with assms(1) show False by (simp add: unsigned_minus_1_eq_mask mask_eq_exp_minus_1)
  qed
  with r assms(2) taken[OF assms(2)] refused[OF assms(2)] show ?thesis
    by (cases b) (auto simp: on_response_data_def)
qed

lemma transfer_stored:
  assumes "\<forall>x \<in> set xs. length x \<le> 16384" "ready s"
    and "deliver (on_response_data (Some take_piece)) xs code s = (c, s')"
  shows "ready s'"
    and "failed s \<Longrightarrow> failed s'"
    and "\<not> failed s' \<Longrightarrow> c = code \<and> got s' = got s @ concat xs"
proof -
  have "ready s' \<and> (failed s \<longrightarrow> failed s') \<and> (\<not> failed s' \<longrightarrow> c = code \<and> got s' = got s @ concat xs)"
    using assms
  proof (induction xs arbitrary: s)
    case (Cons x xs)
    from Cons.prems have "length x \<le> 16384" and rest: "\<forall>x \<in> set xs. length x \<le> 16384" by simp_all
    from on_response_cases[OF this(1) Cons.prems(2)] show ?case
    proof (elim disjE exE conjE)
      fix s1 assume s1: "on_response_data (Some take_piece) x s = (of_nat (length x), s1)"
        "ready s1" "got s1 = got s @ x" "failed s1 = failed s"
      with Cons.prems(3) have "deliver (on_response_data (Some take_piece)) xs code s1 = (c, s')" by simp
      from Cons.IH[OF rest s1(2) this] s1(3,4) show ?thesis by auto
    next
      fix s1 n assume s1: "on_response_data (Some take_piece) x s = (n, s1)"
        "n \<noteq> of_nat (length x)" "ready s1" "failed s1"
      with Cons.prems(3) show ?thesis by auto
    qed
  qed auto
  then show "ready s'" "failed s \<Longrightarrow> failed s'"
    "\<not> failed s' \<Longrightarrow> c = code \<and> got s' = got s @ concat xs" by auto
qed

lemma transfer_complete:
  assumes "\<forall>x \<in> set xs. length x \<le> 16384" "ready s"
    and "\<And>x s. x \<in> set xs \<Longrightarrow> ready s \<Longrightarrow> fst (take_piece x s)"
  shows "\<exists>s'. deliver (on_response_data (Some take_piece)) xs code s = (code, s') \<and>
    ready s' \<and> got s' = got s @ concat xs \<and> failed s' = failed s"
  using assms
proof (induction xs arbitrary: s)
  case (Cons x xs)
  then have "length x \<le> 16384" "fst (take_piece x s)" by simp_all
  with on_response_cases[OF this(1) Cons.prems(2)] obtain s1 where s1:
    "on_response_data (Some take_piece) x s = (of_nat (length x), s1)"
    "ready s1" "got s1 = got s @ x" "failed s1 = failed s" by auto
  from Cons.prems have "\<exists>s'. deliver (on_response_data (Some take_piece)) xs code s1 = (code, s') \<and>
    ready s' \<and> got s' = got s1 @ concat xs \<and> failed s' = failed s1"
    by (intro Cons.IH[OF _ s1(2)]) auto
  with s1 show ?case by auto
qed simp

end

interpretation response: sink append_cb "\<lambda>_. False" id "\<lambda>_. True"
  by unfold_locales (auto simp: append_cb_def)

text \<open>The callback that writes to a file, once the file is open.\<close>

definition file_text :: "string \<Rightarrow> fs \<Rightarrow> string" where
  "file_text p d = (case content d p of None \<Rightarrow> [] | Some c \<Rightarrow> c)"

lemma fwrite_ok:
  assumes "fwrite env p x d = (1, d')"
  shows "x \<noteq> []" "d' = put_file p (file_text p d @ x) d"
  using assms by (auto simp: fwrite_def file_text_def Let_def split: if_splits)

lemma fwrite_put:
  assumes "fwrite env p x d = (n, d')" "content d p \<noteq> None"
  shows "\<exists>c. d' = put_file p c d \<or> d' = d"
  using assms by (auto simp: fwrite_def Let_def split: if_splits)

lemma file_text_put [simp]: "file_text p (put_file p c d) = c"
  by (simp add: file_text_def content_def)

interpretation client_file: sink "write_cb env p msg" "\<lambda>sd. \<not> ok (fst sd)" "\<lambda>sd. file_text p (snd sd)"
    "\<lambda>sd. content (snd sd) p \<noteq> None" for env p msg
proof unfold_locales
  fix sd sd' :: "status \<times> fs" and x
  assume r: "content (snd sd) p \<noteq> None"
  { assume "write_cb env p msg x sd = (True, sd')"
    then have w: "fwrite env p x (snd sd) = (1, snd sd')" "fst sd' = fst sd"
      by (auto simp: write_cb_def split: prod.splits if_splits)
    with fwrite_ok[OF w(1)]
    show "content (snd sd') p \<noteq> None \<and> file_text p (snd sd') = file_text p (snd sd) @ x \<and>
       (\<not> ok (fst sd')) = (\<not> ok (fst sd))"
      by (simp add: disk.cont_store)
  next
    assume "write_cb env p msg x sd = (False, sd')"
    then obtain n where w: "fwrite env p x (snd sd) = (n, snd sd')" "fst sd' = internal_error msg"
      by (auto simp: write_cb_def split: prod.splits if_splits)
    with fwrite_put[OF w(1) r] r
    show "content (snd sd') p \<noteq> None \<and> \<not> ok (fst sd')"
      by (auto simp: disk.cont_store) }
qed

lemma fopen_w_cases:
  "fopen_w env p d = (b, d') \<Longrightarrow>
     (if b then can_open_w env d p \<and> d' = put_file p [] d else \<not> can_open_w env d p \<and> d' = d)"
  by (auto simp: fopen_w_def split: if_splits)

section \<open>What the client promises\<close>

lemma setopts_checked_OK:
  "setopts_checked lib opts c = (OK, c') \<Longrightarrow> curl c = Some h \<Longrightarrow>
   (\<forall>(opt, v, msg) \<in> set opts. setopt_code lib opt v = CURLE_OK) \<and>
   c' = c\<lparr>curl := Some (rev (map (\<lambda>(opt, v, _). (opt, v)) opts) @ h)\<rparr>"
proof (induction opts arbitrary: c h)
  case (Cons a opts)
  obtain opt v msg where a: "a = (opt, v, msg)" by (cases a)
  with Cons.prems have code: "setopt_code lib opt v = CURLE_OK"
    and "setopts_checked lib opts (c\<lparr>curl := Some ((opt, v) # h)\<rparr>) = (OK, c')"
    by (auto simp: easy_setopt_def Let_def split: if_splits)
  from Cons.IH[OF this(2)] code show ?case by (auto simp: a)
qed simp

lemma setopts_checked_fails:
  "curl c \<noteq> None \<Longrightarrow> (opt, v, msg) \<in> set opts \<Longrightarrow> setopt_code lib opt v \<noteq> CURLE_OK \<Longrightarrow>
   \<not> ok (fst (setopts_checked lib opts c))"
proof (induction opts arbitrary: c)
  case (Cons a opts)
  obtain h where "curl c = Some h" using Cons.prems(1) by auto
  with Cons show ?case by (cases a) (auto simp: easy_setopt_def Let_def)
qed simp

text \<open>\<open>init\<close> succeeds exactly when a handle exists or can be made and libcurl takes each of the
  options set; the handle then carries these options alone, whatever was set before, no
  header list is left over and the error buffer is empty. The option that makes libcurl follow
  redirects is never among them, although a limit on redirects is.\<close>

theorem init_effect:
  "(ok (fst (init lib url c)) \<longleftrightarrow>
      (curl c \<noteq> None \<or> easy_init_ok lib) \<and>
      (\<forall>(opt, v, msg) \<in> set (init_opts url). setopt_code lib opt v = CURLE_OK)) \<and>
   (ok (fst (init lib url c)) \<longrightarrow>
      header_list (snd (init lib url c)) = None \<and> error_buf (snd (init lib url c)) = [] \<and>
      option_of (snd (init lib url c)) =
        [CURLOPT_ERRORBUFFER \<mapsto> VErrorBuf, CURLOPT_NOSIGNAL \<mapsto> VLong 1, CURLOPT_FAILONERROR \<mapsto> VLong 1,
         CURLOPT_MAXREDIRS \<mapsto> VLong 20, CURLOPT_WRITEFUNCTION \<mapsto> VWriteCallback,
         CURLOPT_WRITEDATA \<mapsto> VThis, CURLOPT_URL \<mapsto> VStr (c_str url)] \<and>
      option_of (snd (init lib url c)) CURLOPT_FOLLOWLOCATION = None)"
proof (cases "curl c = None \<and> \<not> easy_init_ok lib")
  case True
  then show ?thesis by (simp add: init_def)
next
  case False
  define c3 where "c3 = c\<lparr>curl := Some [], header_list := None, error_buf := []\<rparr>"
  have i: "init lib url c = setopts_checked lib (init_opts url) c3"
    using False by (cases c; cases "header_list c") (auto simp: init_def c3_def)
  have c3: "curl c3 = Some []" by (simp add: c3_def)
  obtain st c' where r: "setopts_checked lib (init_opts url) c3 = (st, c')" by fastforce
  show ?thesis
  proof (cases "st = OK")
    case True
    from setopts_checked_OK[OF r[unfolded True] c3]
    have codes: "\<forall>(opt, v, msg) \<in> set (init_opts url). setopt_code lib opt v = CURLE_OK"
      and c': "c' = c3\<lparr>curl := Some (rev (map (\<lambda>(opt, v, _). (opt, v)) (init_opts url)))\<rparr>"
      by simp_all
    have ir: "init lib url c = (OK, c')" by (simp only: i r True)
    have fields: "header_list c' = None" "error_buf c' = []"
      "option_of c' = map_of (rev (map (\<lambda>(opt, v, _). (opt, v)) (init_opts url)))"
      by (simp_all add: c' c3_def option_of_def fun_eq_iff)
    have m: "map_of (rev (map (\<lambda>(opt, v, _). (opt, v)) (init_opts url))) =
        [CURLOPT_ERRORBUFFER \<mapsto> VErrorBuf, CURLOPT_NOSIGNAL \<mapsto> VLong 1, CURLOPT_FAILONERROR \<mapsto> VLong 1,
         CURLOPT_MAXREDIRS \<mapsto> VLong 20, CURLOPT_WRITEFUNCTION \<mapsto> VWriteCallback,
         CURLOPT_WRITEDATA \<mapsto> VThis, CURLOPT_URL \<mapsto> VStr (c_str url)]"
      by (simp add: init_opts_def fun_eq_iff)
    from codes False show ?thesis
      unfolding ir by (simp add: fields m)
  next
    case st: False
    then have nok: "\<not> ok (fst (init lib url c))" by (simp add: i r ok_def)
    have "\<not> (\<forall>(opt, v, msg) \<in> set (init_opts url). setopt_code lib opt v = CURLE_OK)"
    proof
      assume a: "\<forall>(opt, v, msg) \<in> set (init_opts url). setopt_code lib opt v = CURLE_OK"
      have "fst (setopts_checked lib opts e) = OK"
        if "\<forall>(opt, v, msg) \<in> set opts. setopt_code lib opt v = CURLE_OK" "curl e \<noteq> None" for opts e
        using that by (induction opts arbitrary: e) (auto simp: easy_setopt_def Let_def)
      from this[OF a, of c3] c3 r st show False by simp
    qed
    with nok show ?thesis by blast
  qed
qed

theorem init_effect_witness:
  "option_of (snd (init (serving [] 0 :: unit curl_lib) ''http://x'' HttpClient)) CURLOPT_URL = Some (VStr (c_str ''http://x'')) \<and>
   option_of (snd (init (serving [] 0 :: unit curl_lib) ''http://x'' HttpClient)) CURLOPT_FOLLOWLOCATION = None"
proof -
  have "ok (fst (init (serving [] 0 :: unit curl_lib) ''http://x'' HttpClient))"
    using init_effect[of "serving [] 0 :: unit curl_lib" "''http://x''" HttpClient]
    by (auto simp: serving_def CURLE_OK_def)
  with init_effect[of "serving [] 0 :: unit curl_lib" "''http://x''" HttpClient] show ?thesis by simp
qed

lemma execute_delivers:
  assumes "curl_delivers lib remote"
  shows "execute lib cb c s =
    (case deliver (on_response_data cb) (fst (remote (curl c))) (snd (remote (curl c))) s of (code, s') \<Rightarrow>
       let c' = fill_error_buf lib code c
       in (if code \<noteq> CURLE_OK then internal_error (to_errmsg lib c' code) else OK, c', s'))"
  using assms by (simp add: execute_def curl_delivers_def)

lemma set_option_frame [simp]:
  "header_list (set_option lib opt v c) = header_list c"
  "error_buf (set_option lib opt v c) = error_buf c"
  by (auto simp: set_option_def easy_setopt_def Let_def split: option.splits)

text \<open>Executing a request for its response appends, in order, all the data the server sent
  to the response, also when the transfer then fails; the status is OK exactly when libcurl
  reports success, and carries libcurl's own message otherwise.\<close>

theorem execute_response:
  assumes "curl_delivers lib remote"
  shows "\<exists>c'. execute_string lib c response =
    (if snd (remote (curl c)) = CURLE_OK then OK
     else internal_error (let e = error_buf (fill_error_buf lib (snd (remote (curl c))) c)
                          in if e = [] then easy_strerror lib (snd (remote (curl c))) else e),
     c', response @ concat (fst (remote (curl c))))"
proof -
  have "\<forall>x \<in> set (fst (remote (curl c))). length x \<le> 16384"
    using assms by (simp add: curl_delivers_def)
  from response.transfer_complete[OF this, where s = response and code = "snd (remote (curl c))"]
  show ?thesis
    by (auto simp: execute_string_def execute_delivers[OF assms] to_errmsg_def Let_def append_cb_def)
qed

theorem execute_response_witness:
  "\<exists>c'. execute_string (serving [''ab'', ''c''] 56) HttpClient ''>'' =
     (internal_error ''transfer failed'', c', ''>abc'')"
  using execute_response[OF serving_delivers[of "[''ab'', ''c'']" 56], of HttpClient "''>''"]
  by (simp add: CURLE_OK_def) (simp add: serving_def fill_error_buf_def option_of_def HttpClient_def)

text \<open>A download that reports OK has left in the local file exactly the data the server sent,
  in order, and touched no other path; but it never looks at the outcome of the transfer: when
  every write succeeds it reports OK whatever code the transfer ended with, so a connection
  that broke half way yields OK and a truncated file.\<close>

theorem client_download_effect:
  assumes "curl_delivers lib remote"
    and "client_download lib env p c d = (st, c', d')"
    and "remote (curl (download_opts lib c)) = (pieces, code)"
  shows "(st = OK \<longrightarrow> content d' p = Some (concat pieces)) \<and>
    (\<forall>q. q \<noteq> p \<longrightarrow> content d' q = content d q) \<and>
    (can_open_w env d p \<and> (\<forall>x \<in> set pieces. x \<noteq> [] \<and> (\<forall>t. length x \<le> accept env t x)) \<longrightarrow> st = OK)"
proof (cases "can_open_w env d p")
  case False
  with assms(2) show ?thesis by (auto simp: client_download_def fopen_w_def Let_def)
next
  case True
  define cb where "cb = write_cb env p ''fail to write data when download''"
  define d1 where "d1 = put_file p [] d"
  have small: "\<forall>x \<in> set pieces. length x \<le> 16384"
    using assms(1,3) unfolding curl_delivers_def by (metis fst_conv)
  have open1: "content (snd (OK, d1)) p \<noteq> None" by (simp add: d1_def disk.cont_store)
  obtain c2 where del: "deliver (on_response_data (Some cb)) pieces code (OK, d1) = (c2, (st, d'))"
    using assms(2,3) True
    by (auto simp: client_download_def fopen_w_def execute_delivers[OF assms(1)] cb_def d1_def Let_def
        split: prod.splits if_splits)
  have stored: "content d' p = Some (concat pieces)" if "st = OK"
    using client_file.transfer_stored(1,3)[OF small open1 del[unfolded cb_def]] that
    by (auto simp: file_text_def d1_def disk.cont_store split: option.splits)
  have frame: "content d' q = content d q" if "q \<noteq> p" for q
  proof -
    have step: "content (snd (snd (on_response_data (Some cb) x sd))) q = content (snd sd) q" for x sd
      using that
      by (auto simp: on_response_data_def cb_def write_cb_def fwrite_def Let_def disk.store_other
          split: prod.splits if_splits)
    have "content (snd (snd (deliver (on_response_data (Some cb)) xs code sd))) q = content (snd sd) q" for xs sd
    proof (induction xs arbitrary: sd)
      case (Cons x xs)
      then show ?case using step[of x sd] by (auto split: prod.splits)
    qed simp
    from this[of pieces "(OK, d1)"] del that show ?thesis by (simp add: d1_def disk.store_other)
  qed
  have good: "st = OK" if all: "\<forall>x \<in> set pieces. x \<noteq> [] \<and> (\<forall>t. length x \<le> accept env t x)"
  proof -
    have "fst (cb x sd)" if "x \<in> set pieces" for x and sd :: "status \<times> fs"
      using that all
      by (auto simp: cb_def write_cb_def fwrite_def Let_def stored_def split: prod.splits)
    with client_file.transfer_complete[OF small open1, where env = env
        and msg = "''fail to write data when download''" and code = code]
      del cb_def show ?thesis by (auto simp: ok_def)
  qed
  from stored frame good True show ?thesis by blast
qed

theorem client_download_effect_witness:
  "\<exists>c' d'. client_download (serving [''ab''] 18) roomy_os ''/f'' HttpClient [] = (OK, c', d') \<and>
     content d' ''/f'' = Some ''ab''"
proof -
  obtain st c' d' where r:
    "client_download (serving [''ab''] 18) roomy_os ''/f'' HttpClient [] = (st, c', d')"
    by (metis prod_cases3)
  have c: "curl_delivers (serving [''ab''] 18) (\<lambda>_. ([''ab''], 18))"
    by (rule serving_delivers) simp
  have "can_open_w roomy_os [] ''/f''"
    by (simp add: can_open_w_def is_dir_def parent_path_def roomy_os_def)
  with client_download_effect[OF c r refl] r show ?thesis by (auto simp: roomy_os_def)
qed

text \<open>The attempts of the retry loop: the world before attempt \<open>i\<close>, and how attempt \<open>i\<close> ends.\<close>

fun world_before :: "(http_client \<Rightarrow> 'w \<Rightarrow> status \<times> http_client \<times> 'w) \<Rightarrow> 'w \<Rightarrow> nat \<Rightarrow> 'w" where
  "world_before callback w 0 = w"
| "world_before callback w (Suc i) = snd (snd (callback HttpClient (world_before callback w i)))"

definition attempt :: "(http_client \<Rightarrow> 'w \<Rightarrow> status \<times> http_client \<times> 'w) \<Rightarrow> 'w \<Rightarrow> nat \<Rightarrow> status" where
  "attempt callback w i = fst (callback HttpClient (world_before callback w i))"

lemma world_before_shift:
  "world_before callback (snd (snd (callback HttpClient w))) i = world_before callback w (Suc i)"
  by (induction i) simp_all

lemma attempt_shift:
  "attempt callback (snd (snd (callback HttpClient w))) i = attempt callback w (Suc i)"
  by (simp only: attempt_def world_before_shift)

lemma retry_loop_succeeds:
  "k < n \<Longrightarrow> ok (attempt callback w k) \<Longrightarrow> \<forall>i < k. \<not> ok (attempt callback w i) \<Longrightarrow>
   retry_loop n t callback st (w, sl) = (OK, (world_before callback w (Suc k), sl @ replicate k t))"
proof (induction n arbitrary: k st w sl)
  case (Suc n)
  obtain st' cl w' where cb: "callback HttpClient w = (st', cl, w')" by (metis prod_cases3)
  then have a0: "attempt callback w 0 = st'" by (simp add: attempt_def)
  show ?case
  proof (cases k)
    case 0
    with Suc.prems a0 cb show ?thesis by (simp add: ok_def)
  next
    case (Suc k')
    have shift: "attempt callback w' i = attempt callback w (Suc i)" for i
      using attempt_shift[of callback w i] cb by simp
    have "\<not> ok st'" using Suc.prems(3) a0 \<open>k = Suc k'\<close> by fastforce
    moreover have "retry_loop n t callback st' (w', sl @ [t])
        = (OK, (world_before callback w' (Suc k'), (sl @ [t]) @ replicate k' t))"
      using Suc.prems \<open>k = Suc k'\<close> by (intro Suc.IH) (auto simp: shift)
    ultimately show ?thesis
      using cb world_before_shift[of callback w "Suc k'"] \<open>k = Suc k'\<close> by simp
  qed
qed simp

lemma retry_loop_fails:
  "\<forall>i < n. \<not> ok (attempt callback w i) \<Longrightarrow>
   retry_loop n t callback st (w, sl) =
     (if n = 0 then st else attempt callback w (n - 1), (world_before callback w n, sl @ replicate n t))"
proof (induction n arbitrary: st w sl)
  case (Suc n)
  obtain st' cl w' where cb: "callback HttpClient w = (st', cl, w')" by (metis prod_cases3)
  then have a0: "attempt callback w 0 = st'" by (simp add: attempt_def)
  have shift: "attempt callback w' i = attempt callback w (Suc i)"
    "world_before callback w' i = world_before callback w (Suc i)" for i
    using attempt_shift[of callback w i] world_before_shift[of callback w i] cb by simp_all
  have "\<not> ok st'" using Suc.prems a0 by auto
  moreover have "retry_loop n t callback st' (w', sl @ [t]) =
      (if n = 0 then st' else attempt callback w' (n - 1), (world_before callback w' n, (sl @ [t]) @ replicate n t))"
    using Suc.prems by (intro Suc.IH) (auto simp: shift)
  ultimately show ?case
    using cb a0 by (cases n) (simp_all add: shift del: world_before.simps)
qed simp

text \<open>C35. With a positive number of attempts the callback is tried until the first success, with
  one sleep after each failure, and the result is OK; when all attempts fail it was tried
  exactly that many times and the result is the last error. With no attempt to make, zero or
  less, the callback is never called and the result is nevertheless OK.\<close>

theorem execute_with_retry_attempts:
  "(k < nat n \<and> ok (attempt callback w k) \<and> (\<forall>i < k. \<not> ok (attempt callback w i)) \<longrightarrow>
      execute_with_retry n t callback w = (OK, (world_before callback w (Suc k), replicate k t))) \<and>
   (0 < n \<and> (\<forall>i < nat n. \<not> ok (attempt callback w i)) \<longrightarrow>
      execute_with_retry n t callback w =
        (attempt callback w (nat n - 1), (world_before callback w (nat n), replicate (nat n) t))) \<and>
   (n \<le> 0 \<longrightarrow> execute_with_retry n t callback w = (OK, (w, [])))"
  using retry_loop_succeeds[of k "nat n" callback w t OK "[]"]
    retry_loop_fails[of "nat n" callback w t OK "[]"]
  by (auto simp: execute_with_retry_def)

definition flaky :: "http_client \<Rightarrow> nat \<Rightarrow> status \<times> http_client \<times> nat" where
  "flaky c calls = (if calls < 2 then internal_error ''busy'' else OK, c, Suc calls)"

theorem execute_with_retry_attempts_witness:
  "execute_with_retry 5 3 flaky 0 = (OK, (3, [3, 3])) \<and>
   execute_with_retry 2 3 flaky 0 = (internal_error ''busy'', (2, [3, 3])) \<and>
   execute_with_retry 0 3 flaky 0 = (OK, (0, []))"
  using execute_with_retry_attempts[of 2 5 flaky 0 3] execute_with_retry_attempts[of 0 2 flaky 0 3]
    execute_with_retry_attempts[of 0 0 flaky 0 3]
  by (auto simp: attempt_def flaky_def numeral_2_eq_2 less_Suc_eq)

end
