(* ===== verification/Download.thy ===== *)
theory Download
  imports Http_Client Md5_Digest
begin

text \<open>
  util/download\_util.h and util/download\_util.cpp (with the scope guard of util/defer\_op.h):
  a file is fetched into a temporary file while its MD5 digest is computed, and renamed to its
  place when the digest is the expected one. libcurl, OpenSSL's MD5 and the comparison
  \<open>boost::iequals\<close> are parameters.
\<close>

section \<open>The code\<close>

text \<open>
  \<open>DeferOp\<close> runs a function when its scope is left, on every path: a body and the deferred
  function, in this order.
\<close>

definition with_defer :: "('s \<Rightarrow> 's) \<Rightarrow> ('s \<Rightarrow> 'a \<times> 's) \<Rightarrow> 's \<Rightarrow> 'a \<times> 's" where
  "with_defer deferred body s = (case body s of (r, s') \<Rightarrow> (r, deferred s'))"

text \<open>The stream \<open>fp\<close>: closed again, or null, is \<open>None\<close>; open on a path otherwise.\<close>

record dl_world =
  disk :: fs
  fp :: "string option"

definition fclose_fp :: "dl_world \<Rightarrow> dl_world" where
  "fclose_fp w = (if fp w \<noteq> None then w\<lparr>fp := None\<rparr> else w)"

type_synonym 'c dl_state = "status \<times> 'c md5_digest \<times> fs"

definition download_cb ::
    "'c md5_lib \<Rightarrow> os_env \<Rightarrow> string \<Rightarrow> string \<Rightarrow> string \<Rightarrow> 'c dl_state \<Rightarrow> bool \<times> 'c dl_state" where
  "download_cb md5 env url tmp_file data s =
     (case s of (status, digest, d) \<Rightarrow>
        let digest' = md5_update md5 data digest
        in case fwrite env tmp_file data d of (res, d') \<Rightarrow>
             if res \<noteq> 1
             then (False, (internal_error (''file to write data when downloading file from '' @ url), digest', d'))
             else (True, (status, digest', d')))"

record 'c ext_libs =
  lib_curl :: "'c dl_state curl_lib"
  lib_md5 :: "'c md5_lib"
  iequals :: "string \<Rightarrow> string \<Rightarrow> bool"

definition download_body ::
    "'c ext_libs \<Rightarrow> os_env \<Rightarrow> string \<Rightarrow> string \<Rightarrow> string \<Rightarrow> string \<Rightarrow> dl_world \<Rightarrow> status \<times> dl_world" where
  "download_body ext env url tmp_file target_file expected_checksum w =
     (if fp w = None
      then (internal_error ''fail to open tmp file when downloading file from {}'', w)
      else
        let client = snd (init (lib_curl ext) url HttpClient)
        in case execute (lib_curl ext) (Some (download_cb (lib_md5 ext) env url tmp_file)) client
                  (OK, Md5Digest (lib_md5 ext), disk w) of
             (_, _, (status, digest, d)) \<Rightarrow>
               if \<not> ok status then (status, w\<lparr>disk := d\<rparr>)
               else
                 let digest' = md5_finish (lib_md5 ext) digest
                 in if \<not> iequals ext (hex digest') expected_checksum
                    then (internal_error ''Download file's checksum is not match'', w\<lparr>disk := d\<rparr>)
                    else (case rename_file env tmp_file target_file d of (code, d') \<Rightarrow>
                       if code \<noteq> 0
                       then (internal_error (''fail to rename file from'' @ tmp_file @ '' to '' @ target_file),
                             w\<lparr>disk := d'\<rparr>)
                       else (OK, w\<lparr>disk := d'\<rparr>)))"

definition download ::
    "'c ext_libs \<Rightarrow> os_env \<Rightarrow> string \<Rightarrow> string \<Rightarrow> string \<Rightarrow> string \<Rightarrow> fs \<Rightarrow> status \<times> fs" where
  "download ext env url tmp_file target_file expected_checksum d =
     (case fopen_w env tmp_file d of (opened, d1) \<Rightarrow>
        let w = \<lparr>disk = d1, fp = (if opened then Some tmp_file else None)\<rparr>
        in case with_defer fclose_fp (download_body ext env url tmp_file target_file expected_checksum) w of
             (status, w') \<Rightarrow> (status, disk w'))"

section \<open>The callback is a sink\<close>

text \<open>While no write has failed, the digest has been fed exactly what is in the file.\<close>

definition digest_in_step :: "'c md5_lib \<Rightarrow> string \<Rightarrow> 'c dl_state \<Rightarrow> bool" where
  "digest_in_step md5 tmp s =
     (case s of (status, digest, d) \<Rightarrow>
        ok status \<longrightarrow> (\<exists>pieces. md5_ctx digest = foldl (MD5_Update md5) (MD5_Init md5) pieces \<and>
          concat pieces = file_text tmp d))"

definition dl_ready :: "'c md5_lib \<Rightarrow> string \<Rightarrow> 'c dl_state \<Rightarrow> bool" where
  "dl_ready md5 tmp s \<longleftrightarrow> content (snd (snd s)) tmp \<noteq> None \<and> digest_in_step md5 tmp s"

lemma download_cb_cases:
  "download_cb md5 env url tmp x (st, dg, d) =
     (case fwrite env tmp x d of (n, d') \<Rightarrow>
        if n \<noteq> 1 then (False, (internal_error (''file to write data when downloading file from '' @ url),
                               md5_update md5 x dg, d'))
        else (True, (st, md5_update md5 x dg, d')))"
  by (simp add: download_cb_def Let_def)

interpretation dl: sink "download_cb md5 env url tmp" "\<lambda>s. \<not> ok (fst s)" "\<lambda>s. file_text tmp (snd (snd s))"
    "dl_ready md5 tmp" for md5 :: "'c md5_lib" and env url tmp
proof unfold_locales
  fix s s' :: "'c dl_state" and x
  obtain st dg d where s: "s = (st, dg, d)" by (metis prod_cases3)
  assume "dl_ready md5 tmp s"
  then have c: "content d tmp \<noteq> None" and step: "digest_in_step md5 tmp (st, dg, d)"
    by (auto simp: dl_ready_def s)
  { assume "download_cb md5 env url tmp x s = (True, s')"
    then obtain d' where w: "fwrite env tmp x d = (1, d')" and s': "s' = (st, md5_update md5 x dg, d')"
      by (auto simp: s download_cb_cases split: prod.splits if_splits)
    have d': "d' = put_file tmp (file_text tmp d @ x) d" using fwrite_ok[OF w] by simp
    have "digest_in_step md5 tmp s'"
    proof (cases "ok st")
      case True
      with step obtain pieces where p: "md5_ctx dg = foldl (MD5_Update md5) (MD5_Init md5) pieces"
        "concat pieces = file_text tmp d" by (auto simp: digest_in_step_def)
      then have "md5_ctx (md5_update md5 x dg) = foldl (MD5_Update md5) (MD5_Init md5) (pieces @ [x])"
        "concat (pieces @ [x]) = file_text tmp d'" by (simp_all add: md5_update_def d')
      then show ?thesis unfolding s' digest_in_step_def by blast
    qed (simp add: s' digest_in_step_def)
    then show "dl_ready md5 tmp s' \<and> file_text tmp (snd (snd s')) = file_text tmp (snd (snd s)) @ x \<and>
        (\<not> ok (fst s')) = (\<not> ok (fst s))"
      by (simp add: dl_ready_def s s' d' disk.cont_store)
  next
    assume "download_cb md5 env url tmp x s = (False, s')"
    then obtain n d' st' where w: "fwrite env tmp x d = (n, d')"
      and s': "s' = (st', md5_update md5 x dg, d')" "\<not> ok st'"
      by (auto simp: s download_cb_cases split: prod.splits if_splits)
    from fwrite_put[OF w c] have "content d' tmp \<noteq> None"
      using c by (auto simp: disk.cont_store)
    with s' show "dl_ready md5 tmp s' \<and> \<not> ok (fst s')"
      by (simp add: dl_ready_def digest_in_step_def) }
qed

text \<open>The pieces reach the file when none is empty and the device takes each whole.\<close>

fun all_stored :: "os_env \<Rightarrow> string \<Rightarrow> string list \<Rightarrow> bool" where
  "all_stored env sofar [] = True"
| "all_stored env sofar (x # xs) =
     (x \<noteq> [] \<and> length x \<le> accept env sofar x \<and> all_stored env (sofar @ x) xs)"

lemma download_cb_fst:
  "content d tmp \<noteq> None \<Longrightarrow> fst (download_cb md5 env url tmp x (st, dg, d))
     \<longleftrightarrow> x \<noteq> [] \<and> length x \<le> accept env (file_text tmp d) x"
  by (auto simp: download_cb_cases fwrite_def file_text_def stored_def Let_def min_def
      split: prod.splits option.splits if_splits)

lemma deliver_all_stored:
  assumes "\<forall>x \<in> set xs. length x \<le> 16384" "dl_ready md5 tmp s" "fst s = OK"
    and "deliver (on_response_data (Some (download_cb md5 env url tmp))) xs code s = (c, s')"
  shows "fst s' = OK \<longleftrightarrow> all_stored env (file_text tmp (snd (snd s))) xs"
  using assms
proof (induction xs arbitrary: s)
  case (Cons x xs)
  let ?cb = "download_cb md5 env url tmp"
  obtain dg d where s: "s = (OK, dg, d)" using Cons.prems(3) by (cases s) auto
  from Cons.prems have small: "length x \<le> 16384" "\<forall>x \<in> set xs. length x \<le> 16384" by simp_all
  have there: "content d tmp \<noteq> None"
    using Cons.prems(2) by (simp add: s dl_ready_def)
  have takes: "fst (?cb x s) \<longleftrightarrow> x \<noteq> [] \<and> length x \<le> accept env (file_text tmp d) x"
    unfolding s by (rule download_cb_fst[OF there])
  from dl.on_response_cases[OF small(1) Cons.prems(2), of env url] show ?case
  proof (elim disjE exE conjE)
    fix s1 assume s1: "?cb x s = (True, s1)" "on_response_data (Some ?cb) x s = (of_nat (length x), s1)"
      "dl_ready md5 tmp s1" "file_text tmp (snd (snd s1)) = file_text tmp (snd (snd s)) @ x"
      "(\<not> ok (fst s1)) = (\<not> ok (fst s))"
    then have "fst s1 = OK" "deliver (on_response_data (Some ?cb)) xs code s1 = (c, s')"
      using Cons.prems by (auto simp: ok_def)
    from Cons.IH[OF small(2) s1(3) this] s1(1,4) takes show ?thesis by (simp add: s)
  next
    fix s1 n assume s1: "?cb x s = (False, s1)" "on_response_data (Some ?cb) x s = (n, s1)"
      "n \<noteq> of_nat (length x)" "\<not> ok (fst s1)"
    with Cons.prems(4) have "s' = s1" by simp
    with s1 takes show ?thesis by (auto simp: s)
  qed
qed simp

lemma deliver_frame:
  assumes "q \<noteq> tmp"
  shows "map_of (snd (snd (snd (deliver (on_response_data (Some (download_cb md5 env url tmp))) xs code s)))) q
    = map_of (snd (snd s)) q"
proof (induction xs arbitrary: s)
  case (Cons x xs)
  have "map_of (snd (snd (snd (on_response_data (Some (download_cb md5 env url tmp)) x s)))) q = map_of (snd (snd s)) q"
    using assms
    by (cases s) (auto simp: on_response_data_def download_cb_cases fwrite_def Let_def split: prod.splits if_splits)
  with Cons show ?case by (auto split: prod.splits)
qed simp

section \<open>The transfer into the temporary file\<close>

definition pieces_of :: "'c ext_libs \<Rightarrow> (curl_handle option \<Rightarrow> string list \<times> nat) \<Rightarrow> string \<Rightarrow> string list" where
  "pieces_of ext remote url = fst (remote (curl (snd (init (lib_curl ext) url HttpClient))))"

text \<open>What the transfer leaves: the status of the writes, the digest, and the file system.\<close>

lemma transfer_into_tmp:
  assumes "curl_delivers (lib_curl ext) remote" "md5_streaming (lib_md5 ext) H"
    and "can_open_w env d tmp"
    and "execute (lib_curl ext) (Some (download_cb (lib_md5 ext) env url tmp))
           (snd (init (lib_curl ext) url HttpClient)) (OK, Md5Digest (lib_md5 ext), put_file tmp [] d)
         = (st0, c', (status, digest, d2))"
  shows "status = OK \<longleftrightarrow> all_stored env [] (pieces_of ext remote url)"
    and "status = OK \<Longrightarrow> map_of d2 tmp = Some (Regular (concat (pieces_of ext remote url)))"
    and "status = OK \<Longrightarrow>
      hex (md5_finish (lib_md5 ext) digest) = hex_loop (H (concat (pieces_of ext remote url)))"
    and "q \<noteq> tmp \<Longrightarrow> map_of d2 q = map_of d q"
proof -
  let ?xs = "pieces_of ext remote url" and ?s = "(OK, Md5Digest (lib_md5 ext), put_file tmp [] d)"
  let ?cb = "download_cb (lib_md5 ext) env url tmp"
  have small: "\<forall>x \<in> set ?xs. length x \<le> 16384"
    using assms(1) by (simp add: curl_delivers_def pieces_of_def)
  obtain c where del: "deliver (on_response_data (Some ?cb)) ?xs
      (snd (remote (curl (snd (init (lib_curl ext) url HttpClient))))) ?s = (c, (status, digest, d2))"
    using assms(4) by (auto simp: execute_delivers[OF assms(1)] pieces_of_def Let_def split: prod.splits)
  have ready: "dl_ready (lib_md5 ext) tmp ?s"
    unfolding dl_ready_def digest_in_step_def
    by (simp add: disk.cont_store Md5Digest_def) (intro exI[of _ "[]"], simp)
  show iff: "status = OK \<longleftrightarrow> all_stored env [] ?xs"
    using deliver_all_stored[OF small ready _ del] by simp
  from dl.transfer_stored[OF small ready del]
  have stored: "dl_ready (lib_md5 ext) tmp (status, digest, d2)"
    and whole: "status = OK \<Longrightarrow> file_text tmp d2 = concat ?xs" by (simp_all add: ok_def)
  show "map_of d2 tmp = Some (Regular (concat ?xs))" if "status = OK"
    using stored whole[OF that]
    by (auto simp: dl_ready_def file_text_def content_eq_Some[symmetric])
  show "hex (md5_finish (lib_md5 ext) digest) = hex_loop (H (concat ?xs))" if st: "status = OK"
  proof -
    obtain ps where "md5_ctx digest = foldl (MD5_Update (lib_md5 ext)) (MD5_Init (lib_md5 ext)) ps"
      "concat ps = file_text tmp d2"
      using stored st by (auto simp: dl_ready_def digest_in_step_def ok_def)
    with md5_hex_of_stream[OF assms(2)] whole[OF st] show ?thesis by metis
  qed
  show "map_of d2 q = map_of d q" if "q \<noteq> tmp"
    using deliver_frame[OF that, of "lib_md5 ext" env url ?xs] del that by (metis map_of_put snd_conv)
qed

section \<open>What a download promises\<close>

lemma is_dir_cong: "map_of d2 p = map_of d p \<Longrightarrow> is_dir d2 p \<longleftrightarrow> is_dir d p"
  by (simp add: is_dir_def)

text \<open>The shape of a call: no temporary file, a failed write, a wrong digest, a rename.\<close>

lemma download_cases [consumes 3, case_names no_tmp write_error mismatch rename]:
  assumes "curl_delivers (lib_curl ext) remote" "md5_streaming (lib_md5 ext) H"
    and xs: "xs = pieces_of ext remote url"
  obtains (no_tmp) "\<not> can_open_w env d tmp" "\<not> ok (fst (download ext env url tmp target expected d))"
      "snd (download ext env url tmp target expected d) = d"
  | (write_error) d2 where "can_open_w env d tmp" "\<not> all_stored env [] xs"
      "\<not> ok (fst (download ext env url tmp target expected d))"
      "snd (download ext env url tmp target expected d) = d2" "\<And>q. q \<noteq> tmp \<Longrightarrow> map_of d2 q = map_of d q"
  | (mismatch) d2 where "can_open_w env d tmp" "all_stored env [] xs"
      "\<not> iequals ext (hex_loop (H (concat xs))) expected"
      "\<not> ok (fst (download ext env url tmp target expected d))"
      "snd (download ext env url tmp target expected d) = d2" "\<And>q. q \<noteq> tmp \<Longrightarrow> map_of d2 q = map_of d q"
  | (rename) d2 code d3 where "can_open_w env d tmp" "all_stored env [] xs"
      "iequals ext (hex_loop (H (concat xs))) expected"
      "map_of d2 tmp = Some (Regular (concat xs))" "\<And>q. q \<noteq> tmp \<Longrightarrow> map_of d2 q = map_of d q"
      "rename_file env tmp target d2 = (code, d3)"
      "fst (download ext env url tmp target expected d) = OK \<longleftrightarrow> code = 0"
      "snd (download ext env url tmp target expected d) = d3"
proof (cases "can_open_w env d tmp")
  case False
  then show ?thesis
    by (intro no_tmp) (simp_all add: download_def fopen_w_def with_defer_def download_body_def fclose_fp_def)
next
  case True
  obtain st0 c' status digest d2 where ex:
    "execute (lib_curl ext) (Some (download_cb (lib_md5 ext) env url tmp))
       (snd (init (lib_curl ext) url HttpClient)) (OK, Md5Digest (lib_md5 ext), put_file tmp [] d)
     = (st0, c', (status, digest, d2))" by (metis prod_cases5)
  note t = transfer_into_tmp[OF assms(1,2) True ex, folded xs]
  obtain code d3 where rn: "rename_file env tmp target d2 = (code, d3)" by fastforce
  have run: "download ext env url tmp target expected d =
     (if \<not> ok status then (status, d2)
      else if \<not> iequals ext (hex (md5_finish (lib_md5 ext) digest)) expected
           then (internal_error ''Download file's checksum is not match'', d2)
           else (if code \<noteq> 0 then internal_error (''fail to rename file from'' @ tmp @ '' to '' @ target)
                 else OK, d3))"
    using True ex rn
    by (simp add: download_def fopen_w_def with_defer_def download_body_def fclose_fp_def Let_def)
  show ?thesis
  proof (cases "status = OK")
    case False
    with t(1) run True show ?thesis by (intro write_error[of d2]) (auto simp: ok_def t(4))
  next
    case st: True
    show ?thesis
    proof (cases "iequals ext (hex_loop (H (concat xs))) expected")
      case False
      with st t(1,3) run True show ?thesis by (intro mismatch[of d2]) (auto simp: ok_def t(4))
    next
      case eq: True
      with st t(1,3) run True rn t(2)[OF st] show ?thesis
        by (intro rename[of d2 code d3]) (auto simp: ok_def t(4))
    qed
  qed
qed

lemma rename_file_cases:
  assumes "rename_file env p q d = (code, d')" "map_of d p = Some (Regular c)"
  shows "code = 0 \<longleftrightarrow> \<not> denied env p \<and> can_open_w env d q"
    and "code = 0 \<Longrightarrow> map_of d' r = (if r = q then Some (Regular c) else if r = p then None else map_of d r)"
    and "code \<noteq> 0 \<Longrightarrow> d' = d"
proof -
  have "content d p = Some c" using assms(2) by (simp add: content_eq_Some)
  then show "code = 0 \<longleftrightarrow> \<not> denied env p \<and> can_open_w env d q"
    and "code = 0 \<Longrightarrow> map_of d' r = (if r = q then Some (Regular c) else if r = p then None else map_of d r)"
    and "code \<noteq> 0 \<Longrightarrow> d' = d"
    using assms by (auto simp: rename_file_def split: if_splits)
qed

lemma download_verified_paths:
  assumes "curl_delivers (lib_curl ext) remote" "md5_streaming (lib_md5 ext) H"
    and "download ext env url tmp target expected d = (OK, d')" "tmp \<noteq> target"
  shows "\<exists>data. data = concat (pieces_of ext remote url) \<and>
    content d' target = Some data \<and> iequals ext (hex_loop (H data)) expected \<and>
    map_of d' tmp = None \<and> (\<forall>q. q \<noteq> tmp \<longrightarrow> q \<noteq> target \<longrightarrow> map_of d' q = map_of d q)"
  using assms(1,2) refl[of "pieces_of ext remote url"]
proof (cases rule: download_cases[where env = env and d = d and tmp = tmp and target = target and expected = expected])
  case (rename d2 code d3)
  with assms(3) have "code = 0" "d3 = d'" by simp_all
  with rename_file_cases(2)[OF rename(6,4)] rename(3,5) assms(4) show ?thesis by (auto simp: content_eq_Some)
qed (use assms(3) in simp_all)


definition example_ext :: "string list \<Rightarrow> string ext_libs" where
  "example_ext pieces = \<lparr>lib_curl = serving pieces 0, lib_md5 = length_md5, iequals = (=)\<rparr>"

definition example_disk :: fs where
  "example_disk = [(''/l'', Directory), (''/l/x.jar'', Regular ''old'')]"

lemma length_hash_hex: "hex_loop (length_hash ''abc'') = concat (replicate 16 ''03'')"
proof -
  have "hex_loop (replicate n 3) = concat (replicate n ''03'')" for n
    by (induction n) (simp_all add: dig_vec_lower_def)
  then show ?thesis by (simp add: length_hash_def)
qed

lemma example_delivers:
  "\<forall>x \<in> set pieces. length x \<le> 16384 \<Longrightarrow>
   curl_delivers (lib_curl (example_ext pieces)) (\<lambda>_. (pieces, 0))"
  by (simp add: example_ext_def serving_delivers)

lemma example_md5: "md5_streaming (lib_md5 (example_ext pieces)) length_hash"
  by (simp add: example_ext_def length_md5_streaming)

lemma example_open:
  "can_open_w roomy_os example_disk ''/l/x.tmp''" "can_open_w roomy_os example_disk ''/l/x.jar''"
  by (simp_all add: can_open_w_def is_dir_def parent_path_def roomy_os_def example_disk_def)

lemma rename_target_open:
  assumes "can_open_w env d tmp" "map_of d2 tmp = Some (Regular c)" "tmp \<noteq> target"
    and "\<And>q. q \<noteq> tmp \<Longrightarrow> map_of d2 q = map_of d q"
  shows "can_open_w env d2 target \<longleftrightarrow> can_open_w env d target"
proof -
  have "is_dir d2 (parent_path target) \<longleftrightarrow> is_dir d (parent_path target)"
  proof (cases "parent_path target = tmp")
    case True
    with assms(1,2) show ?thesis by (auto simp: is_dir_def can_open_w_def)
  next
    case False
    show ?thesis by (rule is_dir_cong[OF assms(4)[OF False]])
  qed
  moreover have "map_of d2 target = map_of d target" using assms(3) by (intro assms(4)) simp
  ultimately show ?thesis unfolding can_open_w_def by simp
qed

lemma download_ok_conditions:
  assumes "curl_delivers (lib_curl ext) remote" "md5_streaming (lib_md5 ext) H" "tmp \<noteq> target"
  shows "ok (fst (download ext env url tmp target expected d)) \<longleftrightarrow>
    can_open_w env d tmp \<and> all_stored env [] (pieces_of ext remote url) \<and>
    iequals ext (hex_loop (H (concat (pieces_of ext remote url)))) expected \<and>
    can_open_w env d target"
  using assms(1,2) refl[of "pieces_of ext remote url"]
proof (cases rule: download_cases[where env = env and d = d and tmp = tmp and target = target and expected = expected])
  case no_tmp
  then show ?thesis by simp
next
  case (write_error d2)
  then show ?thesis by simp
next
  case (mismatch d2)
  then show ?thesis by simp
next
  case (rename d2 code d3)
  have "code = 0 \<longleftrightarrow> can_open_w env d2 target"
    using rename_file_cases(1)[OF rename(6,4)] rename(1) by (simp add: can_open_w_def)
  then show ?thesis
    using rename(1,2,3,7) rename_target_open[OF rename(1,4) assms(3) rename(5)] by (simp add: ok_def)
qed


lemma example_pieces [simp]: "pieces_of (example_ext p) (\<lambda>_. (p, 0)) u = p"
  by (simp add: pieces_of_def)

lemma example_download_ok:
  "ok (fst (download (example_ext [''ab'', ''c'']) roomy_os ''u'' ''/l/x.tmp'' ''/l/x.jar''
       (concat (replicate 16 ''03'')) example_disk))"
  by (subst download_ok_conditions[OF example_delivers example_md5])
     (simp_all add: example_open length_hash_hex, simp_all add: example_ext_def roomy_os_def)



lemma download_error_paths:
  assumes "curl_delivers (lib_curl ext) remote" "md5_streaming (lib_md5 ext) H"
    and "download ext env url tmp target expected d = (st, d')" "st \<noteq> OK" "q \<noteq> tmp"
  shows "map_of d' q = map_of d q"
  using assms(1,2) refl[of "pieces_of ext remote url"]
proof (cases rule: download_cases[where env = env and d = d and tmp = tmp and target = target and expected = expected])
  case (rename d2 code d3)
  with assms(3,4) have "code \<noteq> 0" "d3 = d'" by auto
  with rename_file_cases(3)[OF rename(6,4)] rename(5)[OF assms(5)] show ?thesis by simp
qed (use assms(3,5) in auto)

text \<open>C39. A download that reports an error has changed no path but the temporary file: what was at
  the target, the jar of an earlier download for instance, is still there, byte for byte.\<close>

theorem download_error_keeps_target:
  assumes "curl_delivers (lib_curl ext) remote" "md5_streaming (lib_md5 ext) H"
    and "download ext env url tmp target expected d = (st, d')" "st \<noteq> OK" "q \<noteq> tmp"
  shows "map_of d' q = map_of d q"
  by (rule download_error_paths[OF assms])

theorem download_error_keeps_target_witness:
  "\<exists>st d'. download (example_ext [''ab'', ''c'']) roomy_os ''u'' ''/l/x.tmp'' ''/l/x.jar'' ''beef'' example_disk
      = (st, d') \<and> st \<noteq> OK \<and> map_of d' ''/l/x.jar'' = Some (Regular ''old'')"
proof -
  let ?e = "example_ext [''ab'', ''c'']"
  obtain st d' where r: "download ?e roomy_os ''u'' ''/l/x.tmp'' ''/l/x.jar'' ''beef'' example_disk = (st, d')"
    by fastforce
  have "\<not> iequals ?e (concat (replicate 16 ''03'')) ''beef''" by (simp add: example_ext_def numeral_eq_Suc)
  then have "st \<noteq> OK"
    using r download_ok_conditions[OF example_delivers example_md5, of "[''ab'', ''c'']" "''/l/x.tmp''" "''/l/x.jar''"
        roomy_os "''u''" "''beef''" example_disk]
    by (auto simp: length_hash_hex)
  with download_error_keeps_target[OF example_delivers example_md5 r this, of "''/l/x.jar''"] r
  show ?thesis by (simp add: example_disk_def)
qed

end
