(* ===== verification/Download_Stdio.thy ===== *)
theory Download_Stdio
  imports Download
begin

text \<open>
  DownloadUtil::download once more, as it runs among other downloads: each call of the operating
  system is a step, files are inodes behind the names of directories, and the stream has the buffer
  of the C library, which \<open>fclose\<close>, run by the scope guard after the rename, writes out. What curl
  hands to the callback is the list of pieces of the job.
\<close>

section \<open>Inodes and streams\<close>

text \<open>Names, contents by inode number, and the first number that was never used.\<close>

record inode_fs =
  dentry :: "string \<Rightarrow> nat option"
  idata :: "nat \<Rightarrow> string"
  inext :: nat

text \<open>What is at a path: the inode with its data.\<close>

definition seen :: "inode_fs \<Rightarrow> string \<Rightarrow> (nat \<times> string) option" where
  "seen d p = map_option (\<lambda>i. (i, idata d i)) (dentry d p)"

definition inode_fs_ok :: "inode_fs \<Rightarrow> bool" where
  "inode_fs_ok d \<longleftrightarrow> (\<forall>p i. dentry d p = Some i \<longrightarrow> i < inext d) \<and>
     (\<forall>p q i. dentry d p = Some i \<and> dentry d q = Some i \<longrightarrow> p = q)"

text \<open>\<open>write\<close> at an offset: a hole before it is filled with zero bytes.\<close>

definition write_at :: "nat \<Rightarrow> string \<Rightarrow> string \<Rightarrow> string" where
  "write_at off xs old =
     (if xs = [] then old
      else take off old @ replicate (off - length old) (CHR 0x00) @ xs @ drop (off + length xs) old)"

lemma write_at_end [simp]: "off = length old \<Longrightarrow> write_at off xs old = old @ xs"
  by (simp add: write_at_def)

lemma write_at_nothing [simp]: "write_at off [] old = old"
  by (simp add: write_at_def)

text \<open>
  The environment: which paths open for writing, which renames are allowed, how many bytes of a
  \<open>write\<close> at an offset the device takes, and how many bytes of a full buffer \<open>fwrite\<close> writes out.
\<close>

record stdio =
  may_open :: "string \<Rightarrow> bool"
  may_rename :: "string \<Rightarrow> string \<Rightarrow> bool"
  device :: "nat \<Rightarrow> nat \<Rightarrow> nat"
  spill :: "nat \<Rightarrow> nat"

record cstream =
  s_inode :: nat
  s_off :: nat
  s_buf :: string

text \<open>\<open>fopen(p, "w")\<close> truncates the file at the path, or makes one.\<close>

definition fopen_inode :: "stdio \<Rightarrow> string \<Rightarrow> inode_fs \<Rightarrow> cstream option \<times> inode_fs" where
  "fopen_inode io p d =
     (if \<not> may_open io p then (None, d)
      else case dentry d p of
        Some i \<Rightarrow> (Some \<lparr>s_inode = i, s_off = 0, s_buf = []\<rparr>, d\<lparr>idata := (idata d)(i := [])\<rparr>)
      | None \<Rightarrow> (Some \<lparr>s_inode = inext d, s_off = 0, s_buf = []\<rparr>,
          d\<lparr>dentry := (dentry d)(p \<mapsto> inext d), idata := (idata d)(inext d := []), inext := Suc (inext d)\<rparr>))"

text \<open>The first \<open>k\<close> bytes of the buffer are written out; what the device does not take stays.\<close>

definition write_out :: "stdio \<Rightarrow> nat \<Rightarrow> cstream \<Rightarrow> inode_fs \<Rightarrow> bool \<times> cstream \<times> inode_fs" where
  "write_out io k st d =
     (let n = min k (length (s_buf st)); m = min n (device io (s_off st) n)
      in (m = n, st\<lparr>s_off := s_off st + m, s_buf := drop m (s_buf st)\<rparr>,
          d\<lparr>idata := (idata d)(s_inode st := write_at (s_off st) (take m (s_buf st)) (idata d (s_inode st)))\<rparr>))"

text \<open>\<open>fwrite(data, length, 1, fp)\<close> returns 1: whether the whole item went into the stream.\<close>

definition fwrite_stream :: "stdio \<Rightarrow> string \<Rightarrow> cstream \<Rightarrow> inode_fs \<Rightarrow> bool \<times> cstream \<times> inode_fs" where
  "fwrite_stream io x st d =
     (if x = [] then (False, st, d)
      else write_out io (spill io (length (s_buf st @ x))) (st\<lparr>s_buf := s_buf st @ x\<rparr>) d)"

definition fclose_stream :: "stdio \<Rightarrow> cstream \<Rightarrow> inode_fs \<Rightarrow> inode_fs" where
  "fclose_stream io st d = snd (snd (write_out io (length (s_buf st)) st d))"

text \<open>\<open>rename\<close>: the inode moves to the new name, whatever was there.\<close>

definition rename_inode :: "stdio \<Rightarrow> string \<Rightarrow> string \<Rightarrow> inode_fs \<Rightarrow> bool \<times> inode_fs" where
  "rename_inode io p q d =
     (case dentry d p of
        None \<Rightarrow> (False, d)
      | Some i \<Rightarrow>
          (if \<not> may_rename io p q then (False, d)
           else (True, d\<lparr>dentry := (dentry d)(p := None, q := Some i)\<rparr>)))"

section \<open>The steps of a download\<close>

record dl_job =
  j_url :: string
  j_tmp :: string
  j_target :: string
  j_checksum :: string
  j_pieces :: "string list"

datatype 'c dl_pc =
    Opening
  | Writing cstream "'c md5_digest" "string list"
  | Verifying cstream "'c md5_digest"
  | Renaming cstream
  | Closing cstream status
  | Ended status

definition dl_step ::
    "stdio \<Rightarrow> 'c ext_libs \<Rightarrow> dl_job \<Rightarrow> 'c dl_pc \<Rightarrow> inode_fs \<Rightarrow> 'c dl_pc \<times> inode_fs" where
  "dl_step io ext job pc d =
     (case pc of
        Opening \<Rightarrow>
          (case fopen_inode io (j_tmp job) d of
             (None, d') \<Rightarrow> (Ended (internal_error ''fail to open tmp file when downloading file from {}''), d')
           | (Some st, d') \<Rightarrow> (Writing st (Md5Digest (lib_md5 ext)) (j_pieces job), d'))
      | Writing st digest [] \<Rightarrow> (Verifying st digest, d)
      | Writing st digest (x # xs) \<Rightarrow>
          (case fwrite_stream io x st d of (written, st', d') \<Rightarrow>
             if \<not> written
             then (Closing st' (internal_error (''file to write data when downloading file from '' @ j_url job)), d')
             else (Writing st' (md5_update (lib_md5 ext) x digest) xs, d'))
      | Verifying st digest \<Rightarrow>
          (if \<not> iequals ext (hex (md5_finish (lib_md5 ext) digest)) (j_checksum job)
           then (Closing st (internal_error ''Download file's checksum is not match''), d)
           else (Renaming st, d))
      | Renaming st \<Rightarrow>
          (case rename_inode io (j_tmp job) (j_target job) d of (renamed, d') \<Rightarrow>
             (Closing st (if \<not> renamed
                then internal_error (''fail to rename file from'' @ j_tmp job @ '' to '' @ j_target job) else OK), d'))
      | Closing st status \<Rightarrow> (Ended status, fclose_stream io st d)
      | Ended status \<Rightarrow> (Ended status, d))"

text \<open>Downloads that run at the same time: the disk, and where each of them is.\<close>

record 'c dl_sys =
  dsk :: inode_fs
  dpc :: "nat \<Rightarrow> 'c dl_pc"

definition sys_step :: "stdio \<Rightarrow> 'c ext_libs \<Rightarrow> (nat \<Rightarrow> dl_job) \<Rightarrow> nat \<Rightarrow> 'c dl_sys \<Rightarrow> 'c dl_sys" where
  "sys_step io ext jobs i s =
     (case dl_step io ext (jobs i) (dpc s i) (dsk s) of (pc, d) \<Rightarrow> \<lparr>dsk = d, dpc = (dpc s)(i := pc)\<rparr>)"

text \<open>A schedule says whose step is next.\<close>

definition sys_run :: "stdio \<Rightarrow> 'c ext_libs \<Rightarrow> (nat \<Rightarrow> dl_job) \<Rightarrow> nat list \<Rightarrow> 'c dl_sys \<Rightarrow> 'c dl_sys" where
  "sys_run io ext jobs sched s = fold (sys_step io ext jobs) sched s"

definition dl_start :: "inode_fs \<Rightarrow> 'c dl_sys" where
  "dl_start d = \<lparr>dsk = d, dpc = (\<lambda>_. Opening)\<rparr>"

section \<open>Steps and the paths they touch\<close>

text \<open>
  The inode of an open stream is at the temporary path of its job, and after the rename at its
  target.
\<close>

definition anchored :: "dl_job \<Rightarrow> 'c dl_pc \<Rightarrow> inode_fs \<Rightarrow> bool" where
  "anchored job pc d = (case pc of Opening \<Rightarrow> True | Ended _ \<Rightarrow> True
     | Writing st _ _ \<Rightarrow> dentry d (j_tmp job) = Some (s_inode st)
     | Verifying st _ \<Rightarrow> dentry d (j_tmp job) = Some (s_inode st)
     | Renaming st \<Rightarrow> dentry d (j_tmp job) = Some (s_inode st)
     | Closing st status \<Rightarrow> dentry d (if status = OK then j_target job else j_tmp job) = Some (s_inode st))"

lemma write_out_frame:
  assumes "write_out io k st d = (w, st', d')"
  shows "dentry d' = dentry d" "inext d' = inext d" "s_inode st' = s_inode st"
    "i \<noteq> s_inode st \<Longrightarrow> idata d' i = idata d i"
  using assms by (auto simp: write_out_def Let_def)

lemma fwrite_stream_frame:
  assumes "fwrite_stream io x st d = (w, st', d')"
  shows "dentry d' = dentry d" "inext d' = inext d" "s_inode st' = s_inode st"
    "i \<noteq> s_inode st \<Longrightarrow> idata d' i = idata d i"
  using assms write_out_frame[of io "spill io (length (s_buf st @ x))" "st\<lparr>s_buf := s_buf st @ x\<rparr>" d w st' d']
  by (auto simp: fwrite_stream_def split: if_splits)

lemma fclose_stream_frame:
  "dentry (fclose_stream io st d) = dentry d" "inext (fclose_stream io st d) = inext d"
  "i \<noteq> s_inode st \<Longrightarrow> idata (fclose_stream io st d) i = idata d i"
  by (simp_all add: fclose_stream_def write_out_def Let_def)

lemma seen_cong:
  "dentry d' p = dentry d p \<Longrightarrow> (\<And>i. dentry d p = Some i \<Longrightarrow> idata d' i = idata d i) \<Longrightarrow> seen d' p = seen d p"
  by (cases "dentry d p") (simp_all add: seen_def)

lemma inode_fs_ok_cong: "dentry d' = dentry d \<Longrightarrow> inext d' = inext d \<Longrightarrow> inode_fs_ok d' = inode_fs_ok d"
  by (simp add: inode_fs_ok_def)

lemma seen_elsewhere:
  assumes "inode_fs_ok d" "dentry d q = Some i" "p \<noteq> q" "dentry d' = dentry d" "\<And>j. j \<noteq> i \<Longrightarrow> idata d' j = idata d j"
  shows "seen d' p = seen d p"
proof (rule seen_cong)
  show "idata d' j = idata d j" if "dentry d p = Some j" for j
    using assms that by (cases "j = i") (auto simp: inode_fs_ok_def)
qed (simp add: assms(4))

lemma fopen_inode_frame:
  assumes "fopen_inode io p d = (st, d')" "inode_fs_ok d"
  shows "inode_fs_ok d'" "q \<noteq> p \<Longrightarrow> seen d' q = seen d q"
    "st = Some s \<Longrightarrow> dentry d' p = Some (s_inode s) \<and> s_off s = 0 \<and> s_buf s = [] \<and> idata d' (s_inode s) = []"
    "st = None \<Longrightarrow> d' = d"
proof -
  show "inode_fs_ok d'"
    using assms by (fastforce simp: fopen_inode_def inode_fs_ok_def split: option.splits if_splits)
  show "st = Some s \<Longrightarrow> dentry d' p = Some (s_inode s) \<and> s_off s = 0 \<and> s_buf s = [] \<and> idata d' (s_inode s) = []"
    "st = None \<Longrightarrow> d' = d"
    using assms by (auto simp: fopen_inode_def split: option.splits if_splits)
  show "seen d' q = seen d q" if "q \<noteq> p"
  proof (rule seen_cong)
    show "dentry d' q = dentry d q" using assms that by (auto simp: fopen_inode_def split: option.splits if_splits)
    show "idata d' i = idata d i" if "dentry d q = Some i" for i
    proof -
      have "i \<noteq> inext d" "dentry d p \<noteq> Some i" using assms(2) that \<open>q \<noteq> p\<close> by (auto simp: inode_fs_ok_def)
      with assms(1) show ?thesis by (auto simp: fopen_inode_def split: option.splits if_splits)
    qed
  qed
qed

lemma rename_inode_frame:
  assumes "rename_inode io p q d = (b, d')" "inode_fs_ok d"
  shows "inode_fs_ok d'" "r \<noteq> p \<Longrightarrow> r \<noteq> q \<Longrightarrow> seen d' r = seen d r" "idata d' = idata d" "\<not> b \<Longrightarrow> d' = d"
    "b \<Longrightarrow> p \<noteq> q \<Longrightarrow> dentry d' q = dentry d p \<and> dentry d p \<noteq> None"
proof -
  show "inode_fs_ok d'"
    using assms by (fastforce simp: rename_inode_def inode_fs_ok_def split: option.splits if_splits)
qed (use assms in \<open>auto simp: rename_inode_def seen_def split: option.splits if_splits\<close>)

lemma dl_step_frame:
  assumes "dl_step io ext job pc d = (pc', d')" "inode_fs_ok d" "anchored job pc d" "j_tmp job \<noteq> j_target job"
  shows "inode_fs_ok d' \<and> anchored job pc' d' \<and> (\<forall>p. p \<noteq> j_tmp job \<and> p \<noteq> j_target job \<longrightarrow> seen d' p = seen d p)"
proof (cases pc)
  case Opening
  obtain o1 d1 where f: "fopen_inode io (j_tmp job) d = (o1, d1)" by fastforce
  note fr = fopen_inode_frame[OF f assms(2)]
  have "d' = d1" "anchored job pc' d1"
    using Opening assms(1) f fr(3) by (cases o1; auto simp: dl_step_def anchored_def)+
  with fr(1,2) show ?thesis by simp
next
  case (Writing st dg xs)
  show ?thesis
  proof (cases xs)
    case Nil
    with Writing assms(1) have "d' = d" "anchored job pc d \<longrightarrow> anchored job pc' d"
      by (auto simp: dl_step_def anchored_def)
    with assms(2,3) show ?thesis by simp
  next
    case (Cons x rest)
    obtain w st' d1 where f: "fwrite_stream io x st d = (w, st', d1)" using prod_cases3 by blast
    note fr = fwrite_stream_frame[OF f]
    have a: "dentry d (j_tmp job) = Some (s_inode st)" using assms(3) Writing by (simp add: anchored_def)
    have "\<forall>p. p \<noteq> j_tmp job \<longrightarrow> seen d1 p = seen d p"
      using seen_elsewhere[OF assms(2) a _ fr(1,4)] by auto
    moreover have "inode_fs_ok d1" using inode_fs_ok_cong[OF fr(1,2)] assms(2) by simp
    moreover have "d' = d1" "anchored job pc' d1"
      using Writing Cons assms(1) f fr(1,3) a by (auto simp: dl_step_def anchored_def split: if_splits)
    ultimately show ?thesis by simp
  qed
next
  case (Verifying st dg)
  with assms(1) have "d' = d" "anchored job pc d \<longrightarrow> anchored job pc' d"
    by (auto simp: dl_step_def anchored_def split: if_splits)
  with assms(2,3) show ?thesis by simp
next
  case (Renaming st)
  obtain b d1 where f: "rename_inode io (j_tmp job) (j_target job) d = (b, d1)" by fastforce
  note fr = rename_inode_frame[OF f assms(2)]
  have "d' = d1" "anchored job pc' d1"
    using Renaming assms(1,3,4) f fr(4,5) by (cases b; auto simp: dl_step_def anchored_def)+
  with fr(1,2) show ?thesis by simp
next
  case (Closing st status)
  then have d1: "d' = fclose_stream io st d" "pc' = Ended status" using assms(1) by (auto simp: dl_step_def)
  note fr = fclose_stream_frame[where io = io and st = st and d = d]
  let ?q = "if status = OK then j_target job else j_tmp job"
  have a: "dentry d ?q = Some (s_inode st)" using assms(3) Closing by (simp add: anchored_def)
  have "\<forall>p. p \<noteq> ?q \<longrightarrow> seen d' p = seen d p"
    using seen_elsewhere[OF assms(2) a _ fr(1,3)] by (auto simp: d1)
  moreover have "inode_fs_ok d'" using inode_fs_ok_cong[OF fr(1,2)] assms(2) by (simp add: d1)
  ultimately show ?thesis by (auto simp: d1(2) anchored_def split: if_splits)
next
  case (Ended st)
  with assms show ?thesis by (auto simp: dl_step_def)
qed

section \<open>What a download has done so far\<close>

definition path_data :: "inode_fs \<Rightarrow> string \<Rightarrow> string option" where
  "path_data d p = map_option snd (seen d p)"

text \<open>The file at a path and the buffer of its stream hold a text between them.\<close>

definition holds_at :: "string \<Rightarrow> cstream \<Rightarrow> string \<Rightarrow> inode_fs \<Rightarrow> bool" where
  "holds_at p st body d \<longleftrightarrow> dentry d p = Some (s_inode st) \<and> s_off st = length (idata d (s_inode st)) \<and>
     idata d (s_inode st) @ s_buf st = body"

lemma write_out_holds:
  assumes "write_out io k st d = (w, st', d')" "holds_at p st body d"
  shows "holds_at p st' body d'" "w \<Longrightarrow> length (s_buf st) \<le> k \<Longrightarrow> s_buf st' = []"
proof -
  let ?n = "min k (length (s_buf st))"
  let ?m = "min ?n (device io (s_off st) ?n)"
  have st': "w = (?m = ?n)" "st' = st\<lparr>s_off := s_off st + ?m, s_buf := drop ?m (s_buf st)\<rparr>"
    "d' = d\<lparr>idata := (idata d)(s_inode st := idata d (s_inode st) @ take ?m (s_buf st))\<rparr>"
    using assms by (simp_all add: write_out_def Let_def holds_at_def)
  have "length (take ?m (s_buf st)) = ?m" by simp
  with assms(2) show "holds_at p st' body d'" unfolding st'(2,3) holds_at_def by simp
  show "w \<Longrightarrow> length (s_buf st) \<le> k \<Longrightarrow> s_buf st' = []" using st'(1,2) by simp
qed

lemma fwrite_stream_holds:
  assumes "fwrite_stream io x st d = (w, st', d')" "holds_at p st body d"
  shows "holds_at p st' (body @ x) d'"
proof (cases "x = []")
  case False
  have "holds_at p (st\<lparr>s_buf := s_buf st @ x\<rparr>) (body @ x) d" using assms(2) by (auto simp: holds_at_def)
  from write_out_holds(1)[OF _ this] assms(1) False show ?thesis by (simp add: fwrite_stream_def)
qed (use assms in \<open>simp add: fwrite_stream_def\<close>)

definition whole_device :: "stdio \<Rightarrow> bool" where
  "whole_device io \<longleftrightarrow> (\<forall>off n. n \<le> device io off n)"

text \<open>Closing leaves a first part of the text in the file, and all of it on a device that takes it.\<close>

lemma fclose_stream_holds:
  assumes "holds_at p st body d"
  shows "\<exists>data rest. path_data (fclose_stream io st d) p = Some data \<and> data @ rest = body \<and>
    (whole_device io \<longrightarrow> rest = [])"
proof -
  obtain w st' d' where f: "write_out io (length (s_buf st)) st d = (w, st', d')" using prod_cases3 by blast
  from write_out_holds[OF f assms] have h: "holds_at p st' body d'" "w \<Longrightarrow> s_buf st' = []" by simp_all
  have "w" if "whole_device io"
    using f that by (auto simp: write_out_def Let_def whole_device_def min_def)
  with h f show ?thesis
    by (intro exI[of _ "idata d' (s_inode st')"] exI[of _ "s_buf st'"])
      (auto simp: fclose_stream_def path_data_def seen_def holds_at_def)
qed

definition verified :: "'c ext_libs \<Rightarrow> (string \<Rightarrow> 8 word list) \<Rightarrow> dl_job \<Rightarrow> bool" where
  "verified ext H job \<longleftrightarrow> iequals ext (hex_loop (H (concat (j_pieces job)))) (j_checksum job)"

text \<open>
  The digest has been fed what the stream was given; the target keeps its \<open>old\<close> file until the
  rename, and from then on has a first part of the verified data.
\<close>

definition own_ok ::
    "stdio \<Rightarrow> 'c ext_libs \<Rightarrow> (string \<Rightarrow> 8 word list) \<Rightarrow> dl_job \<Rightarrow> string option \<Rightarrow> 'c dl_pc \<Rightarrow> inode_fs \<Rightarrow> bool" where
  "own_ok io ext H job old pc d =
     (case pc of
        Opening \<Rightarrow> path_data d (j_target job) = old
      | Writing st digest xs \<Rightarrow> path_data d (j_target job) = old \<and>
          (\<exists>ps. ps @ xs = j_pieces job \<and> holds_at (j_tmp job) st (concat ps) d \<and>
             md5_ctx digest = foldl (MD5_Update (lib_md5 ext)) (MD5_Init (lib_md5 ext)) ps)
      | Verifying st digest \<Rightarrow> path_data d (j_target job) = old \<and>
          holds_at (j_tmp job) st (concat (j_pieces job)) d \<and>
          md5_ctx digest = foldl (MD5_Update (lib_md5 ext)) (MD5_Init (lib_md5 ext)) (j_pieces job)
      | Renaming st \<Rightarrow> path_data d (j_target job) = old \<and> verified ext H job \<and>
          holds_at (j_tmp job) st (concat (j_pieces job)) d
      | Closing st status \<Rightarrow>
          (if status = OK then verified ext H job \<and> holds_at (j_target job) st (concat (j_pieces job)) d
           else path_data d (j_target job) = old \<and> dentry d (j_tmp job) = Some (s_inode st))
      | Ended status \<Rightarrow>
          (if status = OK
           then verified ext H job \<and> (\<exists>data rest. path_data d (j_target job) = Some data \<and>
             data @ rest = concat (j_pieces job) \<and> (whole_device io \<longrightarrow> rest = []))
           else path_data d (j_target job) = old))"

lemma own_ok_anchored: "own_ok io ext H job old pc d \<Longrightarrow> anchored job pc d"
  by (cases pc) (auto simp: own_ok_def anchored_def holds_at_def)

lemma holds_at_seen: "seen d' p = seen d p \<Longrightarrow> holds_at p st body d' = holds_at p st body d"
  by (cases "dentry d p"; cases "dentry d' p") (auto simp: seen_def holds_at_def)

lemma own_ok_cong:
  assumes "seen d' (j_tmp job) = seen d (j_tmp job)" "seen d' (j_target job) = seen d (j_target job)"
  shows "own_ok io ext H job old pc d' = own_ok io ext H job old pc d"
proof -
  have "dentry d' (j_tmp job) = Some i \<longleftrightarrow> dentry d (j_tmp job) = Some i" for i
    using assms(1) by (cases "dentry d (j_tmp job)"; cases "dentry d' (j_tmp job)") (auto simp: seen_def)
  then show ?thesis
    by (simp add: own_ok_def path_data_def assms(2) holds_at_seen[OF assms(1)] holds_at_seen[OF assms(2)]
        split: dl_pc.split)
qed

lemma path_data_other:
  assumes "inode_fs_ok d" "holds_at p st body d" "q \<noteq> p" "dentry d' = dentry d"
    "\<And>j. j \<noteq> s_inode st \<Longrightarrow> idata d' j = idata d j"
  shows "path_data d' q = path_data d q"
  using seen_elsewhere[OF assms(1) _ assms(3-5)] assms(2) by (simp add: path_data_def holds_at_def)

lemma own_ok_step:
  assumes "dl_step io ext job pc d = (pc', d')" "own_ok io ext H job old pc d" "inode_fs_ok d"
    and "j_tmp job \<noteq> j_target job" "md5_streaming (lib_md5 ext) H"
  shows "own_ok io ext H job old pc' d'"
proof (cases pc)
  case Opening
  obtain o1 d1 where f: "fopen_inode io (j_tmp job) d = (o1, d1)" by fastforce
  note fr = fopen_inode_frame[OF f assms(3)]
  have "path_data d1 (j_target job) = old"
    using fr(2)[of "j_target job"] assms(2,4) Opening by (simp add: own_ok_def path_data_def)
  with Opening assms(1) f fr(3) show ?thesis
    by (cases o1) (auto simp: dl_step_def own_ok_def holds_at_def Md5Digest_def)
next
  case (Writing st dg xs)
  with assms(2) obtain ps where ps: "ps @ xs = j_pieces job" "holds_at (j_tmp job) st (concat ps) d"
    "md5_ctx dg = foldl (MD5_Update (lib_md5 ext)) (MD5_Init (lib_md5 ext)) ps"
    "path_data d (j_target job) = old" by (auto simp: own_ok_def)
  show ?thesis
  proof (cases xs)
    case Nil
    with Writing assms(1) ps show ?thesis by (auto simp: dl_step_def own_ok_def)
  next
    case (Cons x rest)
    obtain w st' d1 where f: "fwrite_stream io x st d = (w, st', d1)" using prod_cases3 by blast
    note fr = fwrite_stream_frame[OF f]
    have old: "path_data d1 (j_target job) = old"
      using path_data_other[OF assms(3) ps(2) _ fr(1,4)] assms(4) ps(4) by simp
    have new: "holds_at (j_tmp job) st' (concat (ps @ [x])) d1"
      using fwrite_stream_holds[OF f ps(2)] by simp
    have ctx: "md5_ctx (md5_update (lib_md5 ext) x dg) = foldl (MD5_Update (lib_md5 ext)) (MD5_Init (lib_md5 ext)) (ps @ [x])"
      using ps(3) by (simp add: md5_update_def)
    show ?thesis
    proof (cases w)
      case True
      then have "pc' = Writing st' (md5_update (lib_md5 ext) x dg) rest" "d' = d1"
        using Writing Cons assms(1) f by (simp_all add: dl_step_def)
      moreover have "(ps @ [x]) @ rest = j_pieces job" using ps(1) Cons by simp
      with new ctx have "\<exists>qs. qs @ rest = j_pieces job \<and> holds_at (j_tmp job) st' (concat qs) d1 \<and>
          md5_ctx (md5_update (lib_md5 ext) x dg) = foldl (MD5_Update (lib_md5 ext)) (MD5_Init (lib_md5 ext)) qs"
        by blast
      ultimately show ?thesis using old by (simp add: own_ok_def)
    next
      case False
      then have "\<exists>m. pc' = Closing st' (internal_error m)" "d' = d1"
        using Writing Cons assms(1) f by (auto simp: dl_step_def)
      with old new show ?thesis by (auto simp: own_ok_def holds_at_def)
    qed
  qed
next
  case (Verifying st dg)
  then have v: "path_data d (j_target job) = old" "holds_at (j_tmp job) st (concat (j_pieces job)) d"
    "md5_ctx dg = foldl (MD5_Update (lib_md5 ext)) (MD5_Init (lib_md5 ext)) (j_pieces job)"
    using assms(2) by (simp_all add: own_ok_def)
  have "hex (md5_finish (lib_md5 ext) dg) = hex_loop (H (concat (j_pieces job)))"
    by (rule md5_hex_of_stream[OF assms(5) v(3)])
  with Verifying assms(1) v(1,2) show ?thesis
    by (auto simp: dl_step_def own_ok_def verified_def holds_at_def split: if_splits)
next
  case (Renaming st)
  then have v: "path_data d (j_target job) = old" "verified ext H job" "holds_at (j_tmp job) st (concat (j_pieces job)) d"
    using assms(2) by (simp_all add: own_ok_def)
  obtain b d1 where f: "rename_inode io (j_tmp job) (j_target job) d = (b, d1)" by fastforce
  note fr = rename_inode_frame[OF f assms(3)]
  show ?thesis
  proof (cases b)
    case True
    then have "pc' = Closing st OK" "d' = d1" using Renaming assms(1) f by (simp_all add: dl_step_def)
    with v(2,3) fr(3) fr(5)[OF True assms(4)] show ?thesis by (simp add: own_ok_def holds_at_def)
  next
    case False
    then have "\<exists>m. pc' = Closing st (internal_error m)" "d' = d"
      using Renaming assms(1) f fr(4) by (auto simp: dl_step_def)
    with v show ?thesis by (auto simp: own_ok_def holds_at_def)
  qed
next
  case (Closing st status)
  then have d': "pc' = Ended status" "d' = fclose_stream io st d" using assms(1) by (simp_all add: dl_step_def)
  show ?thesis
  proof (cases "status = OK")
    case True
    with Closing assms(2) have "verified ext H job" "holds_at (j_target job) st (concat (j_pieces job)) d"
      by (simp_all add: own_ok_def)
    with fclose_stream_holds[of "j_target job" st _ d io] True show ?thesis by (simp add: d' own_ok_def)
  next
    case False
    with Closing assms(2) have c: "path_data d (j_target job) = old" "dentry d (j_tmp job) = Some (s_inode st)"
      by (simp_all add: own_ok_def)
    have "seen d' (j_target job) = seen d (j_target job)"
      unfolding d' by (rule seen_elsewhere[OF assms(3) c(2)]) (use assms(4) fclose_stream_frame in auto)
    with False c(1) show ?thesis by (simp add: d'(1) own_ok_def path_data_def)
  qed
next
  case (Ended st)
  with assms(1,2) show ?thesis by (simp add: dl_step_def)
qed

section \<open>Downloads at the same time\<close>

text \<open>Jobs that keep to themselves: no path of one is a path of another, or its own other path.\<close>

definition separate :: "(nat \<Rightarrow> dl_job) \<Rightarrow> nat set \<Rightarrow> bool" where
  "separate jobs J \<longleftrightarrow> (\<forall>i \<in> J. \<forall>k \<in> J. j_tmp (jobs i) \<noteq> j_target (jobs k) \<and>
     (i \<noteq> k \<longrightarrow> j_tmp (jobs i) \<noteq> j_tmp (jobs k) \<and> j_target (jobs i) \<noteq> j_target (jobs k)))"

lemma separate_run:
  assumes "md5_streaming (lib_md5 ext) H" "inode_fs_ok d0" "separate jobs J" "set sched \<subseteq> J"
  shows "inode_fs_ok (dsk (sys_run io ext jobs sched (dl_start d0))) \<and>
    (\<forall>p. (\<forall>i \<in> J. p \<noteq> j_tmp (jobs i) \<and> p \<noteq> j_target (jobs i)) \<longrightarrow>
       seen (dsk (sys_run io ext jobs sched (dl_start d0))) p = seen d0 p) \<and>
    (\<forall>i \<in> J. own_ok io ext H (jobs i) (path_data d0 (j_target (jobs i)))
       (dpc (sys_run io ext jobs sched (dl_start d0)) i) (dsk (sys_run io ext jobs sched (dl_start d0))))"
  using assms(4)
proof (induction sched rule: rev_induct)
  case Nil
  show ?case using assms(2) by (simp add: sys_run_def dl_start_def own_ok_def)
next
  case (snoc k sched)
  let ?s = "sys_run io ext jobs sched (dl_start d0)"
  from snoc have k: "k \<in> J" and ok: "inode_fs_ok (dsk ?s)"
    and out: "\<And>p. \<forall>i \<in> J. p \<noteq> j_tmp (jobs i) \<and> p \<noteq> j_target (jobs i) \<Longrightarrow> seen (dsk ?s) p = seen d0 p"
    and own: "\<And>i. i \<in> J \<Longrightarrow> own_ok io ext H (jobs i) (path_data d0 (j_target (jobs i))) (dpc ?s i) (dsk ?s)"
    by simp_all
  obtain pc d where st: "dl_step io ext (jobs k) (dpc ?s k) (dsk ?s) = (pc, d)" by fastforce
  have s': "sys_run io ext jobs (sched @ [k]) (dl_start d0) = \<lparr>dsk = d, dpc = (dpc ?s)(k := pc)\<rparr>"
    using st by (simp add: sys_run_def sys_step_def)
  have tt: "j_tmp (jobs k) \<noteq> j_target (jobs k)" using assms(3) k by (simp add: separate_def)
  from dl_step_frame[OF st ok own_ok_anchored[OF own[OF k]] tt]
  have fr: "inode_fs_ok d" "\<And>p. p \<noteq> j_tmp (jobs k) \<Longrightarrow> p \<noteq> j_target (jobs k) \<Longrightarrow> seen d p = seen (dsk ?s) p"
    by blast+
  have "own_ok io ext H (jobs i) (path_data d0 (j_target (jobs i))) (((dpc ?s)(k := pc)) i) d" if "i \<in> J" for i
  proof (cases "i = k")
    case True
    with own_ok_step[OF st own[OF k] ok tt assms(1)] show ?thesis by simp
  next
    case False
    with assms(3) that k have "j_tmp (jobs i) \<noteq> j_tmp (jobs k)" "j_tmp (jobs i) \<noteq> j_target (jobs k)"
      "j_target (jobs i) \<noteq> j_tmp (jobs k)" "j_target (jobs i) \<noteq> j_target (jobs k)"
      unfolding separate_def by metis+
    then have "seen d (j_tmp (jobs i)) = seen (dsk ?s) (j_tmp (jobs i))"
      "seen d (j_target (jobs i)) = seen (dsk ?s) (j_target (jobs i))" using fr(2) by blast+
    then have "own_ok io ext H (jobs i) (path_data d0 (j_target (jobs i))) (dpc ?s i) d"
      using own_ok_cong own[OF that] by blast
    with False show ?thesis by simp
  qed
  moreover have "seen d p = seen d0 p" if "\<forall>i \<in> J. p \<noteq> j_tmp (jobs i) \<and> p \<noteq> j_target (jobs i)" for p
    using fr(2)[of p] out[OF that] that k by simp
  ultimately show ?case using fr(1) by (simp add: s')
qed

lemma separate_downloads_apart:
  assumes "md5_streaming (lib_md5 ext) H" "inode_fs_ok d0" "separate jobs J" "set sched \<subseteq> J" "i \<in> J"
    and "s = sys_run io ext jobs sched (dl_start d0)" "target = j_target (jobs i)" "data = concat (j_pieces (jobs i))"
  shows "(path_data (dsk s) target = path_data d0 target \<or>
      iequals ext (hex_loop (H data)) (j_checksum (jobs i)) \<and>
      (\<exists>first rest. path_data (dsk s) target = Some first \<and> first @ rest = data)) \<and>
    (dpc s i = Ended OK \<and> whole_device io \<longrightarrow>
      path_data (dsk s) target = Some data \<and> iequals ext (hex_loop (H data)) (j_checksum (jobs i)))"
proof -
  have own: "own_ok io ext H (jobs i) (path_data d0 target) (dpc s i) (dsk s)"
    using separate_run[OF assms(1-4)] assms(5-7) by blast
  have "path_data (dsk s) target = Some (idata (dsk s) (s_inode st))" if "holds_at target st body (dsk s)" for st body
    using that by (simp add: path_data_def seen_def holds_at_def)
  with own show ?thesis
    unfolding assms(7,8)
    by (cases "dpc s i") (auto simp: own_ok_def verified_def holds_at_def split: if_splits)
qed

text \<open>C9. Downloads that run at the same time, whatever the order of their system calls, do not disturb
  each other when no path of one is a path of another: at every moment the target of each is as it
  was before or holds a first part of that download's data, whose digest is then the expected one;
  and once a download has ended with OK on a device that takes all that is written, its target
  holds all of it.\<close>

theorem separate_downloads_verified:
  assumes "md5_streaming (lib_md5 ext) H" "inode_fs_ok d0" "separate jobs J" "set sched \<subseteq> J" "i \<in> J"
    and "s = sys_run io ext jobs sched (dl_start d0)" "target = j_target (jobs i)" "data = concat (j_pieces (jobs i))"
  shows "(path_data (dsk s) target = path_data d0 target \<or>
      iequals ext (hex_loop (H data)) (j_checksum (jobs i)) \<and>
      (\<exists>first rest. path_data (dsk s) target = Some first \<and> first @ rest = data)) \<and>
    (dpc s i = Ended OK \<and> whole_device io \<longrightarrow>
      path_data (dsk s) target = Some data \<and> iequals ext (hex_loop (H data)) (j_checksum (jobs i)))"
  by (rule separate_downloads_apart[OF assms])

text \<open>The steps a download has left.\<close>

fun steps_left :: "dl_job \<Rightarrow> 'c dl_pc \<Rightarrow> nat" where
  "steps_left job Opening = length (j_pieces job) + 5"
| "steps_left job (Writing st digest xs) = length xs + 4"
| "steps_left job (Verifying st digest) = 3"
| "steps_left job (Renaming st) = 2"
| "steps_left job (Closing st status) = 1"
| "steps_left job (Ended status) = 0"

lemma dl_step_left:
  "dl_step io ext job pc d = (pc', d') \<Longrightarrow> steps_left job pc' \<le> steps_left job pc - 1"
  by (cases pc) (auto simp: dl_step_def split: option.splits prod.splits list.splits if_splits)

lemma sys_run_left:
  "steps_left (jobs i) (dpc (sys_run io ext jobs sched s) i) \<le> steps_left (jobs i) (dpc s i) - count_list sched i"
proof (induction sched arbitrary: s)
  case (Cons k sched)
  obtain pc d where st: "dl_step io ext (jobs k) (dpc s k) (dsk s) = (pc, d)" by fastforce
  let ?s = "\<lparr>dsk = d, dpc = (dpc s)(k := pc)\<rparr>"
  have "sys_run io ext jobs (k # sched) s = sys_run io ext jobs sched ?s"
    using st by (simp add: sys_run_def sys_step_def)
  with Cons.IH[of ?s] dl_step_left[OF st] show ?case by (cases "i = k") auto
qed (simp add: sys_run_def)


section \<open>A download on its own\<close>

lemma solo_run:
  fixes ext :: "'c ext_libs"
  assumes "md5_streaming (lib_md5 ext) H" "inode_fs_ok d0" "j_tmp job \<noteq> j_target job"
    and "P Opening d0"
    and step: "\<And>pc d pc' d'. own_ok io ext H job (path_data d0 (j_target job)) pc d \<Longrightarrow> inode_fs_ok d \<Longrightarrow> P pc d \<Longrightarrow>
      dl_step io ext job pc d = (pc', d') \<Longrightarrow> P pc' d'"
    and s: "s = sys_run io ext (\<lambda>_. job) (replicate n 0) (dl_start d0)"
  shows "P (dpc s 0) (dsk s)" "own_ok io ext H job (path_data d0 (j_target job)) (dpc s 0) (dsk s)"
    "\<And>p. p \<noteq> j_tmp job \<Longrightarrow> p \<noteq> j_target job \<Longrightarrow> seen (dsk s) p = seen d0 p"
proof -
  have sep: "separate (\<lambda>_. job) {0}" using assms(3) by (simp add: separate_def)
  have inv: "inode_fs_ok (dsk (sys_run io ext (\<lambda>_. job) (replicate n 0) (dl_start d0))) \<and>
      own_ok io ext H job (path_data d0 (j_target job)) (dpc (sys_run io ext (\<lambda>_. job) (replicate n 0) (dl_start d0)) 0)
        (dsk (sys_run io ext (\<lambda>_. job) (replicate n 0) (dl_start d0))) \<and>
      (\<forall>p. p \<noteq> j_tmp job \<and> p \<noteq> j_target job \<longrightarrow>
        seen (dsk (sys_run io ext (\<lambda>_. job) (replicate n 0) (dl_start d0))) p = seen d0 p)" for n
    using separate_run[OF assms(1,2) sep, of "replicate n 0" io] by (simp add: set_replicate_conv_if)
  then show "own_ok io ext H job (path_data d0 (j_target job)) (dpc s 0) (dsk s)"
    "\<And>p. p \<noteq> j_tmp job \<Longrightarrow> p \<noteq> j_target job \<Longrightarrow> seen (dsk s) p = seen d0 p" unfolding s by blast+
  show "P (dpc s 0) (dsk s)" unfolding s
  proof (induction n)
    case 0
    then show ?case using assms(4) by (simp add: sys_run_def dl_start_def)
  next
    case (Suc n)
    let ?s = "sys_run io ext (\<lambda>_. job) (replicate n 0) (dl_start d0)"
    obtain pc d where st: "dl_step io ext job (dpc ?s 0) (dsk ?s) = (pc, d)" by fastforce
    have "sys_run io ext (\<lambda>_. job) (replicate (Suc n) 0) (dl_start d0) = \<lparr>dsk = d, dpc = (dpc ?s)(0 := pc)\<rparr>"
      using st by (simp add: sys_run_def sys_step_def replicate_append_same[symmetric] del: replicate.simps)
    with step[OF _ _ Suc.IH st] inv[of n] show ?case by simp
  qed
qed

text \<open>What a download needs to end with OK, and the states of one that has met no error.\<close>

definition may_succeed :: "stdio \<Rightarrow> 'c ext_libs \<Rightarrow> (string \<Rightarrow> 8 word list) \<Rightarrow> dl_job \<Rightarrow> bool" where
  "may_succeed io ext H job \<longleftrightarrow> may_open io (j_tmp job) \<and> [] \<notin> set (j_pieces job) \<and> verified ext H job \<and>
     may_rename io (j_tmp job) (j_target job)"

definition no_error :: "'c dl_pc \<Rightarrow> bool" where
  "no_error pc = (case pc of Closing _ status \<Rightarrow> status = OK | Ended status \<Rightarrow> status = OK | _ \<Rightarrow> True)"

text \<open>Items of at most \<open>N\<close> bytes in the buffer go into the stream.\<close>

definition accepting :: "stdio \<Rightarrow> nat \<Rightarrow> bool" where
  "accepting io N \<longleftrightarrow> (\<forall>x st d. x \<noteq> [] \<and> length (s_buf st @ x) \<le> N \<longrightarrow> fst (fwrite_stream io x st d))"

lemma whole_device_accepting: "whole_device io \<Longrightarrow> accepting io N"
  by (auto simp: accepting_def fwrite_stream_def write_out_def Let_def whole_device_def min_def)

lemma no_error_step:
  assumes "may_succeed io ext H job" "accepting io (length (concat (j_pieces job)))" "md5_streaming (lib_md5 ext) H"
    and "own_ok io ext H job old pc d" "no_error pc" "dl_step io ext job pc d = (pc', d')"
  shows "no_error pc'"
proof (cases pc)
  case (Writing st dg xs)
  show ?thesis
  proof (cases xs)
    case (Cons x rest)
    from assms(4) Writing obtain ps where ps: "ps @ xs = j_pieces job" "holds_at (j_tmp job) st (concat ps) d"
      by (auto simp: own_ok_def)
    have "x \<in> set (j_pieces job)" unfolding ps(1)[symmetric] Cons by simp
    then have "x \<noteq> []" using assms(1) by (auto simp: may_succeed_def)
    have "length (concat (j_pieces job)) = length (concat ps) + length (concat xs)"
      by (simp add: ps(1)[symmetric])
    moreover have "length (s_buf st) \<le> length (concat ps)" using ps(2) by (auto simp: holds_at_def dest: arg_cong[of _ _ length])
    ultimately have "length (s_buf st @ x) \<le> length (concat (j_pieces job))" using Cons by simp
    with \<open>x \<noteq> []\<close> assms(2) have "fst (fwrite_stream io x st d)" unfolding accepting_def by blast
    with Writing Cons assms(6) show ?thesis by (auto simp: dl_step_def no_error_def split: prod.splits)
  qed (use Writing assms(6) in \<open>auto simp: dl_step_def no_error_def\<close>)
next
  case (Verifying st dg)
  with assms(4) have "md5_ctx dg = foldl (MD5_Update (lib_md5 ext)) (MD5_Init (lib_md5 ext)) (j_pieces job)"
    by (simp add: own_ok_def)
  from md5_hex_of_stream[OF assms(3) this] assms(1,6) Verifying show ?thesis
    by (auto simp: dl_step_def no_error_def may_succeed_def verified_def)
next
  case (Renaming st)
  with assms(4) have "dentry d (j_tmp job) = Some (s_inode st)" by (simp add: own_ok_def holds_at_def)
  with Renaming assms(1,6) show ?thesis
    by (auto simp: dl_step_def no_error_def rename_inode_def may_succeed_def)
qed (use assms(1,5,6) in \<open>auto simp: dl_step_def no_error_def fopen_inode_def may_succeed_def split: option.splits\<close>)

text \<open>And what one has seen to be true when it goes on.\<close>

definition conditions_met :: "stdio \<Rightarrow> dl_job \<Rightarrow> 'c dl_pc \<Rightarrow> bool" where
  "conditions_met io job pc =
     (let opens = may_open io (j_tmp job); good = [] \<notin> set (j_pieces job)
      in case pc of Opening \<Rightarrow> True
         | Writing _ _ xs \<Rightarrow> opens \<and> (\<exists>ps. ps @ xs = j_pieces job \<and> [] \<notin> set ps)
         | Verifying _ _ \<Rightarrow> opens \<and> good
         | Renaming _ \<Rightarrow> opens \<and> good
         | Closing _ status \<Rightarrow> status = OK \<longrightarrow> opens \<and> good \<and> may_rename io (j_tmp job) (j_target job)
         | Ended status \<Rightarrow> status = OK \<longrightarrow> opens \<and> good \<and> may_rename io (j_tmp job) (j_target job))"

lemma conditions_step:
  assumes "conditions_met io job pc" "dl_step io ext job pc d = (pc', d')"
  shows "conditions_met io job pc'"
proof (cases pc)
  case Opening
  with assms show ?thesis
    by (auto simp: dl_step_def conditions_met_def fopen_inode_def split: option.splits if_splits)
next
  case (Writing st dg xs)
  show ?thesis
  proof (cases xs)
    case (Cons x rest)
    from assms(1) Writing Cons obtain ps where ps: "ps @ x # rest = j_pieces job" "[] \<notin> set ps" "may_open io (j_tmp job)"
      by (auto simp: conditions_met_def)
    have "\<exists>qs. qs @ rest = j_pieces job \<and> [] \<notin> set qs" if "x \<noteq> []"
      using ps(1,2) that by (intro exI[of _ "ps @ [x]"]) simp
    with ps(3) Writing Cons assms(2) show ?thesis
      by (auto simp: dl_step_def conditions_met_def fwrite_stream_def split: prod.splits if_splits)
  qed (use Writing assms in \<open>auto simp: dl_step_def conditions_met_def\<close>)
next
  case (Renaming st)
  with assms show ?thesis
    by (auto simp: dl_step_def conditions_met_def rename_inode_def Let_def split: option.splits if_splits)
qed (use assms in \<open>auto simp: dl_step_def conditions_met_def split: if_splits\<close>)

text \<open>A download that runs alone to its end.\<close>

lemma solo_download:
  fixes ext :: "'c ext_libs"
  assumes "md5_streaming (lib_md5 ext) H" "inode_fs_ok d0" "j_tmp job \<noteq> j_target job"
    and "accepting io (length (concat (j_pieces job)))"
    and s: "s = sys_run io ext (\<lambda>_. job) (replicate (length (j_pieces job) + 5) 0) (dl_start d0)"
  obtains status where "dpc s 0 = Ended status" "status = OK \<longleftrightarrow> may_succeed io ext H job"
    "own_ok io ext H job (path_data d0 (j_target job)) (Ended status) (dsk s)"
    "\<And>p. p \<noteq> j_tmp job \<Longrightarrow> p \<noteq> j_target job \<Longrightarrow> path_data (dsk s) p = path_data d0 p"
proof -
  have "count_list (replicate n (0::nat)) 0 = n" for n by (induction n) simp_all
  then obtain status where e: "dpc s 0 = Ended status"
    using sys_run_left[of "\<lambda>_. job" 0 io ext "replicate (length (j_pieces job) + 5) 0" "dl_start d0"]
    by (cases "dpc s 0") (simp_all add: s dl_start_def)
  have good: "no_error (dpc s 0)" if "may_succeed io ext H job"
    by (rule solo_run(1)[OF assms(1-3), of "\<lambda>pc _. no_error pc", OF _ _ s])
      (simp add: no_error_def, erule (2) no_error_step[OF that assms(4,1)])
  have met: "conditions_met io job (dpc s 0)"
    by (rule solo_run(1)[OF assms(1-3), of "\<lambda>pc _. conditions_met io job pc", OF _ _ s])
      (simp add: conditions_met_def, erule (1) conditions_step)
  have own: "own_ok io ext H job (path_data d0 (j_target job)) (Ended status) (dsk s)"
    using solo_run(2)[OF assms(1-3), of "\<lambda>_ _. True", OF _ _ s] e by simp
  have "status = OK \<Longrightarrow> verified ext H job" using own by (simp add: own_ok_def)
  moreover have "may_succeed io ext H job \<Longrightarrow> status = OK" using good e by (simp add: no_error_def)
  moreover have "status = OK \<Longrightarrow> may_open io (j_tmp job) \<and> [] \<notin> set (j_pieces job) \<and>
      may_rename io (j_tmp job) (j_target job)" using met e by (simp add: conditions_met_def Let_def)
  ultimately have "status = OK \<longleftrightarrow> may_succeed io ext H job" unfolding may_succeed_def by blast
  moreover have "path_data (dsk s) p = path_data d0 p" if "p \<noteq> j_tmp job" "p \<noteq> j_target job" for p
    using solo_run(3)[OF assms(1-3), of "\<lambda>_ _. True", OF _ _ s] that by (simp add: path_data_def)
  ultimately show thesis using that[OF e] own by blast
qed

text \<open>C11. Alone on a device that takes what is written, the steps of a download do what its sequential
  description says: they end, with OK exactly when it returns OK, and leave every path but the
  temporary one with the content it leaves there.\<close>

theorem stdio_refines_download:
  assumes "curl_delivers (lib_curl ext) remote" "md5_streaming (lib_md5 ext) H" "j_tmp job \<noteq> j_target job"
    and "j_pieces job = pieces_of ext remote (j_url job)"
    and "inode_fs_ok d0" "\<forall>p. path_data d0 p = content d p"
    and "whole_device io" "\<forall>c x. length x \<le> accept env c x"
    and "may_open io (j_tmp job) = can_open_w env d (j_tmp job)"
    and "may_rename io (j_tmp job) (j_target job) = can_open_w env d (j_target job)"
    and "s = sys_run io ext (\<lambda>_. job) (replicate (length (j_pieces job) + 5) 0) (dl_start d0)"
    and "download ext env (j_url job) (j_tmp job) (j_target job) (j_checksum job) d = (st, d')"
  shows "\<exists>status. dpc s 0 = Ended status \<and> ok status = ok st \<and>
    (\<forall>p. p \<noteq> j_tmp job \<longrightarrow> path_data (dsk s) p = content d' p)"
proof -
  obtain status where s: "dpc s 0 = Ended status" "status = OK \<longleftrightarrow> may_succeed io ext H job"
    "own_ok io ext H job (path_data d0 (j_target job)) (Ended status) (dsk s)"
    "\<And>p. p \<noteq> j_tmp job \<Longrightarrow> p \<noteq> j_target job \<Longrightarrow> path_data (dsk s) p = path_data d0 p"
    by (rule solo_download[OF assms(2,5,3) whole_device_accepting[OF assms(7)] assms(11)]) blast
  have "all_stored env sofar xs \<longleftrightarrow> [] \<notin> set xs" for sofar xs
    using assms(8) by (induction xs arbitrary: sofar) auto
  with download_ok_conditions[OF assms(1-3), of env "j_url job" "j_checksum job" d] assms(4,9,10,12)
  have "ok st \<longleftrightarrow> may_succeed io ext H job"
    by (simp add: may_succeed_def verified_def)
  with s(2) have same: "ok status = ok st" by (simp add: ok_def)
  have "path_data (dsk s) p = content d' p" if p: "p \<noteq> j_tmp job" for p
  proof (cases "ok st")
    case True
    with assms(12) have "download ext env (j_url job) (j_tmp job) (j_target job) (j_checksum job) d = (OK, d')"
      by (simp add: ok_def)
    from download_verified_paths[OF assms(1,2) this assms(3)] assms(4)
    have d': "content d' (j_target job) = Some (concat (j_pieces job))"
      "p \<noteq> j_target job \<Longrightarrow> content d' p = content d p"
      using p by (auto simp: content_def)
    show ?thesis
    proof (cases "p = j_target job")
      case True
      with d'(1) s(3) same \<open>ok st\<close> assms(7) show ?thesis by (auto simp: own_ok_def ok_def)
    next
      case False
      with d'(2) s(4)[OF p] assms(6) show ?thesis by simp
    qed
  next
    case False
    have "content d' p = content d p"
      using assms(1,2) refl[of "pieces_of ext remote (j_url job)"]
    proof (cases rule: download_cases[where env = env and d = d and tmp = "j_tmp job" and target = "j_target job"
          and expected = "j_checksum job"])
      case (rename d2 code d3)
      with False assms(12) rename_file_cases(3)[OF rename(6,4)] p show ?thesis by (auto simp: content_def ok_def)
    qed (use assms(12) p in \<open>auto simp: content_def\<close>)
    moreover have "path_data (dsk s) p = path_data d0 p"
      using s(3,4) p same False by (cases "p = j_target job") (auto simp: own_ok_def ok_def)
    ultimately show ?thesis using assms(6) by simp
  qed
  with s(1) same show ?thesis by blast
qed

section \<open>A disk that is full, and a path that is shared\<close>

text \<open>A device that takes nothing: no file gets a byte.\<close>

definition full_device :: "stdio \<Rightarrow> bool" where
  "full_device io \<longleftrightarrow> (\<forall>off n. device io off n = 0)"

lemma full_device_idle:
  assumes "full_device io"
  shows "write_out io k st d = (w, st', d') \<Longrightarrow> idata d' = idata d \<and> s_inode st' = s_inode st"
    "fwrite_stream io x st d = (w, st', d') \<Longrightarrow> idata d' = idata d \<and> s_inode st' = s_inode st"
    "idata (fclose_stream io st d) = idata d"
  using assms by (auto simp: full_device_def write_out_def fwrite_stream_def fclose_stream_def Let_def split: if_splits)

definition still_empty :: "dl_job \<Rightarrow> 'c dl_pc \<Rightarrow> inode_fs \<Rightarrow> bool" where
  "still_empty job pc d = (case pc of Opening \<Rightarrow> True
     | Writing st _ _ \<Rightarrow> idata d (s_inode st) = []
     | Verifying st _ \<Rightarrow> idata d (s_inode st) = []
     | Renaming st \<Rightarrow> idata d (s_inode st) = []
     | Closing st _ \<Rightarrow> idata d (s_inode st) = []
     | Ended status \<Rightarrow> status = OK \<longrightarrow> path_data d (j_target job) = Some [])"

lemma still_empty_step:
  assumes "full_device io" "own_ok io ext H job old pc d" "inode_fs_ok d" "still_empty job pc d"
    and "dl_step io ext job pc d = (pc', d')"
  shows "still_empty job pc' d'"
proof (cases pc)
  case Opening
  obtain o1 d1 where f: "fopen_inode io (j_tmp job) d = (o1, d1)" by fastforce
  with Opening assms(5) fopen_inode_frame(3)[OF f assms(3)] show ?thesis
    by (cases o1) (auto simp: dl_step_def still_empty_def)
next
  case (Writing st dg xs)
  show ?thesis
  proof (cases xs)
    case (Cons x rest)
    obtain w st' d1 where f: "fwrite_stream io x st d = (w, st', d1)" using prod_cases3 by blast
    from full_device_idle(2)[OF assms(1) f] Writing Cons assms(4,5) f show ?thesis
      by (auto simp: dl_step_def still_empty_def split: if_splits)
  qed (use Writing assms(4,5) in \<open>auto simp: dl_step_def still_empty_def\<close>)
next
  case (Renaming st)
  obtain b d1 where f: "rename_inode io (j_tmp job) (j_target job) d = (b, d1)" by fastforce
  with Renaming assms(4,5) rename_inode_frame(3)[OF f assms(3)] show ?thesis
    by (auto simp: dl_step_def still_empty_def)
next
  case (Closing st status)
  have "path_data (fclose_stream io st d) (j_target job) = Some []" if "status = OK"
    using that Closing assms(2,4) full_device_idle(3)[OF assms(1)] fclose_stream_frame(1)[of io st d]
    by (simp add: own_ok_def still_empty_def holds_at_def path_data_def seen_def)
  with Closing assms(5) show ?thesis by (auto simp: dl_step_def still_empty_def)
qed (use assms(4,5) in \<open>auto simp: dl_step_def still_empty_def split: if_splits\<close>)

text \<open>C28. A full disk is not noticed when the data fits in the buffer of the stream: all of it is written
  out by the \<open>fclose\<close> after the rename, whose result nobody looks at. The download returns OK, and its
  target is an empty file.\<close>

theorem unnoticed_full_disk:
  assumes "md5_streaming (lib_md5 ext) H" "inode_fs_ok d0" "j_tmp job \<noteq> j_target job" "may_succeed io ext H job"
    and "\<forall>n \<le> length (concat (j_pieces job)). spill io n = 0" "full_device io"
    and "s = sys_run io ext (\<lambda>_. job) (replicate (length (j_pieces job) + 5) 0) (dl_start d0)"
  shows "dpc s 0 = Ended OK \<and> path_data (dsk s) (j_target job) = Some []"
proof -
  have "accepting io (length (concat (j_pieces job)))"
    using assms(5) by (auto simp: accepting_def fwrite_stream_def write_out_def)
  then have e: "dpc s 0 = Ended OK"
    by (rule solo_download[OF assms(1-3) _ assms(7)]) (use assms(4) in simp)
  have "still_empty job (dpc s 0) (dsk s)"
    by (rule solo_run(1)[OF assms(1-3), of "still_empty job", OF _ _ assms(7)])
      (simp add: still_empty_def, erule (3) still_empty_step[OF assms(6)])
  with e show ?thesis by (simp add: still_empty_def)
qed

text \<open>Downloads of the program's kind: one driver and checksum, so one temporary file; two sources.\<close>

definition plain_io :: stdio where
  "plain_io = \<lparr>may_open = (\<lambda>_. True), may_rename = (\<lambda>_ _. True), device = (\<lambda>_ n. n), spill = (\<lambda>n. n)\<rparr>"

definition empty_disk :: inode_fs where
  "empty_disk = \<lparr>dentry = (\<lambda>_. None), idata = (\<lambda>_. []), inext = 0\<rparr>"

definition race_jobs :: "string list \<Rightarrow> nat \<Rightarrow> dl_job" where
  "race_jobs other i = \<lparr>j_url = ''u'', j_tmp = ''/l/d_c.tmp'',
     j_target = (if i = 0 then ''/l/d_c_1.jar'' else ''/l/d_c_2.jar''),
     j_checksum = concat (replicate 16 ''03''), j_pieces = (if i = 0 then [''ab'', ''c''] else other)\<rparr>"

definition race_state :: "string list \<Rightarrow> nat list \<Rightarrow> string dl_sys" where
  "race_state other sched = sys_run plain_io (example_ext []) (race_jobs other) sched (dl_start empty_disk)"

text \<open>
  With the same data from both sources, the target of the first is empty when its download returns
  OK; the second fills it, fails to rename and leaves its own target without a file.
\<close>

lemma shared_tmp_file_honest:
  defines "before \<equiv> race_state [''abc''] [0, 0, 0, 0, 0, 1, 0, 0]"
    and "after \<equiv> race_state [''abc''] [0, 0, 0, 0, 0, 1, 0, 0, 1, 1, 1, 1, 1]"
  shows "dpc before 0 = Ended OK" "path_data (dsk before) ''/l/d_c_1.jar'' = Some []"
    "dpc after 1 = Ended (internal_error ''fail to rename file from/l/d_c.tmp to /l/d_c_2.jar'')"
    "path_data (dsk after) ''/l/d_c_1.jar'' = Some ''abc''" "path_data (dsk after) ''/l/d_c_2.jar'' = None"
  unfolding before_def after_def by code_simp+


section \<open>Examples\<close>

definition apart_jobs :: "nat \<Rightarrow> dl_job" where
  "apart_jobs i = (race_jobs [''evil''] i)\<lparr>j_tmp := (if i = 0 then ''/l/a.tmp'' else ''/l/b.tmp'')\<rparr>"

theorem separate_downloads_verified_witness:
  "path_data (dsk (sys_run plain_io (example_ext []) apart_jobs [0, 0, 0, 0, 0, 1, 0, 0, 1, 1, 1, 1] (dl_start empty_disk)))
     ''/l/d_c_1.jar'' = Some ''abc''"
proof -
  let ?sched = "[0, 0, 0, 0, 0, 1, 0, 0, 1, 1, 1, 1]"
  let ?s = "sys_run plain_io (example_ext []) apart_jobs ?sched (dl_start empty_disk)"
  have "inode_fs_ok empty_disk" by (simp add: inode_fs_ok_def empty_disk_def)
  moreover have "separate apart_jobs {0, 1}" by (simp add: separate_def apart_jobs_def race_jobs_def)
  moreover have "set ?sched \<subseteq> {0, 1}" by simp
  moreover have "dpc ?s 0 = Ended OK" "j_target (apart_jobs 0) = ''/l/d_c_1.jar''"
    "concat (j_pieces (apart_jobs 0)) = ''abc''" by code_simp+
  moreover have "whole_device plain_io" by (simp add: whole_device_def plain_io_def)
  ultimately show ?thesis
    using separate_downloads_verified[OF example_md5, of empty_disk apart_jobs "{0, 1}" ?sched 0 ?s plain_io "[]"] by simp
qed


theorem unnoticed_full_disk_witness:
  "path_data (dsk (sys_run (plain_io\<lparr>device := \<lambda>_ _. 0, spill := \<lambda>_. 0\<rparr>) (example_ext []) (\<lambda>_. race_jobs [] 0)
     (replicate 7 0) (dl_start empty_disk))) ''/l/d_c_1.jar'' = Some []"
proof -
  let ?io = "plain_io\<lparr>device := \<lambda>_ _. 0, spill := \<lambda>_. 0\<rparr>"
  have "inode_fs_ok empty_disk" by (simp add: inode_fs_ok_def empty_disk_def)
  moreover have "j_tmp (race_jobs [] 0) \<noteq> j_target (race_jobs [] 0)" "length (j_pieces (race_jobs [] 0)) + 5 = 7"
    "j_target (race_jobs [] 0) = ''/l/d_c_1.jar''" by (simp_all add: race_jobs_def)
  moreover have "may_succeed ?io (example_ext []) length_hash (race_jobs [] 0)" by code_simp
  moreover have "full_device ?io" "\<forall>n \<le> length (concat (j_pieces (race_jobs [] 0))). spill ?io n = 0"
    by (simp_all add: full_device_def)
  ultimately show ?thesis using unnoticed_full_disk[OF example_md5, of empty_disk "race_jobs [] 0" ?io "[]"] by auto
qed

theorem stdio_refines_download_witness:
  "path_data (dsk (sys_run plain_io (example_ext [''ab'', ''c'']) (\<lambda>_. race_jobs [] 0) (replicate 7 0) (dl_start empty_disk)))
     ''/l/d_c_1.jar'' =
   content (snd (download (example_ext [''ab'', ''c'']) roomy_os ''u'' ''/l/d_c.tmp'' ''/l/d_c_1.jar''
     (concat (replicate 16 ''03'')) [(''/l'', Directory)])) ''/l/d_c_1.jar''"
proof -
  let ?d = "[(''/l'', Directory)]" and ?job = "race_jobs [] 0" and ?ext = "example_ext [''ab'', ''c'']"
  obtain st d' where r: "download ?ext roomy_os ''u'' ''/l/d_c.tmp'' ''/l/d_c_1.jar'' (concat (replicate 16 ''03'')) ?d = (st, d')"
    by fastforce
  have job: "j_url ?job = ''u''" "j_tmp ?job = ''/l/d_c.tmp''" "j_target ?job = ''/l/d_c_1.jar''"
    "j_checksum ?job = concat (replicate 16 ''03'')" "j_pieces ?job = [''ab'', ''c'']"
    by (simp_all add: race_jobs_def)
  have "inode_fs_ok empty_disk" "\<forall>p. path_data empty_disk p = content ?d p"
    by (simp_all add: inode_fs_ok_def empty_disk_def path_data_def seen_def content_def)
  moreover have "whole_device plain_io" "\<forall>c x. length x \<le> accept roomy_os c x"
    by (simp_all add: whole_device_def plain_io_def roomy_os_def)
  moreover have "may_open plain_io (j_tmp ?job) = can_open_w roomy_os ?d (j_tmp ?job)"
    "may_rename plain_io (j_tmp ?job) (j_target ?job) = can_open_w roomy_os ?d (j_target ?job)"
    by (simp_all add: job plain_io_def can_open_w_def is_dir_def parent_path_def roomy_os_def)
  moreover have "curl_delivers (lib_curl ?ext) (\<lambda>_. ([''ab'', ''c''], 0))" by (rule example_delivers) simp
  ultimately show ?thesis
    using stdio_refines_download[of ?ext "\<lambda>_. ([''ab'', ''c''], 0)" length_hash ?job empty_disk ?d plain_io roomy_os
        "sys_run plain_io ?ext (\<lambda>_. ?job) (replicate 7 0) (dl_start empty_disk)" st d'] example_md5 r job
    by auto
qed

end
