(* ===== verification/Driver_Manager.thy ===== *)
theory Driver_Manager
  imports Download
begin

text \<open>
  runtime/jdbc\_driver\_manager.h and runtime/jdbc\_driver\_manager.cpp: the cache of JDBC driver
  jars. Entries are shared objects, so the map holds their numbers in a list of entries; an entry
  that has left the map keeps its number. The clock is a parameter of each request. The two locks
  are in Driver\_Concurrency; here the operations run one after the other.
\<close>

section \<open>Entries and the manager\<close>

record driver_entry =
  name :: string
  checksum :: string
  first_access_ts :: int
  location :: string
  is_available :: bool
  should_delete :: bool
  is_downloaded :: bool

record manager =
  driver_dir :: string
  entries :: "driver_entry list"
  entry_map :: "string \<Rightarrow> nat option"
  files :: fs

definition TMP_FILE_SUFFIX :: string where "TMP_FILE_SUFFIX = ''.tmp''"
definition JAR_FILE_SUFFIX :: string where "JAR_FILE_SUFFIX = ''.jar''"

definition JDBCDriverEntry :: "string \<Rightarrow> string \<Rightarrow> driver_entry" where
  "JDBCDriverEntry n c =
     \<lparr>name = n, checksum = c, first_access_ts = INT64_MAX, location = [],
      is_available = False, should_delete = False, is_downloaded = False\<rparr>"

definition is_expected :: "driver_entry \<Rightarrow> string \<Rightarrow> string \<Rightarrow> bool" where
  "is_expected e n c \<longleftrightarrow> name e = n \<and> checksum e = c"

definition JDBCDriverManager :: "fs \<Rightarrow> manager" where
  "JDBCDriverManager d = \<lparr>driver_dir = [], entries = [], entry_map = (\<lambda>_. None), files = d\<rparr>"

definition JDBCDriverManager_destroy :: "manager \<Rightarrow> manager" where
  "JDBCDriverManager_destroy m = m\<lparr>entry_map := (\<lambda>_. None)\<rparr>"

definition getInstance :: "fs \<Rightarrow> manager option \<Rightarrow> manager" where
  "getInstance d instance = (case instance of None \<Rightarrow> JDBCDriverManager d | Some m \<Rightarrow> m)"

definition update_entry :: "nat \<Rightarrow> (driver_entry \<Rightarrow> driver_entry) \<Rightarrow> manager \<Rightarrow> manager" where
  "update_entry i f m = m\<lparr>entries := (entries m)[i := f (entries m ! i)]\<rparr>"

definition make_shared :: "driver_entry \<Rightarrow> manager \<Rightarrow> nat \<times> manager" where
  "make_shared e m = (length (entries m), m\<lparr>entries := entries m @ [e]\<rparr>)"

definition publish :: "string \<Rightarrow> nat \<Rightarrow> manager \<Rightarrow> manager" where
  "publish n i m = m\<lparr>entry_map := (entry_map m)(n := Some i)\<rparr>"

lemmas manager_ops = update_entry_def make_shared_def publish_def

section \<open>File names\<close>

definition driver_file :: "string \<Rightarrow> string \<Rightarrow> int \<Rightarrow> string" where
  "driver_file n c ts = n @ CHR ''_'' # c @ CHR ''_'' # to_string ts @ ''.jar''"

definition generate_driver_location :: "manager \<Rightarrow> string \<Rightarrow> string \<Rightarrow> int \<Rightarrow> string" where
  "generate_driver_location m n c ts = driver_dir m @ CHR ''/'' # driver_file n c ts"

definition parse_from_file_name :: "string \<Rightarrow> (string \<times> string \<times> int) option res" where
  "parse_from_file_name file_name =
     res_bind (remove_suffix file_name (length JAR_FILE_SUFFIX)) (\<lambda>file_name.
     (case find_last_of CHR ''_'' file_name of
        None \<Rightarrow> Val None
      | Some pos \<Rightarrow>
          let str = drop (pos + 1) file_name
          in (case stol str of
                Exn _ \<Rightarrow> Val None
              | Check_Failed c \<Rightarrow> Check_Failed c
              | Undef u \<Rightarrow> Undef u
              | Val ts \<Rightarrow>
                  res_bind (remove_suffix file_name (length str + 1)) (\<lambda>file_name.
                  (case find_last_of CHR ''_'' file_name of
                     None \<Rightarrow> Val None
                   | Some pos \<Rightarrow>
                       let checksum = drop (pos + 1) file_name
                       in res_bind (remove_suffix file_name (length checksum + 1)) (\<lambda>file_name.
                          (case find_last_of CHR ''_'' file_name of
                             None \<Rightarrow> Val None
                           | Some _ \<Rightarrow> Val (Some (file_name, checksum, ts)))))))))"

section \<open>Loading the driver directory\<close>

definition on_files :: "(fs, 'a) prog \<Rightarrow> (manager, 'a) prog" where
  "on_files p = zoom files (\<lambda>d m. m\<lparr>files := d\<rparr>) p"

definition deref_entry :: "nat option \<Rightarrow> (manager, nat) prog" where
  "deref_entry p = (case p of None \<Rightarrow> undef Null_Deref | Some i \<Rightarrow> ret i)"

text \<open>The five lines that describe a loaded jar and put its entry into the map.\<close>

definition fill_and_publish :: "string \<Rightarrow> nat option \<Rightarrow> int \<Rightarrow> string \<Rightarrow> (manager, unit) prog" where
  "fill_and_publish n entry ts target_file =
     bind (deref_entry entry) (\<lambda>i.
     bind (modify (update_entry i (\<lambda>e. e\<lparr>first_access_ts := ts, location := target_file,
                                      is_downloaded := True, is_available := True\<rparr>))) (\<lambda>_.
     modify (publish n i)))"

text \<open>
  A name the map does not hold: the statement meant to create the entry compares
  (\<open>entry == std::make\_shared...\<close>), so \<open>entry\<close> is still null when it is used.
\<close>

definition load_jar ::
    "bool \<Rightarrow> os_env \<Rightarrow> string \<Rightarrow> string \<Rightarrow> string \<Rightarrow> int \<Rightarrow> (manager, unit) prog" where
  "load_jar falls env target_file n c ts m =
     (case entry_map m n of
        None \<Rightarrow> fill_and_publish n None ts target_file m
      | Some i \<Rightarrow>
          (if ts > first_access_ts (entries m ! i)
           then case make_shared (JDBCDriverEntry n c) (update_entry i (\<lambda>e. e\<lparr>should_delete := True\<rparr>) m) of
                  (j, m1) \<Rightarrow> fill_and_publish n (Some j) ts target_file m1
           else on_files (deleteFile falls env target_file) m))"

definition load_file :: "bool \<Rightarrow> os_env \<Rightarrow> string \<Rightarrow> (manager, unit) prog" where
  "load_file falls env file m =
     (let target_file = driver_dir m @ CHR ''/'' # file
      in if ends_with file TMP_FILE_SUFFIX then on_files (deleteFile falls env target_file) m
         else if ends_with file JAR_FILE_SUFFIX
         then (case parse_from_file_name file of
                 Val None \<Rightarrow> on_files (deleteFile falls env target_file) m
               | Val (Some (n, c, ts)) \<Rightarrow> load_jar falls env target_file n c ts m
               | Exn e \<Rightarrow> (Exn e, m)
               | Check_Failed c \<Rightarrow> (Check_Failed c, m)
               | Undef u \<Rightarrow> (Undef u, m))
         else (Val (), m))"

fun load_files :: "bool \<Rightarrow> os_env \<Rightarrow> string list \<Rightarrow> (manager, unit) prog" where
  "load_files falls env [] = ret ()"
| "load_files falls env (file # rest) =
     bind (load_file falls env file) (\<lambda>_. load_files falls env rest)"

definition init_manager :: "bool \<Rightarrow> os_env \<Rightarrow> string \<Rightarrow> (manager, status) prog" where
  "init_manager falls env dir =
     bind (modify (\<lambda>m. m\<lparr>driver_dir := dir\<rparr>)) (\<lambda>_.
     bind (\<lambda>m. if \<not> directoryExists (files m) (driver_dir m)
               then on_files (createDirectory env (driver_dir m)) m else (Val (), m)) (\<lambda>_.
     bind (\<lambda>m. on_files (listDirectory (driver_dir m)) m) (\<lambda>driver_files.
     bind (load_files falls env driver_files) (\<lambda>_. ret OK))))"

section \<open>Looking a driver up and downloading it\<close>

text \<open>Lines 141 to 144, and again 159 to 162.\<close>

definition create_entry :: "int \<Rightarrow> string \<Rightarrow> string \<Rightarrow> manager \<Rightarrow> nat \<times> manager" where
  "create_entry now n c m =
     (let e = (JDBCDriverEntry n c)\<lparr>first_access_ts := now,
                 location := generate_driver_location m n c now\<rparr>
      in case make_shared e m of (i, m1) \<Rightarrow> (i, publish n i m1))"

text \<open>
  The block under \<open>\_lock\<close>: the entry the request will use, and the location when the request
  is answered inside the block.
\<close>

definition lookup_entry :: "int \<Rightarrow> string \<Rightarrow> string \<Rightarrow> manager \<Rightarrow> (nat \<times> string option) \<times> manager" where
  "lookup_entry now n c m =
     (case (case entry_map m n of None \<Rightarrow> create_entry now n c m | Some i \<Rightarrow> (i, m)) of
        (i, m1) \<Rightarrow>
          (let e = entries m1 ! i
           in if is_expected e n c
              then ((i, if is_available e then Some (location e) else None), m1)
              else case create_entry now n c (update_entry i (\<lambda>e. e\<lparr>should_delete := True\<rparr>) m1) of
                     (j, m2) \<Rightarrow> ((j, None), m2)))"

definition tmp_file_of :: "manager \<Rightarrow> driver_entry \<Rightarrow> string" where
  "tmp_file_of m e = driver_dir m @ CHR ''/'' # name e @ CHR ''_'' # checksum e @ ''.tmp''"

definition download_driver ::
    "'c ext_libs \<Rightarrow> os_env \<Rightarrow> string \<Rightarrow> nat \<Rightarrow> manager \<Rightarrow> status \<times> manager" where
  "download_driver ext env url i m =
     (let e = entries m ! i
      in if is_downloaded e then (OK, m)
         else case download ext env url (tmp_file_of m e) (location e) (checksum e) (files m) of
                (_, d) \<Rightarrow>
                  (OK, update_entry i (\<lambda>e. e\<lparr>is_downloaded := True, is_available := True\<rparr>) (m\<lparr>files := d\<rparr>)))"

definition get_driver_location ::
    "'c ext_libs \<Rightarrow> os_env \<Rightarrow> int \<Rightarrow> string \<Rightarrow> string \<Rightarrow> string \<Rightarrow> manager \<Rightarrow> (status \<times> string) \<times> manager" where
  "get_driver_location ext env now n url c m =
     (case lookup_entry now n c m of
        ((i, Some loc), m1) \<Rightarrow> ((OK, loc), m1)
      | ((i, None), m1) \<Rightarrow>
          (case download_driver ext env url i m1 of
             (_, m2) \<Rightarrow> ((OK, location (entries m2 ! i)), m2)))"

section \<open>Names of driver files are a codec, within limits\<close>

lemma last_cases:
  obtains (none) "c \<notin> set s" | (split) xs ys where "s = xs @ c # ys" "c \<notin> set ys"
proof (cases "c \<in> set s")
  case True
  then show ?thesis using split_list_last[of c s] that(2) by blast
qed (rule that(1))

lemma remove_suffix_Cons [simp]: "remove_suffix (xs @ c # ys) (Suc (length ys)) = Val xs"
  using remove_suffix_append[of "Suc (length ys)" "c # ys" xs] by simp

lemma find_last_of_none [simp]: "c \<notin> set s \<Longrightarrow> find_last_of c s = None"
  by (simp add: find_last_of_None_iff)

lemma stol_total: "(\<exists>v. stol s = Val v) \<or> (\<exists>e. stol s = Exn e)"
  by (auto simp: stol_def Let_def split: prod.splits)

lemma remove_jar [simp]: "remove_suffix (b @ ''.jar'') (length JAR_FILE_SUFFIX) = Val b"
  by (simp add: JAR_FILE_SUFFIX_def)

lemma parse_two_parts:
  assumes "CHR ''_'' \<notin> set c" "CHR ''_'' \<notin> set s"
  shows "parse_from_file_name (n @ CHR ''_'' # c @ CHR ''_'' # s @ ''.jar'') =
    (case stol s of Val ts \<Rightarrow> (if CHR ''_'' \<in> set n then Val (Some (n, c, ts)) else Val None) | _ \<Rightarrow> Val None)"
proof -
  have "find_last_of CHR ''_'' (n @ CHR ''_'' # c @ CHR ''_'' # s) = Some (Suc (length n + length c))"
    using find_last_of_append[of "CHR ''_''" s "n @ CHR ''_'' # c"] assms(2) by simp
  moreover have "remove_suffix (n @ CHR ''_'' # c @ CHR ''_'' # s) (Suc (length s)) = Val (n @ CHR ''_'' # c)"
    using remove_suffix_Cons[of "n @ CHR ''_'' # c" "CHR ''_''" s] by simp
  moreover have "find_last_of CHR ''_'' n \<noteq> None \<longleftrightarrow> CHR ''_'' \<in> set n" by (simp add: find_last_of_None_iff)
  ultimately show ?thesis
    using assms stol_total[of s] remove_jar[of "n @ CHR ''_'' # c @ CHR ''_'' # s"]
    by (auto simp: parse_from_file_name_def Let_def split: option.splits)
qed

lemma parse_one_part:
  assumes "CHR ''_'' \<notin> set xs" "CHR ''_'' \<notin> set s"
  shows "parse_from_file_name (xs @ CHR ''_'' # s @ ''.jar'') = Val None"
  using assms stol_total[of s] remove_jar[of "xs @ CHR ''_'' # s"]
  by (auto simp: parse_from_file_name_def Let_def)

text \<open>What the parser accepts: three parts, the first of which contains a further underscore.\<close>

lemma parse_Some_iff:
  "parse_from_file_name (b @ ''.jar'') = Val (Some (n, c, ts)) \<longleftrightarrow>
   (\<exists>s. b = n @ CHR ''_'' # c @ CHR ''_'' # s \<and> CHR ''_'' \<in> set n \<and> CHR ''_'' \<notin> set c \<and>
      CHR ''_'' \<notin> set s \<and> stol s = Val ts)"  (is "?parses \<longleftrightarrow> ?shape")
proof
  show "?shape \<Longrightarrow> ?parses" by (auto simp: parse_two_parts)
  assume parses: ?parses
  show ?shape
  proof (cases rule: last_cases[of "CHR ''_''" b])
    case none
    with parses show ?thesis by (simp add: parse_from_file_name_def)
  next
    case (split xs s)
    show ?thesis
    proof (cases rule: last_cases[of "CHR ''_''" xs])
      case none
      with parses split parse_one_part[of xs s] show ?thesis by simp
    next
      case (split n' c')
      with \<open>b = xs @ CHR ''_'' # s\<close> \<open>CHR ''_'' \<notin> set s\<close> parses parse_two_parts[of c' s n']
      show ?thesis by (auto split: res.splits if_splits)
    qed
  qed
qed

lemma parse_total: "\<exists>r. parse_from_file_name (b @ ''.jar'') = Val r"
proof (cases rule: last_cases[of "CHR ''_''" b])
  case none
  then show ?thesis by (simp add: parse_from_file_name_def)
next
  case (split xs s)
  show ?thesis
  proof (cases rule: last_cases[of "CHR ''_''" xs])
    case none
    with split parse_one_part[of xs s] show ?thesis by simp
  next
    case (split n' c')
    with \<open>b = xs @ CHR ''_'' # s\<close> \<open>CHR ''_'' \<notin> set s\<close> parse_two_parts[of c' s n'] stol_total[of s]
    show ?thesis by auto
  qed
qed

lemma parse_driver_file:
  assumes "CHR ''_'' \<notin> set c" "is_int64 ts"
  shows "parse_from_file_name (driver_file n c ts) =
    Val (if CHR ''_'' \<in> set n then Some (n, c, ts) else None)"
proof -
  have "CHR ''_'' \<notin> set (to_string ts)" using to_string_chars(1) by blast
  from parse_two_parts[OF assms(1) this, of n] show ?thesis
    by (simp add: driver_file_def stol_to_string[OF assms(2)])
qed

definition parse_opt :: "string \<Rightarrow> (string \<times> string \<times> int) option" where
  "parse_opt f = (case parse_from_file_name f of Val r \<Rightarrow> r | _ \<Rightarrow> None)"

definition loadable_name :: "string \<times> string \<times> int \<Rightarrow> bool" where
  "loadable_name = (\<lambda>(n, c, ts). CHR ''_'' \<in> set n \<and> CHR ''_'' \<notin> set c \<and> is_int64 ts)"

interpretation driver_names: codec "\<lambda>(n, c, ts). driver_file n c ts" parse_opt loadable_name
  by unfold_locales (auto simp: parse_opt_def loadable_name_def parse_driver_file)



text \<open>Two drivers whose files are loadable share a file name only if they agree in name,
  checksum and access time; a file name that parses has the printed parts in it.\<close>

theorem driver_file_names_unique:
  "(loadable_name (n, c, ts) \<and> loadable_name (n', c', ts') \<longrightarrow>
      (driver_file n c ts = driver_file n' c' ts' \<longleftrightarrow> n = n' \<and> c = c' \<and> ts = ts')) \<and>
   (parse_from_file_name (b @ ''.jar'') = Val (Some (n, c, ts)) \<longrightarrow>
      loadable_name (n, c, ts) \<and> (\<exists>s. b = n @ CHR ''_'' # c @ CHR ''_'' # s \<and> stol s = Val ts))"
  using driver_names.enc_inj[of "(n, c, ts)" "(n', c', ts')"] stol_is_int64
  by (auto simp: parse_Some_iff loadable_name_def)

theorem driver_file_names_unique_witness:
  "driver_file ''a_b'' ''c'' 1 \<noteq> driver_file ''a_b'' ''c'' 2 \<and> loadable_name (''x_y'', ''k'', 12)"
proof
  show "driver_file ''a_b'' ''c'' 1 \<noteq> driver_file ''a_b'' ''c'' 2"
    using driver_file_names_unique[THEN conjunct1, of "''a_b''" "''c''" 1 "''a_b''" "''c''" 2]
    by (simp add: loadable_name_def is_int64_def INT64_MIN_def INT64_MAX_def)
  have "parse_from_file_name (''x_y_k_ 12z'' @ ''.jar'') = Val (Some (''x_y'', ''k'', 12))"
    by code_simp
  with driver_file_names_unique[THEN conjunct2, of "''x_y_k_ 12z''" "''x_y''" "''k''" 12]
  show "loadable_name (''x_y'', ''k'', 12)" by blast
qed

section \<open>Starting up\<close>

definition swept :: "string \<Rightarrow> bool" where
  "swept f \<longleftrightarrow> ends_with f TMP_FILE_SUFFIX \<or> ends_with f JAR_FILE_SUFFIX"

definition loadable :: "string \<Rightarrow> bool" where
  "loadable f \<longleftrightarrow> ends_with f JAR_FILE_SUFFIX \<and> parse_opt f \<noteq> None"

lemma loadable_swept: "loadable f \<Longrightarrow> swept f"
  by (simp add: loadable_def swept_def)

lemma jar_not_tmp: "ends_with f JAR_FILE_SUFFIX \<Longrightarrow> \<not> ends_with f TMP_FILE_SUFFIX"
  by (auto simp: ends_with_iff JAR_FILE_SUFFIX_def TMP_FILE_SUFFIX_def append_eq_append_conv2
      Cons_eq_append_conv append_eq_Cons_conv)

lemma parse_jar: "ends_with f JAR_FILE_SUFFIX \<Longrightarrow> parse_from_file_name f = Val (parse_opt f)"
proof -
  assume "ends_with f JAR_FILE_SUFFIX"
  then obtain b where "f = b @ ''.jar''" by (auto simp: ends_with_iff JAR_FILE_SUFFIX_def)
  with parse_total[of b] show ?thesis by (auto simp: parse_opt_def)
qed

lemma on_files_run: "on_files p m = (case p (files m) of (r, d) \<Rightarrow> (r, m\<lparr>files := d\<rparr>))"
  by (simp add: on_files_def zoom_def)

lemma deleteFile_Val:
  "deleteFile falls env p d = (Val u, d') \<Longrightarrow> d' = drop_path p d \<and> falls \<and> map_of d p \<noteq> None"
  by (auto simp: deleteFile_run std_remove_def split: option.splits if_splits)

text \<open>The four ways a file is treated.\<close>

lemma load_file_cases:
  "load_file falls env f m =
     (let target = driver_dir m @ CHR ''/'' # f
      in if \<not> swept f then (Val (), m)
         else if loadable f then (case the (parse_opt f) of (n, c, ts) \<Rightarrow> load_jar falls env target n c ts m)
         else on_files (deleteFile falls env target) m)"
proof (cases "ends_with f JAR_FILE_SUFFIX")
  case True
  with parse_jar[OF True] jar_not_tmp[OF True] show ?thesis
    by (cases "parse_opt f") (auto simp: load_file_def swept_def loadable_def Let_def)
qed (auto simp: load_file_def swept_def loadable_def Let_def)

lemma fill_null: "fill_and_publish n None ts t m = (Undef Null_Deref, m)"
  by (simp add: fill_and_publish_def deref_entry_def run_simps)

lemma load_jar_fresh: "entry_map m n = None \<Longrightarrow> load_jar falls env t n c ts m = (Undef Null_Deref, m)"
  by (simp add: load_jar_def fill_null)

lemma load_file_fresh:
  assumes "entry_map m = (\<lambda>_. None)" "load_file falls env f m = (Val (), m')"
  shows "\<not> loadable f \<and>
    m' = (if swept f then m\<lparr>files := drop_path (driver_dir m @ CHR ''/'' # f) (files m)\<rparr> else m)"
  using assms
  by (auto simp: load_file_cases Let_def load_jar_fresh on_files_run
      split: prod.splits if_splits dest!: deleteFile_Val dest: loadable_swept)

lemma load_files_fresh:
  assumes "entry_map m = (\<lambda>_. None)" "load_files falls env fs m = (Val (), m')"
  shows "\<exists>d. m' = m\<lparr>files := d\<rparr> \<and> (\<forall>f \<in> set fs. \<not> loadable f) \<and>
    (\<forall>q. map_of d q = (if \<exists>f \<in> set fs. swept f \<and> q = driver_dir m @ CHR ''/'' # f then None
                       else map_of (files m) q))"
  using assms
proof (induction fs arbitrary: m)
  case Nil
  then show ?case by (auto simp: run_simps intro: exI[of _ "files m"])
next
  case (Cons f fs)
  from Cons.prems(2) obtain m1 where m1: "load_file falls env f m = (Val (), m1)"
    and rest: "load_files falls env fs m1 = (Val (), m')" by (auto simp: bind_eq_Val)
  from load_file_fresh[OF Cons.prems(1) m1]
  have f: "\<not> loadable f" "entry_map m1 = (\<lambda>_. None)" "driver_dir m1 = driver_dir m"
    and d1: "\<And>q. map_of (files m1) q =
      (if swept f \<and> q = driver_dir m @ CHR ''/'' # f then None else map_of (files m) q)"
    and m1_eq: "\<And>d. m1\<lparr>files := d\<rparr> = m\<lparr>files := d\<rparr>"
    using Cons.prems(1) by auto
  from Cons.IH[OF f(2) rest] obtain d where d: "m' = m1\<lparr>files := d\<rparr>" "\<forall>f \<in> set fs. \<not> loadable f"
    "\<And>q. map_of d q = (if \<exists>f \<in> set fs. swept f \<and> q = driver_dir m @ CHR ''/'' # f then None
                       else map_of (files m1) q)" by (auto simp: f(3))
  show ?case
    by (rule exI[of _ d]) (auto simp: d(1,3) d1 m1_eq f(1) d(2)[rule_format])
qed

lemma init_manager_Val:
  assumes "init_manager falls env dir m = (Val st, m')"
  shows "\<exists>m1 names. st = OK \<and> driver_dir m1 = dir \<and> entry_map m1 = entry_map m \<and>
    entries m1 = entries m \<and> listDirectory dir (files m1) = (Val names, files m1) \<and>
    load_files falls env names m1 = (Val (), m')"
proof -
  let ?m = "m\<lparr>driver_dir := dir\<rparr>"
  from assms obtain m1 names m2 where
    m1: "(if \<not> directoryExists (files m) dir then on_files (createDirectory env dir) ?m else (Val (), ?m)) = (Val (), m1)"
    and names: "on_files (listDirectory (driver_dir m1)) m1 = (Val names, m2)"
    and load: "load_files falls env names m2 = (Val (), m')" and st: "st = OK"
    by (auto simp: init_manager_def bind_eq_Val run_simps cong: if_cong)
  from m1 have m1_eq: "driver_dir m1 = dir" "entry_map m1 = entry_map m" "entries m1 = entries m"
    by (auto simp: on_files_run split: if_splits prod.splits)
  with names have "listDirectory dir (files m1) = (Val names, files m1)" "m2 = m1"
    by (auto simp: on_files_run listDirectory_def split: if_splits prod.splits)
  with m1_eq load st show ?thesis by blast
qed

lemma restart_effect:
  assumes "entry_map m = (\<lambda>_. None)" "init_manager falls env dir m = (Val st, m')"
  shows "st = OK \<and> entry_map m' = (\<lambda>_. None) \<and>
    (\<forall>f. f \<noteq> [] \<and> CHR ''/'' \<notin> set f \<and> (ends_with f ''.jar'' \<or> ends_with f ''.tmp'') \<longrightarrow>
       \<not> fs_exists (files m') (dir @ CHR ''/'' # f))"
proof -
  from init_manager_Val[OF assms(2)] obtain m1 names where m1: "st = OK" "driver_dir m1 = dir"
    "entry_map m1 = entry_map m" "listDirectory dir (files m1) = (Val names, files m1)"
    "load_files falls env names m1 = (Val (), m')" by blast
  have "entry_map m1 = (\<lambda>_. None)" using m1(3) assms(1) by simp
  from load_files_fresh[OF this m1(5)] obtain d where d: "m' = m1\<lparr>files := d\<rparr>"
    "\<And>q. map_of d q = (if \<exists>f \<in> set names. swept f \<and> q = dir @ CHR ''/'' # f then None
                       else map_of (files m1) q)" by (auto simp: m1(2))
  have "names = fs_children (files m1) dir" using m1(4) by (auto simp: listDirectory_def split: if_splits)
  then have "f \<in> set names \<longleftrightarrow> f \<noteq> [] \<and> CHR ''/'' \<notin> set f \<and> fs_exists (files m1) (dir @ CHR ''/'' # f)" for f
    by (simp add: fs_children_iff)
  then show ?thesis
    using m1(1,3) assms(1) d by (auto simp: fs_exists_def swept_def JAR_FILE_SUFFIX_def TMP_FILE_SUFFIX_def)
qed

text \<open>C20. Starting the manager never brings a driver back: when \<open>init\<close> returns on a fresh manager
  it says OK, the map is still empty, and every jar (and temporary file) of the driver directory
  is gone from the disk. The drivers downloaded by an earlier run are lost, against what the
  comment on the class promises.\<close>

theorem restart_keeps_no_driver:
  assumes "entry_map m = (\<lambda>_. None)" "init_manager falls env dir m = (Val st, m')"
  shows "st = OK \<and> entry_map m' = (\<lambda>_. None) \<and>
    (\<forall>f. f \<noteq> [] \<and> CHR ''/'' \<notin> set f \<and> (ends_with f ''.jar'' \<or> ends_with f ''.tmp'') \<longrightarrow>
       \<not> fs_exists (files m') (dir @ CHR ''/'' # f))"
  by (rule restart_effect[OF assms])

definition old_disk :: fs where
  "old_disk = [(''/l'', Directory), (''/l/mysql_ab_7.jar'', Regular ''jar''), (''/l/x.tmp'', Regular []),
     (''/l/readme'', Regular [])]"

theorem restart_keeps_no_driver_witness:
  "\<exists>m'. init_manager True roomy_os ''/l'' (JDBCDriverManager old_disk) = (Val OK, m') \<and>
     \<not> fs_exists (files m') ''/l/mysql_ab_7.jar'' \<and> fs_exists (files m') ''/l/readme''"
proof -
  have "is_Val (fst (init_manager True roomy_os ''/l'' (JDBCDriverManager old_disk))) \<and>
      fs_exists (files (snd (init_manager True roomy_os ''/l'' (JDBCDriverManager old_disk)))) ''/l/readme''"
    by code_simp
  then obtain st m' where r: "init_manager True roomy_os ''/l'' (JDBCDriverManager old_disk) = (Val st, m')"
    and readme: "fs_exists (files m') ''/l/readme''"
    by (auto simp: is_Val_iff) (metis prod.collapse snd_conv)
  have "st = OK \<and> entry_map m' = (\<lambda>_. None) \<and>
      (\<forall>f. f \<noteq> [] \<and> CHR ''/'' \<notin> set f \<and> (ends_with f ''.jar'' \<or> ends_with f ''.tmp'') \<longrightarrow>
       \<not> fs_exists (files m') (''/l'' @ CHR ''/'' # f))"
    by (rule restart_keeps_no_driver[OF _ r]) (simp add: JDBCDriverManager_def)
  then have st: "st = OK"
    and gone: "\<And>f. f \<noteq> [] \<and> CHR ''/'' \<notin> set f \<and> (ends_with f ''.jar'' \<or> ends_with f ''.tmp'') \<Longrightarrow>
       \<not> fs_exists (files m') (''/l'' @ CHR ''/'' # f)" by blast+
  have "ends_with ''mysql_ab_7.jar'' ''.jar''" by code_simp
  with gone[of "''mysql_ab_7.jar''"] have "\<not> fs_exists (files m') ''/l/mysql_ab_7.jar''" by simp
  with st r readme show ?thesis by blast
qed

text \<open>A directory whose files may all be deleted.\<close>

definition sweepable :: "os_env \<Rightarrow> fs \<Rightarrow> string \<Rightarrow> bool" where
  "sweepable env d dir \<longleftrightarrow> fs_wf d \<and> directoryExists d dir \<and>
     (\<forall>f \<in> set (fs_children d dir). swept f \<longrightarrow>
        content d (dir @ CHR ''/'' # f) \<noteq> None \<and> \<not> denied env (dir @ CHR ''/'' # f))"

lemma load_files_outcome:
  assumes "entry_map m = (\<lambda>_. None)" "distinct fs"
    and "\<forall>f \<in> set fs. swept f \<longrightarrow> content (files m) (driver_dir m @ CHR ''/'' # f) \<noteq> None \<and>
           \<not> denied env (driver_dir m @ CHR ''/'' # f)"
  shows "fst (load_files True env fs m) = (if \<exists>f \<in> set fs. loadable f then Undef Null_Deref else Val ())"
  using assms
proof (induction fs arbitrary: m)
  case (Cons f fs)
  let ?t = "driver_dir m @ CHR ''/'' # f"
  consider "loadable f" | "\<not> loadable f" "swept f" | "\<not> loadable f" "\<not> swept f" by blast
  then show ?case
  proof cases
    case 1
    then have "load_file True env f m = (Undef Null_Deref, m)"
      using loadable_swept[OF 1] Cons.prems(1)
      by (simp add: load_file_cases Let_def load_jar_fresh split: prod.splits)
    with 1 show ?thesis by (simp add: run_simps)
  next
    case 2
    let ?m1 = "m\<lparr>files := drop_path ?t (files m)\<rparr>"
    from 2 Cons.prems(3) obtain c where c: "content (files m) ?t = Some c" "\<not> denied env ?t" by auto
    with 2 have "load_file True env f m = (Val (), ?m1)"
      by (simp add: load_file_cases Let_def on_files_run deleteFile_regular)
    moreover have "fst (load_files True env fs ?m1) = (if \<exists>f \<in> set fs. loadable f then Undef Null_Deref else Val ())"
      using Cons.prems by (intro Cons.IH) (auto simp: disk.cont_remv)
    ultimately show ?thesis using 2(1) by (simp add: run_simps)
  next
    case 3
    then have "load_file True env f m = (Val (), m)" by (simp add: load_file_cases Let_def)
    moreover have "fst (load_files True env fs m) = (if \<exists>f \<in> set fs. loadable f then Undef Null_Deref else Val ())"
      using Cons.prems by (intro Cons.IH) auto
    ultimately show ?thesis using 3(1) by (simp add: run_simps)
  qed
qed (simp add: run_simps)


definition two_word_disk :: fs where
  "two_word_disk = [(''/l'', Directory), (''/l/my_sql_ab_7.jar'', Regular ''jar'')]"


section \<open>The cache of drivers\<close>

text \<open>The entry the map leads to.\<close>

definition current :: "manager \<Rightarrow> string \<Rightarrow> driver_entry option" where
  "current m n = map_option (\<lambda>i. entries m ! i) (entry_map m n)"

definition map_wf :: "manager \<Rightarrow> bool" where
  "map_wf m \<longleftrightarrow> (\<forall>n i. entry_map m n = Some i \<longrightarrow> i < length (entries m) \<and> name (entries m ! i) = n)"

text \<open>Between requests every driver in the map has been downloaded, as far as the manager knows.\<close>

definition mgr_ok :: "manager \<Rightarrow> bool" where
  "mgr_ok m \<longleftrightarrow> map_wf m \<and> (\<forall>n e. current m n = Some e \<longrightarrow> is_available e \<and> is_downloaded e)"

lemma map_wfD: "map_wf m \<Longrightarrow> entry_map m n = Some i \<Longrightarrow> i < length (entries m) \<and> name (entries m ! i) = n"
  by (simp add: map_wf_def)

lemma map_wf_inj: "map_wf m \<Longrightarrow> entry_map m n = Some i \<Longrightarrow> entry_map m n' = Some i \<Longrightarrow> n = n'"
  using map_wfD by blast

lemma current_update:
  assumes "map_wf m" "entry_map m n = Some i"
  shows "current (update_entry i f m) = (current m)(n := Some (f (entries m ! i)))"
proof
  fix n'
  show "current (update_entry i f m) n' = ((current m)(n := Some (f (entries m ! i)))) n'"
    using assms map_wfD[OF assms] map_wf_inj[OF assms, of n']
    by (cases "entry_map m n'") (auto simp: current_def update_entry_def nth_list_update)
qed

lemma map_wf_update:
  assumes "map_wf m" "\<And>e. name (f e) = name e"
  shows "map_wf (update_entry i f m)"
  unfolding map_wf_def
proof (intro allI impI)
  fix n j assume "entry_map (update_entry i f m) n = Some j"
  with map_wfD[OF assms(1), of n j] assms(2)
  show "j < length (entries (update_entry i f m)) \<and> name (entries (update_entry i f m) ! j) = n"
    by (cases "j = i") (auto simp: update_entry_def)
qed

text \<open>A new entry put into the map replaces the current one of its name only.\<close>

lemma publish_new:
  assumes "map_wf m" "name e = n"
  shows "make_shared e m = (length (entries m), snd (make_shared e m))"
    and "map_wf (publish n (length (entries m)) (snd (make_shared e m)))"
    and "current (publish n (length (entries m)) (snd (make_shared e m))) = (current m)(n := Some e)"
proof -
  show "make_shared e m = (length (entries m), snd (make_shared e m))" by (simp add: make_shared_def)
  show "map_wf (publish n (length (entries m)) (snd (make_shared e m)))"
    using assms(2) map_wfD[OF assms(1)] unfolding map_wf_def
    by (auto simp: manager_ops nth_append less_SucI)
  show "current (publish n (length (entries m)) (snd (make_shared e m))) = (current m)(n := Some e)"
  proof
    fix x
    show "current (publish n (length (entries m)) (snd (make_shared e m))) x = ((current m)(n := Some e)) x"
      using map_wfD[OF assms(1), of x] by (cases "entry_map m x") (auto simp: manager_ops current_def nth_append)
  qed
qed

lemma create_entry_effect:
  assumes "map_wf m"
  shows "\<exists>m'. create_entry now n c m = (length (entries m), m') \<and> map_wf m' \<and>
    driver_dir m' = driver_dir m \<and> files m' = files m \<and> length (entries m') = Suc (length (entries m)) \<and>
    entry_map m' n = Some (length (entries m)) \<and>
    current m' = (current m)(n := Some ((JDBCDriverEntry n c)\<lparr>first_access_ts := now,
       location := generate_driver_location m n c now\<rparr>))"
proof -
  let ?e = "(JDBCDriverEntry n c)\<lparr>first_access_ts := now, location := generate_driver_location m n c now\<rparr>"
  have "name ?e = n" by (simp add: JDBCDriverEntry_def)
  from publish_new[OF assms this] show ?thesis
    by (auto simp: create_entry_def Let_def manager_ops)
qed

text \<open>What the lookup does, in terms of the current entries.\<close>

lemma lookup_hit:
  assumes "current m n = Some e" "checksum e = c" "is_available e" "map_wf m"
  shows "\<exists>i. lookup_entry now n c m = ((i, Some (location e)), m)"
  using assms by (auto simp: lookup_entry_def current_def is_expected_def Let_def dest: map_wfD)

lemma lookup_miss:
  assumes "map_wf m" "case current m n of None \<Rightarrow> True | Some e \<Rightarrow> checksum e \<noteq> c"
  shows "\<exists>i m'. lookup_entry now n c m = ((i, None), m') \<and> map_wf m' \<and> driver_dir m' = driver_dir m \<and>
    files m' = files m \<and> entry_map m' n = Some i \<and>
    current m' = (current m)(n := Some ((JDBCDriverEntry n c)\<lparr>first_access_ts := now,
       location := generate_driver_location m n c now\<rparr>))"
proof (cases "entry_map m n")
  case None
  from create_entry_effect[OF assms(1), of now n c] obtain m' where
    "create_entry now n c m = (length (entries m), m')" "map_wf m'" "driver_dir m' = driver_dir m"
    "files m' = files m" "entry_map m' n = Some (length (entries m))"
    "current m' = (current m)(n := Some ((JDBCDriverEntry n c)\<lparr>first_access_ts := now,
       location := generate_driver_location m n c now\<rparr>))" by blast
  moreover from this(5,6) have "entries m' ! length (entries m) = (JDBCDriverEntry n c)\<lparr>first_access_ts := now,
       location := generate_driver_location m n c now\<rparr>" by (simp add: current_def fun_eq_iff split: if_splits)
  ultimately show ?thesis
    using None by (simp add: lookup_entry_def is_expected_def JDBCDriverEntry_def Let_def)
next
  case (Some i)
  let ?m1 = "update_entry i (\<lambda>e. e\<lparr>should_delete := True\<rparr>) m"
  have wf: "map_wf ?m1" using assms(1) by (rule map_wf_update) simp
  have cur: "(current ?m1)(n := x) = (current m)(n := x)" for x
    using current_update[OF assms(1) Some] by simp
  have gen: "generate_driver_location ?m1 n c now = generate_driver_location m n c now"
    by (simp add: generate_driver_location_def update_entry_def)
  have dir: "driver_dir ?m1 = driver_dir m" "files ?m1 = files m" by (simp_all add: update_entry_def)
  from create_entry_effect[OF wf, of now n c] obtain m' where
    "create_entry now n c ?m1 = (length (entries ?m1), m')" "map_wf m'" "driver_dir m' = driver_dir m"
    "files m' = files m" "entry_map m' n = Some (length (entries ?m1))"
    "current m' = (current m)(n := Some ((JDBCDriverEntry n c)\<lparr>first_access_ts := now,
       location := generate_driver_location m n c now\<rparr>))" unfolding cur gen dir by blast
  moreover have "\<not> is_expected (entries m ! i) n c"
    using assms(2) Some by (simp add: current_def is_expected_def)
  ultimately show ?thesis using Some by (simp add: lookup_entry_def Let_def)
qed

section \<open>Starting again over a loaded manager\<close>

text \<open>What the loop over the directory makes of the entry of one name.\<close>

definition loaded :: "string \<Rightarrow> string \<Rightarrow> string \<Rightarrow> string \<Rightarrow> int \<Rightarrow> driver_entry" where
  "loaded dir f n c ts = (JDBCDriverEntry n c)\<lparr>first_access_ts := ts, location := dir @ CHR ''/'' # f,
     is_downloaded := True, is_available := True\<rparr>"

definition newer :: "string \<Rightarrow> string \<Rightarrow> string \<Rightarrow> driver_entry \<Rightarrow> driver_entry" where
  "newer dir n f e =
     (if loadable f
      then (case the (parse_opt f) of (n', c, ts) \<Rightarrow>
              (if n' = n \<and> ts > first_access_ts e then loaded dir f n c ts else e))
      else e)"

definition newest :: "string \<Rightarrow> string \<Rightarrow> string list \<Rightarrow> driver_entry \<Rightarrow> driver_entry" where
  "newest dir n fs e = fold (newer dir n) fs e"

definition known_files :: "manager \<Rightarrow> string list \<Rightarrow> bool" where
  "known_files m fs \<longleftrightarrow> (\<forall>f \<in> set fs. loadable f \<longrightarrow> current m (fst (the (parse_opt f))) \<noteq> None)"

lemma load_file_warm:
  assumes "map_wf m" "known_files m [f]" "t = driver_dir m @ CHR ''/'' # f"
    and "swept f \<longrightarrow> content (files m) t \<noteq> None \<and> \<not> denied env t"
  shows "\<exists>m'. load_file True env f m = (Val (), m') \<and> map_wf m' \<and> driver_dir m' = driver_dir m \<and>
    (\<forall>n. current m' n = map_option (newer (driver_dir m) n f) (current m n)) \<and>
    (\<forall>q. q \<noteq> t \<longrightarrow> map_of (files m') q = map_of (files m) q) \<and>
    ((\<exists>n e. current m n = Some e \<and> newer (driver_dir m) n f e \<noteq> e) \<longrightarrow> files m' = files m)"
proof (cases "loadable f")
  case False
  then have same: "newer dir n f = id" for dir n by (simp add: fun_eq_iff newer_def)
  show ?thesis
  proof (cases "swept f")
    case True
    then obtain x where "content (files m) t = Some x" "\<not> denied env t" using assms(4) by auto
    from deleteFile_regular[OF this] have "load_file True env f m = (Val (), m\<lparr>files := drop_path t (files m)\<rparr>)"
      using True False by (simp add: load_file_cases Let_def on_files_run assms(3))
    with assms(1) show ?thesis by (simp add: same map_wf_def current_def option.map_id)
  next
    case False
    then have "load_file True env f m = (Val (), m)" by (simp add: load_file_cases Let_def)
    with assms(1) show ?thesis by (simp add: same option.map_id)
  qed
next
  case True
  obtain n c ts where p: "the (parse_opt f) = (n, c, ts)" by (metis prod_cases3)
  with True assms(2) obtain i where i: "entry_map m n = Some i"
    by (auto simp: known_files_def current_def)
  have run: "load_file True env f m = load_jar True env t n c ts m"
    using True loadable_swept[OF True] p by (simp add: load_file_cases Let_def assms(3))
  have newer: "newer dir n' f e = (if n = n' \<and> ts > first_access_ts e then loaded dir f n c ts else e)" for dir n' e
    by (simp add: newer_def True p)
  show ?thesis
  proof (cases "ts > first_access_ts (entries m ! i)")
    case False
    obtain x where "content (files m) t = Some x" "\<not> denied env t"
      using assms(4) loadable_swept[OF True] by auto
    from deleteFile_regular[OF this] have "load_jar True env t n c ts m = (Val (), m\<lparr>files := drop_path t (files m)\<rparr>)"
      using False by (simp add: load_jar_def i on_files_run)
    moreover have "newer dir n' f e = e" if "current m n' = Some e" for dir n' e
      using that False i by (auto simp: newer current_def)
    moreover have "current (m\<lparr>files := d\<rparr>) n' = current m n'" for d n' by (simp add: current_def)
    moreover have "map_option (newer dir n' f) (current m n') = current m n'" for dir n'
      by (cases "current m n'") (simp_all add: calculation(2))
    ultimately show ?thesis using assms(1) by (auto simp: run map_wf_def)
  next
    case newer_ts: True
    let ?m1 = "update_entry i (\<lambda>e. e\<lparr>should_delete := True\<rparr>) m" and ?e = "JDBCDriverEntry n c"
    let ?j = "length (entries ?m1)" and ?new = "loaded (driver_dir m) f n c ts"
    let ?fill = "\<lambda>e. e\<lparr>first_access_ts := ts, location := t, is_downloaded := True, is_available := True\<rparr>"
    let ?m' = "publish n ?j (update_entry ?j ?fill (snd (make_shared ?e ?m1)))"
    have ran: "load_jar True env t n c ts m = (Val (), ?m')"
      by (simp add: load_jar_def i newer_ts make_shared_def fill_and_publish_def deref_entry_def run_simps)
    have m': "?m' = publish n ?j (snd (make_shared (?fill ?e) ?m1))"
      by (simp add: manager_ops nth_append list_update_append)
    have fill: "?fill ?e = ?new" by (simp add: loaded_def assms(3))
    have wf1: "map_wf ?m1" using assms(1) by (rule map_wf_update) simp
    have nm: "name ?new = n" by (simp add: loaded_def JDBCDriverEntry_def)
    have "map_wf ?m'" unfolding m' fill by (rule publish_new(2)[OF wf1 nm])
    moreover have "current ?m' = (current m)(n := Some ?new)"
      unfolding m' fill publish_new(3)[OF wf1 nm] using current_update[OF assms(1) i] by simp
    moreover have "(current m)(n := Some ?new) = (\<lambda>n'. map_option (newer (driver_dir m) n' f) (current m n'))"
    proof
      fix n'
      show "((current m)(n := Some ?new)) n' = map_option (newer (driver_dir m) n' f) (current m n')"
      proof (cases "n' = n")
        case True
        with i newer_ts show ?thesis by (simp add: current_def newer)
      next
        case False
        then show ?thesis by (cases "current m n'") (simp_all add: newer)
      qed
    qed
    moreover have "driver_dir ?m' = driver_dir m" "files ?m' = files m" by (simp_all add: manager_ops)
    ultimately show ?thesis by (intro exI[of _ ?m']) (simp add: run ran)
  qed
qed

lemma newest_Cons: "newest dir n (f # fs) e = newest dir n fs (newer dir n f e)"
  by (simp add: newest_def)

lemma newer_cases:
  "newer dir n f e = e \<or> (\<exists>c ts. loadable f \<and> parse_opt f = Some (n, c, ts) \<and> newer dir n f e = loaded dir f n c ts)"
  by (auto simp: newer_def loadable_def split: prod.split)

lemma newest_cases:
  "newest dir n fs e = e \<or>
   (\<exists>f \<in> set fs. \<exists>c ts. loadable f \<and> parse_opt f = Some (n, c, ts) \<and> newest dir n fs e = loaded dir f n c ts)"
proof (induction fs arbitrary: e)
  case (Cons f fs)
  from Cons.IH[of "newer dir n f e"] newer_cases[of dir n f e] show ?case
    by (auto simp: newest_Cons)
qed (simp add: newest_def)

lemma newer_ts:
  "first_access_ts e \<le> first_access_ts (newer dir n f e) \<and>
   (loadable f \<and> parse_opt f = Some (n, c, ts) \<longrightarrow> ts \<le> first_access_ts (newer dir n f e))"
  by (auto simp: newer_def loaded_def split: prod.split)

lemma newest_ts:
  "first_access_ts e \<le> first_access_ts (newest dir n fs e) \<and>
   (\<forall>f \<in> set fs. \<forall>c ts. loadable f \<and> parse_opt f = Some (n, c, ts) \<longrightarrow> ts \<le> first_access_ts (newest dir n fs e))"
proof (induction fs arbitrary: e)
  case (Cons f fs)
  from Cons.IH[of "newer dir n f e"] newer_ts[of e dir n f] show ?case
    unfolding newest_Cons by (auto intro: order_trans)
qed (simp add: newest_def)

lemma load_files_warm:
  assumes "map_wf m" "known_files m fs" "distinct fs" "dir = driver_dir m"
    and "\<forall>f \<in> set fs. swept f \<longrightarrow> content (files m) (dir @ CHR ''/'' # f) \<noteq> None \<and> \<not> denied env (dir @ CHR ''/'' # f)"
  shows "\<exists>m'. load_files True env fs m = (Val (), m') \<and> map_wf m' \<and> driver_dir m' = dir \<and>
    (\<forall>n. current m' n = map_option (newest dir n fs) (current m n)) \<and>
    (\<forall>q. (\<forall>f \<in> set fs. q \<noteq> dir @ CHR ''/'' # f) \<longrightarrow> map_of (files m') q = map_of (files m) q) \<and>
    (\<forall>n e. current m n = Some e \<longrightarrow> newest dir n fs e \<noteq> e \<longrightarrow>
       map_of (files m') (location (newest dir n fs e)) = map_of (files m) (location (newest dir n fs e)))"
  using assms
proof (induction fs arbitrary: m)
  case Nil
  then show ?case by (simp add: run_simps newest_def option.map_ident)
next
  case (Cons f fs)
  let ?t = "dir @ CHR ''/'' # f"
  have f: "known_files m [f]" "swept f \<longrightarrow> content (files m) ?t \<noteq> None \<and> \<not> denied env ?t"
    using Cons.prems by (auto simp: known_files_def)
  from load_file_warm[OF Cons.prems(1) f(1) _ f(2)] Cons.prems(4) obtain m1 where
    m1: "load_file True env f m = (Val (), m1)" "map_wf m1" "driver_dir m1 = dir"
      "\<And>n. current m1 n = map_option (newer dir n f) (current m n)"
      "\<And>q. q \<noteq> ?t \<Longrightarrow> map_of (files m1) q = map_of (files m) q"
      "\<And>n e. current m n = Some e \<Longrightarrow> newer dir n f e \<noteq> e \<Longrightarrow> files m1 = files m" by blast
  have kn: "known_files m1 fs"
    unfolding known_files_def m1(4) using Cons.prems(2) by (simp add: known_files_def)
  have "\<forall>g \<in> set fs. swept g \<longrightarrow> content (files m1) (dir @ CHR ''/'' # g) \<noteq> None \<and> \<not> denied env (dir @ CHR ''/'' # g)"
  proof
    fix g assume g: "g \<in> set fs"
    then have "dir @ CHR ''/'' # g \<noteq> ?t" using Cons.prems(3) by auto
    then have "content (files m1) (dir @ CHR ''/'' # g) = content (files m) (dir @ CHR ''/'' # g)"
      using m1(5) by (simp add: content_def)
    with Cons.prems(5) g show "swept g \<longrightarrow>
      content (files m1) (dir @ CHR ''/'' # g) \<noteq> None \<and> \<not> denied env (dir @ CHR ''/'' # g)" by simp
  qed
  from Cons.IH[OF m1(2) kn _ m1(3)[symmetric] this] Cons.prems(3) obtain m' where
    m': "load_files True env fs m1 = (Val (), m')" "map_wf m'" "driver_dir m' = dir"
      "\<And>n. current m' n = map_option (newest dir n fs) (current m1 n)"
      "\<And>q. \<forall>f \<in> set fs. q \<noteq> dir @ CHR ''/'' # f \<Longrightarrow> map_of (files m') q = map_of (files m1) q"
      "\<And>n e. current m1 n = Some e \<Longrightarrow> newest dir n fs e \<noteq> e \<Longrightarrow>
         map_of (files m') (location (newest dir n fs e)) = map_of (files m1) (location (newest dir n fs e))"
    by auto
  have cur: "current m' n = map_option (newest dir n (f # fs)) (current m n)" for n
    by (cases "current m n") (simp_all add: m'(4) m1(4) newest_Cons)
  have kept: "map_of (files m') (location (newest dir n (f # fs) e)) = map_of (files m) (location (newest dir n (f # fs) e))"
    if e: "current m n = Some e" and new: "newest dir n (f # fs) e \<noteq> e" for n e
  proof (cases "newest dir n fs (newer dir n f e) = newer dir n f e")
    case True
    with new have "newer dir n f e \<noteq> e" by (simp add: newest_Cons)
    with newer_cases[of dir n f e] have "location (newer dir n f e) = ?t" "files m1 = files m"
      using m1(6)[OF e] by (auto simp: loaded_def)
    moreover have "\<forall>g \<in> set fs. ?t \<noteq> dir @ CHR ''/'' # g" using Cons.prems(3) by auto
    ultimately show ?thesis using True m'(5)[of ?t] by (simp add: newest_Cons)
  next
    case False
    have "current m1 n = Some (newer dir n f e)" by (simp add: m1(4) e)
    note step = m'(6)[OF this False]
    from newest_cases[of dir n fs "newer dir n f e"] False obtain g c ts where
      "g \<in> set fs" "newest dir n fs (newer dir n f e) = loaded dir g n c ts" by blast
    then have "location (newest dir n fs (newer dir n f e)) \<noteq> ?t"
      using Cons.prems(3) by (auto simp: loaded_def)
    with step m1(5) show ?thesis by (simp add: newest_Cons)
  qed
  have other: "map_of (files m') q = map_of (files m) q" if "\<forall>g \<in> set (f # fs). q \<noteq> dir @ CHR ''/'' # g" for q
    using that m'(5)[of q] m1(5)[of q] by simp
  show ?case
    using m1(1) m'(1,2,3) cur kept other by (intro exI[of _ m']) (simp add: run_simps)
qed


definition warm_disk :: fs where
  "warm_disk = [(''/l'', Directory), (''/l/my_sql_a_3.jar'', Regular []), (''/l/my_sql_b_9.jar'', Regular []),
     (''/l/my_sql_c_4.jar'', Regular [])]"

definition warm_manager :: manager where
  "warm_manager = \<lparr>driver_dir = ''/l'', entries = [JDBCDriverEntry ''my_sql'' ''z''\<lparr>first_access_ts := 5\<rparr>],
     entry_map = [''my_sql'' \<mapsto> 0], files = warm_disk\<rparr>"


text \<open>
  The abstract cache: a map from names to a checksum and a location. A request for what the cache
  holds is answered from it; any other request replaces the binding.
\<close>

type_synonym cache = "string \<Rightarrow> (string \<times> string) option"

definition cache_of :: "manager \<Rightarrow> cache" where
  "cache_of m n = map_option (\<lambda>e. (checksum e, location e)) (current m n)"

definition cache_get :: "string \<Rightarrow> string \<Rightarrow> string \<Rightarrow> cache \<Rightarrow> string \<times> bool \<times> cache" where
  "cache_get fresh n c k =
     (case k n of
        Some (c', loc) \<Rightarrow> (if c' = c then (loc, False, k) else (fresh, True, k(n \<mapsto> (c, fresh))))
      | None \<Rightarrow> (fresh, True, k(n \<mapsto> (c, fresh))))"

lemma cache_get_holds: "cache_get f n c k = (loc, miss, k') \<Longrightarrow> k' n = Some (c, loc)"
  by (auto simp: cache_get_def split: option.splits if_splits)

lemma cache_get_other:
  "cache_get f n c k = (loc, miss, k') \<Longrightarrow> n' \<noteq> n \<or> k n = Some (c, l) \<Longrightarrow> k' n' = k n'"
  by (auto simp: cache_get_def split: option.splits if_splits)

definition tmp_location :: "manager \<Rightarrow> string \<Rightarrow> string \<Rightarrow> string" where
  "tmp_location m n c = driver_dir m @ CHR ''/'' # n @ CHR ''_'' # c @ ''.tmp''"

lemma get_hit:
  assumes "current m n = Some e" "checksum e = c" "is_available e" "map_wf m"
  shows "get_driver_location ext env now n url c m = ((OK, location e), m)"
  using lookup_hit[OF assms, of now] by (auto simp: get_driver_location_def)

lemma get_miss:
  assumes "map_wf m" "case current m n of None \<Rightarrow> True | Some e \<Rightarrow> checksum e \<noteq> c"
  shows "\<exists>m'. get_driver_location ext env now n url c m = ((OK, generate_driver_location m n c now), m') \<and>
    map_wf m' \<and> driver_dir m' = driver_dir m \<and>
    files m' = snd (download ext env url (tmp_location m n c) (generate_driver_location m n c now) c (files m)) \<and>
    current m' = (current m)(n := Some \<lparr>name = n, checksum = c, first_access_ts = now,
       location = generate_driver_location m n c now, is_available = True, should_delete = False,
       is_downloaded = True\<rparr>)"
proof -
  let ?loc = "generate_driver_location m n c now"
  let ?e = "(JDBCDriverEntry n c)\<lparr>first_access_ts := now, location := ?loc\<rparr>"
  from lookup_miss[OF assms, of now] obtain i m1 where
    l: "lookup_entry now n c m = ((i, None), m1)" "map_wf m1" "driver_dir m1 = driver_dir m"
       "files m1 = files m" "entry_map m1 n = Some i" "current m1 = (current m)(n := Some ?e)" by blast
  have e: "entries m1 ! i = ?e" using l(5,6) by (simp add: current_def fun_eq_iff split: if_splits)
  let ?d = "snd (download ext env url (tmp_location m n c) ?loc c (files m))"
  let ?up = "\<lambda>e. e\<lparr>is_downloaded := True, is_available := True\<rparr>"
  let ?m2 = "update_entry i ?up (m1\<lparr>files := ?d\<rparr>)"
  have tmp: "tmp_file_of m1 ?e = tmp_location m n c"
    by (simp add: tmp_file_of_def tmp_location_def l(3) JDBCDriverEntry_def)
  have dl: "download_driver ext env url i m1 = (OK, ?m2)"
    unfolding download_driver_def Let_def e tmp
    by (simp add: l(4) JDBCDriverEntry_def split: prod.splits)
  have wf1: "map_wf (m1\<lparr>files := ?d\<rparr>)" "entry_map (m1\<lparr>files := ?d\<rparr>) n = Some i"
    using l(2,5) by (simp_all add: map_wf_def)
  have cur: "current ?m2 = (current m)(n := Some (?up ?e))"
    using current_update[OF wf1, of ?up] l(6) e
    by (simp add: current_def fun_eq_iff)
  have "location (entries ?m2 ! i) = ?loc"
    using map_wfD[OF l(2,5)] e by (simp add: update_entry_def)
  with l(1) dl have "get_driver_location ext env now n url c m = ((OK, ?loc), ?m2)"
    by (simp add: get_driver_location_def)
  moreover have "map_wf ?m2" using wf1(1) by (rule map_wf_update) simp
  moreover have "driver_dir ?m2 = driver_dir m" "files ?m2 = ?d" by (simp_all add: update_entry_def l(3))
  ultimately show ?thesis using cur by (simp add: JDBCDriverEntry_def)
qed

lemma get_driver_location_refines:
  assumes "mgr_ok m" "get_driver_location ext env now n url c m = ((st, loc), m')"
  shows "\<exists>miss. cache_get (generate_driver_location m n c now) n c (cache_of m) = (loc, miss, cache_of m') \<and>
    st = OK \<and> mgr_ok m' \<and> driver_dir m' = driver_dir m \<and>
    files m' = (if miss then snd (download ext env url (tmp_location m n c) loc c (files m)) else files m)"
proof (cases "\<exists>e. current m n = Some e \<and> checksum e = c")
  case True
  then obtain e where e: "current m n = Some e" "checksum e = c" by blast
  have av: "map_wf m" "is_available e" using assms(1) e(1) by (auto simp: mgr_ok_def)
  from get_hit[OF e av(2,1), of ext env now url] assms(2) have "st = OK" "loc = location e" "m' = m" by simp_all
  with e assms(1) show ?thesis by (intro exI[of _ False]) (simp add: cache_get_def cache_of_def)
next
  case False
  then have "case current m n of None \<Rightarrow> True | Some e \<Rightarrow> checksum e \<noteq> c" by (auto split: option.split)
  with assms(1) have "map_wf m" by (simp add: mgr_ok_def)
  from get_miss[OF this \<open>case current m n of None \<Rightarrow> True | Some e \<Rightarrow> checksum e \<noteq> c\<close>, of ext env now url] assms(2)
  have r: "st = OK" "loc = generate_driver_location m n c now" "map_wf m'" "driver_dir m' = driver_dir m"
    "files m' = snd (download ext env url (tmp_location m n c) loc c (files m))"
    and cur: "current m' = (current m)(n := Some \<lparr>name = n, checksum = c, first_access_ts = now,
       location = loc, is_available = True, should_delete = False, is_downloaded = True\<rparr>)" by auto
  have "cache_of m' = (cache_of m)(n \<mapsto> (c, loc))" by (rule ext) (simp add: cache_of_def cur)
  moreover have "mgr_ok m'" using assms(1) r(3) by (auto simp: mgr_ok_def cur split: if_splits)
  ultimately show ?thesis using False r
    by (auto simp: cache_get_def cache_of_def split: option.split)
qed

text \<open>C1. The manager implements the abstract cache: on a state where every known driver is marked
  available, a request says OK, answers with the location the cache gives, leaves the cache the
  specification leaves, downloads exactly on a miss (a new name or another checksum), and such a
  state results again.\<close>

theorem get_driver_location_refines_cache:
  assumes "mgr_ok m" "get_driver_location ext env now n url c m = ((st, loc), m')"
  shows "\<exists>miss. cache_get (generate_driver_location m n c now) n c (cache_of m) = (loc, miss, cache_of m') \<and>
    st = OK \<and> mgr_ok m' \<and> driver_dir m' = driver_dir m \<and>
    files m' = (if miss then snd (download ext env url (tmp_location m n c) loc c (files m)) else files m)"
  by (rule get_driver_location_refines[OF assms])

text \<open>The contract of a memo table: an answer is kept until a request replaces it.\<close>

locale memo =
  fixes request :: "'q \<Rightarrow> 's \<Rightarrow> 'r \<times> 's" and inv :: "'s \<Rightarrow> bool" and hit :: "'q \<Rightarrow> 'r \<Rightarrow> 's \<Rightarrow> bool"
    and same :: "'q \<Rightarrow> 'q \<Rightarrow> bool" and replaces :: "'q \<Rightarrow> 'q \<Rightarrow> bool"
  assumes inv_request: "inv s \<Longrightarrow> inv (snd (request q s))"
    and request_hit: "inv s \<Longrightarrow> hit q (fst (request q s)) (snd (request q s))"
    and hit_frame: "inv s \<Longrightarrow> hit q r s \<Longrightarrow> \<not> replaces q' q \<Longrightarrow> hit q r (snd (request q' s))"
    and hit_same: "inv s \<Longrightarrow> hit q r s \<Longrightarrow> same q q' \<Longrightarrow> request q' s = (r, s)"
begin

lemma inv_run: "inv s \<Longrightarrow> inv (fold (\<lambda>q s. snd (request q s)) qs s)"
  by (induction qs arbitrary: s) (simp_all add: inv_request)

lemma hit_run:
  "inv s \<Longrightarrow> hit q r s \<Longrightarrow> \<forall>q' \<in> set qs. \<not> replaces q' q \<Longrightarrow> hit q r (fold (\<lambda>q s. snd (request q s)) qs s)"
  by (induction qs arbitrary: s) (simp_all add: inv_request hit_frame)

lemma answer_kept:
  assumes "inv s" "request q s = (r, s1)" "\<forall>q' \<in> set qs. \<not> replaces q' q" "same q q2"
  shows "request q2 (fold (\<lambda>q s. snd (request q s)) qs s1) = (r, fold (\<lambda>q s. snd (request q s)) qs s1)"
proof -
  have "inv s1" "hit q r s1" using inv_request[OF assms(1), of q] request_hit[OF assms(1), of q] assms(2) by simp_all
  with hit_run inv_run assms(3,4) show ?thesis by (intro hit_same[of _ q]) blast+
qed

end

type_synonym request = "int \<times> string \<times> string \<times> string"

definition serve :: "'c ext_libs \<Rightarrow> os_env \<Rightarrow> request \<Rightarrow> manager \<Rightarrow> (status \<times> string) \<times> manager" where
  "serve ext env q m = (case q of (now, n, url, c) \<Rightarrow> get_driver_location ext env now n url c m)"

definition run_requests :: "'c ext_libs \<Rightarrow> os_env \<Rightarrow> request list \<Rightarrow> manager \<Rightarrow> manager" where
  "run_requests ext env qs m = fold (\<lambda>q m. snd (serve ext env q m)) qs m"

definition same_driver :: "request \<Rightarrow> request \<Rightarrow> bool" where
  "same_driver = (\<lambda>(_, n, _, c) (_, n', _, c'). n = n' \<and> c = c')"

definition other_version :: "request \<Rightarrow> request \<Rightarrow> bool" where
  "other_version = (\<lambda>(_, n', _, c') (_, n, _, c). n' = n \<and> c' \<noteq> c)"

definition cached :: "request \<Rightarrow> status \<times> string \<Rightarrow> manager \<Rightarrow> bool" where
  "cached = (\<lambda>(_, n, _, c) (st, loc) m. st = OK \<and> cache_of m n = Some (c, loc))"

lemma serve_cache:
  assumes "mgr_ok m"
  shows "mgr_ok (snd (serve ext env (now, n, url, c) m))" (is ?inv)
    and "cached (now, n, url, c) (fst (serve ext env (now, n, url, c) m)) (snd (serve ext env (now, n, url, c) m))"
    (is ?hit)
    and "n' \<noteq> n \<or> cache_of m n = Some (c, loc') \<Longrightarrow>
      cache_of (snd (serve ext env (now, n, url, c) m)) n' = cache_of m n'"
    and "cache_of m n = Some (c, loc') \<Longrightarrow> serve ext env (now, n, url, c) m = ((OK, loc'), m)"
proof -
  obtain st loc m' where r: "get_driver_location ext env now n url c m = ((st, loc), m')"
    by (metis prod.collapse)
  from get_driver_location_refines[OF assms r] obtain miss where
    g: "cache_get (generate_driver_location m n c now) n c (cache_of m) = (loc, miss, cache_of m')"
    "st = OK" "mgr_ok m'" by blast
  with cache_get_holds[OF g(1)] show ?inv ?hit by (simp_all add: serve_def r cached_def)
  show "cache_of (snd (serve ext env (now, n, url, c) m)) n' = cache_of m n'"
    if "n' \<noteq> n \<or> cache_of m n = Some (c, loc')"
    using cache_get_other[OF g(1) that] by (simp add: serve_def r)
  show "serve ext env (now, n, url, c) m = ((OK, loc'), m)" if "cache_of m n = Some (c, loc')"
  proof -
    from that obtain e where e: "current m n = Some e" "checksum e = c" "location e = loc'"
      by (auto simp: cache_of_def)
    with assms have "map_wf m" "is_available e" by (auto simp: mgr_ok_def)
    with get_hit[OF e(1,2)] e(3) show ?thesis by (simp add: serve_def)
  qed
qed

interpretation drivers: memo "serve ext env" mgr_ok cached same_driver other_version
  for ext :: "'c ext_libs" and env
proof unfold_locales
  fix m :: manager and q q' :: request and r
  obtain now n url c where q: "q = (now, n, url, c)" by (metis prod_cases4)
  obtain now' n' url' c' where q': "q' = (now', n', url', c')" by (metis prod_cases4)
  assume ok: "mgr_ok m"
  show "mgr_ok (snd (serve ext env q m))" "cached q (fst (serve ext env q m)) (snd (serve ext env q m))"
    unfolding q by (rule serve_cache[OF ok])+
  assume h: "cached q r m"
  then obtain loc where r: "r = (OK, loc)" "cache_of m n = Some (c, loc)" by (auto simp: cached_def q split: prod.splits)
  { assume "\<not> other_version q' q"
    then have "n \<noteq> n' \<or> cache_of m n' = Some (c', loc)" using r(2) by (auto simp: other_version_def q q')
    with serve_cache(3)[OF ok, of n n' c' loc ext env now' url'] r show "cached q r (snd (serve ext env q' m))"
      by (simp add: q q' cached_def)
  next
    assume "same_driver q q'"
    with serve_cache(4)[OF ok] r show "serve ext env q' m = (r, m)" by (simp add: q q' same_driver_def) }
qed

text \<open>C6. The location given out for a driver stays the answer for this name and checksum, without
  another download or any change of state, through any sequence of requests that does not ask for
  another checksum of the same name.\<close>

theorem driver_location_stable:
  assumes "mgr_ok m" "get_driver_location ext env now n url c m = ((st, loc), m1)"
    and "\<forall>(_, n', _, c') \<in> set qs. n' = n \<longrightarrow> c' = c"
  shows "get_driver_location ext env now2 n url2 c (run_requests ext env qs m1) =
    ((OK, loc), run_requests ext env qs m1)"
proof -
  have st: "st = OK" using get_driver_location_refines[OF assms(1,2)] by blast
  have "serve ext env (now, n, url, c) m = ((OK, loc), m1)" by (simp add: serve_def assms(2) st)
  moreover have "\<forall>q' \<in> set qs. \<not> other_version q' (now, n, url, c)"
    using assms(3) by (auto simp: other_version_def)
  moreover have "same_driver (now, n, url, c) (now2, n, url2, c)" by (simp add: same_driver_def)
  ultimately have "serve ext env (now2, n, url2, c) (run_requests ext env qs m1) =
      ((OK, loc), run_requests ext env qs m1)"
    unfolding run_requests_def by (rule drivers.answer_kept[OF assms(1)])
  then show ?thesis by (simp add: serve_def)
qed

lemma download_paths:
  assumes "curl_delivers (lib_curl ext) remote" "md5_streaming (lib_md5 ext) H"
    and "download ext env url tmp target expected d = (st, d')" "q \<noteq> tmp" "q \<noteq> target"
  shows "map_of d' q = map_of d q"
  using assms(1,2) refl[of "pieces_of ext remote url"]
proof (cases rule: download_cases[where env = env and d = d and tmp = tmp and target = target and expected = expected])
  case (rename d2 code d3)
  with rename_file_cases(2)[OF rename(6,4), of q] rename_file_cases(3)[OF rename(6,4)] rename(5)[OF assms(4)] assms(3,4,5)
  show ?thesis by (cases "code = 0") auto
qed (use assms(3,4) in auto)

lemma tmp_not_jar: "tmp_location m n c \<noteq> generate_driver_location m' n' c' now"
proof
  assume "tmp_location m n c = generate_driver_location m' n' c' now"
  then have "last (tmp_location m n c) = last (generate_driver_location m' n' c' now)" by simp
  then show False by (simp add: tmp_location_def generate_driver_location_def driver_file_def)
qed


text \<open>C25. A download that fails is not noticed: the request says OK and gives out a location where
  there is no file, and every later request for the driver gets the same answer from the cache
  without trying again.\<close>

theorem failed_download_is_served:
  assumes "curl_delivers (lib_curl ext) remote" "md5_streaming (lib_md5 ext) H" "mgr_ok m"
    and "cache_of m n = None" "loc = generate_driver_location m n c now"
    and "fst (download ext env url (tmp_location m n c) loc c (files m)) \<noteq> OK"
    and "map_of (files m) loc = None"
  shows "\<exists>m'. get_driver_location ext env now n url c m = ((OK, loc), m') \<and>
    map_of (files m') loc = None \<and>
    (\<forall>now2 url2. get_driver_location ext env now2 n url2 c m' = ((OK, loc), m'))"
proof -
  obtain st loc' m' where r: "get_driver_location ext env now n url c m = ((st, loc'), m')"
    by (metis prod.collapse)
  from get_driver_location_refines[OF assms(3) r] assms(4,5) have
    "st = OK" "loc' = loc" and f: "files m' = snd (download ext env url (tmp_location m n c) loc c (files m))"
    by (auto simp: cache_get_def)
  with r have r': "get_driver_location ext env now n url c m = ((OK, loc), m')" by simp
  have "loc \<noteq> tmp_location m n c" using tmp_not_jar[of m n c] assms(5) by metis
  from download_error_paths[OF assms(1,2) surjective_pairing assms(6) this] f assms(7)
  have "map_of (files m') loc = None" by simp
  moreover have "get_driver_location ext env now2 n url2 c m' = ((OK, loc), m')" for now2 url2
  proof -
    have "mgr_ok m'" "cache_of m' n = Some (c, loc)"
      using drivers.inv_request[OF assms(3), of ext env "(now, n, url, c)"]
        drivers.request_hit[OF assms(3), of "(now, n, url, c)" ext env]
      by (simp_all add: serve_def r' cached_def)
    from serve_cache(4)[OF this, of ext env now2 url2] show ?thesis by (simp add: serve_def)
  qed
  ultimately show ?thesis using r' by blast
qed

section \<open>Example requests\<close>

definition start :: manager where
  "start = (JDBCDriverManager example_disk)\<lparr>driver_dir := ''/l''\<rparr>"

lemma start_ok [simp]: "mgr_ok start" "cache_of start n = None" "files start = example_disk"
  by (simp_all add: start_def JDBCDriverManager_def mgr_ok_def map_wf_def current_def cache_of_def)

lemma to_string_5 [simp]: "to_string 5 = ''5''"
  by code_simp

lemma start_location [simp]:
  "generate_driver_location start ''my'' c 5 = ''/l/my_'' @ c @ ''_5.jar''"
  "tmp_location start ''my'' c = ''/l/my_'' @ c @ ''.tmp''"
  by (simp_all add: start_def JDBCDriverManager_def generate_driver_location_def tmp_location_def
      driver_file_def)

lemma start_open: "can_open_w roomy_os example_disk (''/l/my_'' @ c @ s)"
    if "CHR ''/'' \<notin> set (c @ s)"
proof -
  have "parent_path (''/l'' @ CHR ''/'' # ''my_'' @ c @ s) = ''/l''"
    using that by (intro parent_path_append) auto
  then show ?thesis by (simp add: can_open_w_def is_dir_def roomy_os_def example_disk_def)
qed

definition first_request :: "string list \<Rightarrow> string \<Rightarrow> (status \<times> string) \<times> manager" where
  "first_request pieces c = get_driver_location (example_ext pieces) roomy_os 5 ''my'' ''u'' c start"

lemma first_request_run:
  "\<exists>m'. first_request pieces c = ((OK, ''/l/my_'' @ c @ ''_5.jar''), m')"
proof -
  obtain st loc m' where r: "first_request pieces c = ((st, loc), m')" by (metis prod.collapse)
  from get_driver_location_refines[OF start_ok(1) r[unfolded first_request_def]] r show ?thesis
    by (auto simp: cache_get_def)
qed

theorem get_driver_location_refines_cache_witness:
  "\<exists>m'. first_request [''ab''] ''k'' = ((OK, ''/l/my_k_5.jar''), m') \<and>
     cache_of m' ''my'' = Some (''k'', ''/l/my_k_5.jar'')"
proof -
  obtain m' where r: "first_request [''ab''] ''k'' = ((OK, ''/l/my_'' @ ''k'' @ ''_5.jar''), m')"
    using first_request_run by blast
  from get_driver_location_refines_cache[OF start_ok(1) r[unfolded first_request_def]] obtain miss where
    "cache_get (generate_driver_location start ''my'' ''k'' 5) ''my'' ''k'' (cache_of start) =
      (''/l/my_'' @ ''k'' @ ''_5.jar'', miss, cache_of m')" by blast
  from cache_get_holds[OF this] r show ?thesis by simp
qed

theorem driver_location_stable_witness:
  "\<exists>m'. first_request [''ab''] ''k'' = ((OK, ''/l/my_k_5.jar''), m') \<and>
     (let m2 = run_requests (example_ext [''ab'']) roomy_os [(6, ''pg'', ''w'', ''h''), (7, ''my'', ''w'', ''k'')] m'
      in get_driver_location (example_ext [''ab'']) roomy_os 8 ''my'' ''v'' ''k'' m2 = ((OK, ''/l/my_k_5.jar''), m2))"
proof -
  obtain m' where r: "first_request [''ab''] ''k'' = ((OK, ''/l/my_'' @ ''k'' @ ''_5.jar''), m')"
    using first_request_run by blast
  from driver_location_stable[OF start_ok(1) r[unfolded first_request_def],
      of "[(6, ''pg'', ''w'', ''h''), (7, ''my'', ''w'', ''k'')]" 8 "''v''"] r
  show ?thesis by (simp add: Let_def)
qed


theorem failed_download_is_served_witness:
  "\<exists>m'. first_request [''ab''] ''beef'' = ((OK, ''/l/my_beef_5.jar''), m') \<and>
     map_of (files m') ''/l/my_beef_5.jar'' = None"
proof -
  let ?e = "example_ext [''ab'']"
  have "\<not> ok (fst (download ?e roomy_os ''u'' ''/l/my_beef.tmp'' ''/l/my_beef_5.jar'' ''beef'' example_disk))"
  proof (subst download_ok_conditions[OF example_delivers example_md5])
    have "hex_loop (length_hash ''ab'') \<noteq> ''beef''"
      by (simp add: length_hash_def dec_digits.simps numeral_eq_Suc dig_vec_lower_def)
    then show "\<not> (can_open_w roomy_os example_disk ''/l/my_beef.tmp'' \<and>
        all_stored roomy_os [] (pieces_of ?e (\<lambda>_. ([''ab''], 0)) ''u'') \<and>
        iequals ?e (hex_loop (length_hash (concat (pieces_of ?e (\<lambda>_. ([''ab''], 0)) ''u'')))) ''beef'' \<and>
        can_open_w roomy_os example_disk ''/l/my_beef_5.jar'')"
      by (simp del: concat.simps) (simp add: example_ext_def)
  qed simp_all
  then have "fst (download ?e roomy_os ''u'' (tmp_location start ''my'' ''beef'') ''/l/my_beef_5.jar''
      ''beef'' (files start)) \<noteq> OK" by (auto simp: ok_def)
  then obtain m' where "get_driver_location ?e roomy_os 5 ''my'' ''u'' ''beef'' start = ((OK, ''/l/my_beef_5.jar''), m')"
    "map_of (files m') ''/l/my_beef_5.jar'' = None"
    using failed_download_is_served[OF example_delivers example_md5 start_ok(1,2), of "[''ab'']"
        "''/l/my_beef_5.jar''" "''my''" "''beef''" 5 roomy_os "''u''"]
    by (auto simp: example_disk_def)
  then show ?thesis by (auto simp: first_request_def)
qed

end
