(* ===== verification/Driver_Concurrency.thy ===== *)
theory Driver_Concurrency
  imports Driver_Manager
begin

text \<open>
  \<open>JDBCDriverManager::get\_driver\_location\<close> called by several threads. The block under \<open>\_lock\<close> is
  one step; the download of an entry is taken apart along \<open>download\_lock\<close>: waiting for it, the
  check of \<open>is\_downloaded\<close>, the transfer, the two stores that mark the entry, the release.
\<close>

section \<open>Threads and steps\<close>

datatype pc =
    Idle
  | Wait nat       \<comment> \<open>at the lock of an entry, line 171\<close>
  | Locked nat     \<comment> \<open>has the lock, before the check, line 172\<close>
  | Fetching nat   \<comment> \<open>inside \<open>DownloadUtil::download\<close>, line 179\<close>
  | Fetched nat    \<comment> \<open>\<open>is\_downloaded\<close> stored, line 180\<close>
  | Stored nat     \<comment> \<open>\<open>is\_available\<close> stored, line 181\<close>
  | Served nat     \<comment> \<open>returned\<close>

record sys =
  mgr :: manager
  owner :: "nat \<Rightarrow> nat option"    \<comment> \<open>the thread that holds the download lock of an entry\<close>
  pcs :: "nat \<Rightarrow> pc"
  fetches :: "nat list"             \<comment> \<open>the entries whose transfer has been started, in this order\<close>

definition mark_downloaded :: "nat \<Rightarrow> manager \<Rightarrow> manager" where
  "mark_downloaded i m = update_entry i (\<lambda>e. e\<lparr>is_downloaded := True\<rparr>) m"

definition mark_available :: "nat \<Rightarrow> manager \<Rightarrow> manager" where
  "mark_available i m = update_entry i (\<lambda>e. e\<lparr>is_available := True\<rparr>) m"

text \<open>Thread \<open>t\<close> asks for the name and checksum \<open>req t\<close>.\<close>

inductive step :: "(nat \<Rightarrow> string \<times> string) \<Rightarrow> sys \<Rightarrow> sys \<Rightarrow> bool" for req where
  lookup: "pcs s t = Idle \<Longrightarrow> req t = (n, c) \<Longrightarrow> lookup_entry now n c (mgr s) = ((i, ans), m) \<Longrightarrow>
     step req s (s\<lparr>mgr := m, pcs := (pcs s)(t := (if ans = None then Wait i else Served i))\<rparr>)"
| acquire: "pcs s t = Wait i \<Longrightarrow> owner s i = None \<Longrightarrow>
     step req s (s\<lparr>owner := (owner s)(i := Some t), pcs := (pcs s)(t := Locked i)\<rparr>)"
| already: "pcs s t = Locked i \<Longrightarrow> is_downloaded (entries (mgr s) ! i) \<Longrightarrow>
     step req s (s\<lparr>owner := (owner s)(i := None), pcs := (pcs s)(t := Served i)\<rparr>)"
| fetch: "pcs s t = Locked i \<Longrightarrow> \<not> is_downloaded (entries (mgr s) ! i) \<Longrightarrow>
     step req s (s\<lparr>pcs := (pcs s)(t := Fetching i), fetches := fetches s @ [i]\<rparr>)"
| fetched: "pcs s t = Fetching i \<Longrightarrow>
     step req s (s\<lparr>mgr := mark_downloaded i ((mgr s)\<lparr>files := d\<rparr>), pcs := (pcs s)(t := Fetched i)\<rparr>)"
| store: "pcs s t = Fetched i \<Longrightarrow>
     step req s (s\<lparr>mgr := mark_available i (mgr s), pcs := (pcs s)(t := Stored i)\<rparr>)"
| release: "pcs s t = Stored i \<Longrightarrow>
     step req s (s\<lparr>owner := (owner s)(i := None), pcs := (pcs s)(t := Served i)\<rparr>)"

definition initial :: "manager \<Rightarrow> sys" where
  "initial m = \<lparr>mgr = m, owner = (\<lambda>_. None), pcs = (\<lambda>_. Idle), fetches = []\<rparr>"

inductive reach :: "(nat \<Rightarrow> string \<times> string) \<Rightarrow> manager \<Rightarrow> sys \<Rightarrow> bool" for req m where
  start: "reach req m (initial m)"
| more: "reach req m s \<Longrightarrow> step req s s' \<Longrightarrow> reach req m s'"

inductive_cases stepE: "step req s s'"

section \<open>The invariant\<close>

fun target :: "pc \<Rightarrow> nat option" where
  "target Idle = None"
| "target (Wait i) = Some i"
| "target (Locked i) = Some i"
| "target (Fetching i) = Some i"
| "target (Fetched i) = Some i"
| "target (Stored i) = Some i"
| "target (Served i) = Some i"

fun holds :: "pc \<Rightarrow> nat option" where
  "holds (Locked i) = Some i"
| "holds (Fetching i) = Some i"
| "holds (Fetched i) = Some i"
| "holds (Stored i) = Some i"
| "holds _ = None"

lemma holds_target: "holds p = Some i \<Longrightarrow> target p = Some i"
  by (cases p) auto

text \<open>Where the thread that holds the lock of an entry is.\<close>

definition phase :: "sys \<Rightarrow> nat \<Rightarrow> pc" where
  "phase s i = (case owner s i of None \<Rightarrow> Idle | Some t \<Rightarrow> pcs s t)"

definition entry_inv :: "sys \<Rightarrow> nat \<Rightarrow> bool" where
  "entry_inv s i \<longleftrightarrow>
     (let e = entries (mgr s) ! i
      in (is_available e \<longrightarrow> is_downloaded e) \<and>
         (is_downloaded e \<longrightarrow> is_available e \<or> phase s i = Fetched i) \<and>
         (i \<in> set (fetches s) \<longrightarrow> is_downloaded e \<or> phase s i = Fetching i))"

definition thread_inv :: "(nat \<Rightarrow> string \<times> string) \<Rightarrow> sys \<Rightarrow> nat \<Rightarrow> bool" where
  "thread_inv req s t \<longleftrightarrow>
     (\<forall>i. (target (pcs s t) = Some i \<longrightarrow> i < length (entries (mgr s)) \<and>
             is_expected (entries (mgr s) ! i) (fst (req t)) (snd (req t))) \<and>
          (owner s i = Some t \<longleftrightarrow> holds (pcs s t) = Some i) \<and>
          (pcs s t = Fetching i \<longrightarrow> \<not> is_downloaded (entries (mgr s) ! i)) \<and>
          (pcs s t = Fetched i \<longrightarrow> is_downloaded (entries (mgr s) ! i)) \<and>
          (pcs s t = Stored i \<or> pcs s t = Served i \<longrightarrow> is_available (entries (mgr s) ! i)))"

definition conc_inv :: "(nat \<Rightarrow> string \<times> string) \<Rightarrow> sys \<Rightarrow> bool" where
  "conc_inv req s \<longleftrightarrow> map_wf (mgr s) \<and> distinct (fetches s) \<and>
     (\<forall>i \<in> set (fetches s). i < length (entries (mgr s))) \<and>
     (\<forall>i < length (entries (mgr s)). entry_inv s i) \<and> (\<forall>t. thread_inv req s t)"

text \<open>What a lookup may do to the entries that exist: mark one of them, and add a new one.\<close>

definition same_entry :: "driver_entry \<Rightarrow> driver_entry \<Rightarrow> bool" where
  "same_entry e e' \<longleftrightarrow> name e' = name e \<and> checksum e' = checksum e \<and> location e' = location e \<and>
     is_available e' = is_available e \<and> is_downloaded e' = is_downloaded e"

definition extends :: "manager \<Rightarrow> manager \<Rightarrow> bool" where
  "extends m m' \<longleftrightarrow> length (entries m) \<le> length (entries m') \<and>
     (\<forall>j < length (entries m). same_entry (entries m ! j) (entries m' ! j)) \<and>
     (\<forall>j. length (entries m) \<le> j \<longrightarrow> j < length (entries m') \<longrightarrow>
        \<not> is_available (entries m' ! j) \<and> \<not> is_downloaded (entries m' ! j))"

lemma same_entry_refl [simp]: "same_entry e e" "same_entry e (e\<lparr>should_delete := b\<rparr>)"
  by (simp_all add: same_entry_def)

lemma extends_refl [simp]: "extends m m"
  by (simp add: extends_def)

lemma create_entry_extends:
  assumes "map_wf m" "create_entry now n c m = (i, m')"
  shows "map_wf m' \<and> extends m m' \<and> i < length (entries m') \<and> is_expected (entries m' ! i) n c \<and>
    \<not> is_available (entries m' ! i)"
proof -
  have "map_wf m'" using create_entry_effect[OF assms(1), of now n c] assms(2) by auto
  then show ?thesis using assms(2)
    by (auto simp: create_entry_def manager_ops extends_def JDBCDriverEntry_def nth_append is_expected_def
        less_Suc_eq)
qed

lemma extends_mark: "extends (update_entry i (\<lambda>e. e\<lparr>should_delete := b\<rparr>) m) m' \<Longrightarrow> extends m m'"
proof -
  have "same_entry (entries m ! j) ((entries m)[i := (entries m ! i)\<lparr>should_delete := b\<rparr>] ! j)"
    if "j < length (entries m)" for j
    using that by (cases "i = j") simp_all
  then show "extends (update_entry i (\<lambda>e. e\<lparr>should_delete := b\<rparr>) m) m' \<Longrightarrow> extends m m'"
    by (auto simp: extends_def update_entry_def same_entry_def)
qed

lemma lookup_extends:
  assumes "map_wf m" "lookup_entry now n c m = ((i, ans), m')"
  shows "map_wf m' \<and> extends m m' \<and> i < length (entries m') \<and> is_expected (entries m' ! i) n c \<and>
    (ans \<noteq> None \<longleftrightarrow> is_available (entries m' ! i))"
proof (cases "entry_map m n")
  case None
  obtain j m1 where c: "create_entry now n c m = (j, m1)" by fastforce
  from create_entry_extends[OF assms(1) this] assms(2) show ?thesis
    by (auto simp: lookup_entry_def None c)
next
  case (Some k)
  let ?m1 = "update_entry k (\<lambda>e. e\<lparr>should_delete := True\<rparr>) m"
  have wf: "map_wf ?m1" using assms(1) by (rule map_wf_update) simp
  obtain j m2 where c: "create_entry now n c ?m1 = (j, m2)" by fastforce
  from create_entry_extends[OF wf c] extends_mark[of k True m m2] map_wfD[OF assms(1) Some] assms
  show ?thesis by (auto simp: lookup_entry_def Some c Let_def split: if_splits)
qed

section \<open>Every step keeps the invariant\<close>

lemma conc_invD:
  assumes "conc_inv req s"
  shows "map_wf (mgr s)" "distinct (fetches s)"
    "\<And>j. j \<in> set (fetches s) \<Longrightarrow> j < length (entries (mgr s))"
    "\<And>j. j < length (entries (mgr s)) \<Longrightarrow> entry_inv s j" "\<And>u. thread_inv req s u"
  using assms by (auto simp: conc_inv_def)

lemma conc_invI:
  assumes "map_wf (mgr s)" "distinct (fetches s)"
    "\<And>j. j \<in> set (fetches s) \<Longrightarrow> j < length (entries (mgr s))"
    "\<And>j. j < length (entries (mgr s)) \<Longrightarrow> entry_inv s j" "\<And>u. thread_inv req s u"
  shows "conc_inv req s"
  using assms by (auto simp: conc_inv_def)

lemma thread_owner: "thread_inv req s t \<Longrightarrow> owner s i = Some t \<longleftrightarrow> holds (pcs s t) = Some i"
  by (simp add: thread_inv_def)

text \<open>A thread that holds no lock does not show in any phase; one that holds a lock shows in its own.\<close>

lemma phase_free: "thread_inv req s t \<Longrightarrow> holds (pcs s t) = None \<Longrightarrow>
    phase (s\<lparr>mgr := m, pcs := (pcs s)(t := p)\<rparr>) j = phase s j"
  by (auto simp: phase_def thread_inv_def split: option.split)

lemma phase_holder:
  assumes "thread_inv req s t" "holds (pcs s t) = Some i"
  shows "phase s i = pcs s t"
    and "phase (s\<lparr>mgr := m, pcs := (pcs s)(t := p), fetches := fs\<rparr>) j = (if j = i then p else phase s j)"
proof -
  have own: "owner s j = Some t \<longleftrightarrow> j = i" for j using assms by (auto simp: thread_inv_def)
  show "phase s i = pcs s t" using own[of i] by (simp add: phase_def)
  show "phase (s\<lparr>mgr := m, pcs := (pcs s)(t := p), fetches := fs\<rparr>) j = (if j = i then p else phase s j)"
    using own[of j] by (auto simp: phase_def split: option.split)
qed

lemma conc_inv_lookup:
  assumes "conc_inv req s" "pcs s t = Idle" "req t = (n, c)"
    and "lookup_entry now n c (mgr s) = ((i, ans), m)"
  shows "conc_inv req (s\<lparr>mgr := m, pcs := (pcs s)(t := (if ans = None then Wait i else Served i))\<rparr>)"
    (is "conc_inv req ?s'")
proof (rule conc_invI)
  note inv = conc_invD[OF assms(1)]
  from lookup_extends[OF inv(1) assms(4)] have m: "map_wf m" "i < length (entries m)"
    "is_expected (entries m ! i) n c" "ans \<noteq> None \<longleftrightarrow> is_available (entries m ! i)"
    "length (entries (mgr s)) \<le> length (entries m)"
    and old: "\<And>j. j < length (entries (mgr s)) \<Longrightarrow> same_entry (entries (mgr s) ! j) (entries m ! j)"
    and new: "\<And>j. \<not> j < length (entries (mgr s)) \<Longrightarrow> j < length (entries m) \<Longrightarrow>
        \<not> is_available (entries m ! j) \<and> \<not> is_downloaded (entries m ! j)"
    by (auto simp: extends_def)
  show "map_wf (mgr ?s')" "distinct (fetches ?s')" using m(1) inv(2) by simp_all
  show "j < length (entries (mgr ?s'))" if "j \<in> set (fetches ?s')" for j
    using that inv(3)[of j] m(5) by simp
  show "entry_inv ?s' j" if j: "j < length (entries (mgr ?s'))" for j
  proof (cases "j < length (entries (mgr s))")
    case True
    have "phase ?s' j = phase s j" by (rule phase_free[OF inv(5)]) (simp add: assms(2))
    with inv(4)[OF True] old[OF True] show ?thesis
      by (simp add: entry_inv_def same_entry_def Let_def)
  next
    case False
    with new[of j] j inv(3)[of j] show ?thesis by (auto simp: entry_inv_def)
  qed
  show "thread_inv req ?s' u" for u
  proof (cases "u = t")
    case True
    with inv(5)[of t] assms(2,3) m show ?thesis by (auto simp: thread_inv_def)
  next
    case False
    with inv(5)[of u] m(5) old show ?thesis
      by (auto simp: thread_inv_def same_entry_def is_expected_def dest: order.strict_trans2)
  qed
qed

lemma conc_inv_acquire:
  assumes "conc_inv req s" "pcs s t = Wait i" "owner s i = None"
  shows "conc_inv req (s\<lparr>owner := (owner s)(i := Some t), pcs := (pcs s)(t := Locked i)\<rparr>)" (is "conc_inv req ?s'")
proof (rule conc_invI)
  note inv = conc_invD[OF assms(1)]
  show "map_wf (mgr ?s')" "distinct (fetches ?s')" using inv(1,2) by simp_all
  show "j \<in> set (fetches ?s') \<Longrightarrow> j < length (entries (mgr ?s'))" for j using inv(3) by simp
  have free: "owner s j \<noteq> Some t" for j using inv(5)[of t] assms(2) by (simp add: thread_inv_def)
  then have "phase ?s' j = (if j = i then Locked i else phase s j)" for j
    by (auto simp: phase_def split: option.split)
  then show "entry_inv ?s' j" if "j < length (entries (mgr ?s'))" for j
    using inv(4)[of j] that assms(3) by (auto simp: entry_inv_def phase_def Let_def)
  show "thread_inv req ?s' u" for u
  proof (cases "u = t")
    case True
    with inv(5)[of t] assms(2) show ?thesis by (auto simp: thread_inv_def)
  next
    case False
    have "holds (pcs s u) \<noteq> Some i" using thread_owner[OF inv(5), of i u] assms(3) by simp
    with inv(5)[of u] False show ?thesis by (auto simp: thread_inv_def)
  qed
qed

text \<open>The holder of a lock moves on, or leaves.\<close>

lemma conc_inv_leave:
  assumes "conc_inv req s" "holds (pcs s t) = Some i" "is_available (entries (mgr s) ! i)"
  shows "conc_inv req (s\<lparr>owner := (owner s)(i := None), pcs := (pcs s)(t := Served i)\<rparr>)" (is "conc_inv req ?s'")
proof (rule conc_invI)
  note inv = conc_invD[OF assms(1)]
  show "map_wf (mgr ?s')" "distinct (fetches ?s')" using inv(1,2) by simp_all
  show "j \<in> set (fetches ?s') \<Longrightarrow> j < length (entries (mgr ?s'))" for j using inv(3) by simp
  have own: "owner s j = Some t \<longleftrightarrow> j = i" for j using inv(5)[of t] assms(2) by (auto simp: thread_inv_def)
  then have ph: "j \<noteq> i \<Longrightarrow> phase ?s' j = phase s j" for j by (auto simp: phase_def split: option.split)
  show "entry_inv ?s' j" if "j < length (entries (mgr ?s'))" for j
    using inv(4)[of j] that ph[of j] assms(3) by (cases "j = i") (auto simp: entry_inv_def Let_def)
  show "thread_inv req ?s' u" for u
  proof (cases "u = t")
    case True
    with inv(5)[of t] assms(3) own holds_target[OF assms(2)] show ?thesis by (auto simp: thread_inv_def)
  next
    case False
    then have "holds (pcs s u) \<noteq> Some i" using thread_owner[OF inv(5), of i u] own[of i] by auto
    with inv(5)[of u] False show ?thesis by (auto simp: thread_inv_def)
  qed
qed

lemma conc_inv_fetch:
  assumes "conc_inv req s" "pcs s t = Locked i" "\<not> is_downloaded (entries (mgr s) ! i)"
  shows "conc_inv req (s\<lparr>pcs := (pcs s)(t := Fetching i), fetches := fetches s @ [i]\<rparr>)" (is "conc_inv req ?s'")
proof (rule conc_invI)
  note inv = conc_invD[OF assms(1)]
  have held: "holds (pcs s t) = Some i" by (simp add: assms(2))
  have i: "i < length (entries (mgr s))" using inv(5)[of t] assms(2) by (simp add: thread_inv_def)
  have "i \<notin> set (fetches s)"
    using inv(4)[OF i] phase_holder(1)[OF inv(5) held] assms(2,3) by (auto simp: entry_inv_def Let_def)
  then show "distinct (fetches ?s')" "map_wf (mgr ?s')" using inv(1,2) by simp_all
  show "j \<in> set (fetches ?s') \<Longrightarrow> j < length (entries (mgr ?s'))" for j using inv(3) i by auto
  have "phase ?s' j = (if j = i then Fetching i else phase s j)" for j
    using phase_holder(2)[OF inv(5) held, where m = "mgr s" and p = "Fetching i" and j = j] by simp
  then show "entry_inv ?s' j" if "j < length (entries (mgr ?s'))" for j
    using inv(4)[of j] that assms(3) by (auto simp: entry_inv_def Let_def)
  show "thread_inv req ?s' u" for u
    using inv(5)[of u] assms(2,3) by (cases "u = t") (auto simp: thread_inv_def)
qed

text \<open>The holder of a lock stores a flag of its entry.\<close>

lemma conc_inv_mark:
  assumes "conc_inv req s" "holds (pcs s t) = Some i" "holds p = Some i" "\<And>k. p \<noteq> Fetching k"
    and "\<And>e. name (f e) = name e \<and> checksum (f e) = checksum e"
    and "is_downloaded (f (entries (mgr s) ! i))"
    and "is_available (f (entries (mgr s) ! i)) \<or> p = Fetched i"
    and "p = Stored i \<Longrightarrow> is_available (f (entries (mgr s) ! i))"
    and "is_available (entries (mgr s) ! i) \<Longrightarrow> is_available (f (entries (mgr s) ! i))"
  shows "conc_inv req (s\<lparr>mgr := update_entry i f ((mgr s)\<lparr>files := d\<rparr>), pcs := (pcs s)(t := p)\<rparr>)"
    (is "conc_inv req ?s'")
proof (rule conc_invI)
  note inv = conc_invD[OF assms(1)]
  have i: "i < length (entries (mgr s))"
    using inv(5)[of t] holds_target[OF assms(2)] by (simp add: thread_inv_def)
  have "map_wf ((mgr s)\<lparr>files := d\<rparr>)" using inv(1) by (simp add: map_wf_def)
  then show "map_wf (mgr ?s')" using assms(5) by (simp add: map_wf_update)
  show "distinct (fetches ?s')" "\<And>j. j \<in> set (fetches ?s') \<Longrightarrow> j < length (entries (mgr ?s'))"
    using inv(2,3) by (simp_all add: update_entry_def)
  have at: "entries (mgr ?s') ! j = (if j = i then f (entries (mgr s) ! i) else entries (mgr s) ! j)" for j
    using i by (simp add: update_entry_def)
  have ph: "phase ?s' j = (if j = i then p else phase s j)" for j
    using phase_holder(2)[OF inv(5) assms(2), where p = p and j = j and fs = "fetches s"] by simp
  show "entry_inv ?s' j" if "j < length (entries (mgr ?s'))" for j
    using inv(4)[of j] that ph[of j] assms(6,7)
    unfolding entry_inv_def Let_def at by (cases "j = i") (auto simp: update_entry_def)
  have excl: "holds (pcs s u) = Some i \<Longrightarrow> u = t" for u
    using thread_owner[OF inv(5), of i u] thread_owner[OF inv(5), of i t] assms(2) by simp
  show "thread_inv req ?s' u" for u
  proof (cases "u = t")
    case True
    with inv(5)[of t] assms(2-6,8) i holds_target[OF assms(2)] holds_target[OF assms(3)] show ?thesis
      unfolding thread_inv_def at by (cases p) (auto simp: update_entry_def is_expected_def)
  next
    case False
    then have "pcs s u \<noteq> Fetching i" using excl[of u] by auto
    with inv(5)[of u] False assms(5,6,9) show ?thesis
      unfolding thread_inv_def at by (auto simp: update_entry_def is_expected_def)
  qed
qed

lemma conc_inv_step:
  assumes "conc_inv req s" "step req s s'"
  shows "conc_inv req s'"
  using assms(2)
proof cases
  case (lookup t n c now i ans m)
  with conc_inv_lookup[OF assms(1)] show ?thesis by simp
next
  case (acquire t i)
  with conc_inv_acquire[OF assms(1)] show ?thesis by simp
next
  case (already t i)
  from conc_invD[OF assms(1)] have inv: "\<And>j. j < length (entries (mgr s)) \<Longrightarrow> entry_inv s j" "thread_inv req s t" by auto
  have h: "holds (pcs s t) = Some i" by (simp add: already(2))
  have "i < length (entries (mgr s))" using inv(2) already(2) by (simp add: thread_inv_def)
  from inv(1)[OF this] phase_holder(1)[OF inv(2) h] already(2,3) have "is_available (entries (mgr s) ! i)"
    by (simp add: entry_inv_def Let_def)
  from conc_inv_leave[OF assms(1) h this] already(1) show ?thesis by simp
next
  case (fetch t i)
  with conc_inv_fetch[OF assms(1)] show ?thesis by simp
next
  case (fetched t i d)
  with conc_inv_mark[OF assms(1), of t i "Fetched i" "\<lambda>e. e\<lparr>is_downloaded := True\<rparr>" d] show ?thesis
    by (simp add: mark_downloaded_def)
next
  case (store t i)
  from conc_invD[OF assms(1)] have inv: "\<And>j. j < length (entries (mgr s)) \<Longrightarrow> entry_inv s j" "thread_inv req s t" by auto
  from store(2) inv(2) have "is_downloaded (entries (mgr s) ! i)" by (simp add: thread_inv_def)
  with store conc_inv_mark[OF assms(1), of t i "Stored i" "\<lambda>e. e\<lparr>is_available := True\<rparr>" "files (mgr s)"] show ?thesis
    by (simp add: mark_available_def)
next
  case (release t i)
  from conc_invD(5)[OF assms(1), of t] release(2) have "is_available (entries (mgr s) ! i)"
    by (simp add: thread_inv_def)
  with conc_inv_leave[OF assms(1), of t i] release show ?thesis by simp
qed

definition quiet :: "manager \<Rightarrow> bool" where
  "quiet m \<longleftrightarrow> map_wf m \<and> (\<forall>e \<in> set (entries m). is_available e \<longleftrightarrow> is_downloaded e)"

lemma conc_inv_initial: "quiet m \<Longrightarrow> conc_inv req (initial m)"
  by (auto simp: quiet_def conc_inv_def initial_def entry_inv_def thread_inv_def Let_def)

lemma conc_inv_reach: "reach req m s \<Longrightarrow> quiet m \<Longrightarrow> conc_inv req s"
  by (induction rule: reach.induct) (auto intro: conc_inv_initial conc_inv_step)

section \<open>What the locks give\<close>

text \<open>C3. However the threads interleave, two threads never transfer the file of the same entry at
  the same time, no entry is transferred twice, and a request that has returned has an entry with
  its own name and checksum that is marked available.\<close>

theorem one_download_per_entry:
  assumes "reach req m s" "quiet m"
  shows "(pcs s t = Fetching i \<and> pcs s u = Fetching i \<longrightarrow> t = u) \<and> distinct (fetches s) \<and>
    (pcs s t = Served i \<longrightarrow> i < length (entries (mgr s)) \<and>
       is_expected (entries (mgr s) ! i) (fst (req t)) (snd (req t)) \<and> is_available (entries (mgr s) ! i))"
proof -
  from conc_invD[OF conc_inv_reach[OF assms]] have d: "distinct (fetches s)" and th: "\<And>u. thread_inv req s u" by auto
  have "t = u" if "pcs s t = Fetching i" "pcs s u = Fetching i"
    using thread_owner[OF th, of i t] thread_owner[OF th, of i u] that by simp
  moreover have "pcs s t = Served i \<longrightarrow> i < length (entries (mgr s)) \<and>
      is_expected (entries (mgr s) ! i) (fst (req t)) (snd (req t)) \<and> is_available (entries (mgr s) ! i)"
    using th[of t] by (auto simp: thread_inv_def)
  ultimately show ?thesis using d by blast
qed

text \<open>C7. The locking cannot get stuck: while some request has not returned, one of the requests
  that have started and not returned can take a step.\<close>

theorem downloads_do_not_deadlock:
  assumes "reach req m s" "quiet m" "pcs s t \<noteq> Idle" "\<forall>i. pcs s t \<noteq> Served i"
  shows "\<exists>u s'. pcs s u \<noteq> Idle \<and> (\<forall>i. pcs s u \<noteq> Served i) \<and> step req s s' \<and> pcs s' u \<noteq> pcs s u"
proof -
  have th: "thread_inv req s u" for u using conc_invD(5)[OF conc_inv_reach[OF assms(1,2)]] .
  have holder: "\<exists>s'. step req s s' \<and> pcs s' u \<noteq> pcs s u" if "holds (pcs s u) = Some i" for u i
  proof (cases "pcs s u")
    case (Locked k)
    then show ?thesis
      by (cases "is_downloaded (entries (mgr s) ! k)") (auto intro: step.already step.fetch)
  next
    case (Fetching k)
    from step.fetched[OF this, of req "files (mgr s)"] Fetching show ?thesis by (intro exI conjI) auto
  next
    case (Fetched k)
    from step.store[OF this, of req] Fetched show ?thesis by (intro exI conjI) auto
  next
    case (Stored k)
    from step.release[OF this, of req] Stored show ?thesis by (intro exI conjI) auto
  qed (use that in auto)
  have any: ?thesis if h: "holds (pcs s u) = Some i" for u i
  proof -
    have "pcs s u \<noteq> Idle \<and> (\<forall>k. pcs s u \<noteq> Served k)" using h by auto
    with holder[OF h] show ?thesis by blast
  qed
  show ?thesis
  proof (cases "pcs s t")
    case (Wait i)
    show ?thesis
    proof (cases "owner s i")
      case None
      from step.acquire[OF Wait this, of req] Wait show ?thesis by (intro exI[of _ t] exI conjI) auto
    next
      case (Some u)
      then have h: "holds (pcs s u) = Some i" using thread_owner[OF th] by simp
      then show ?thesis by (rule any)
    qed
  qed (use assms(3,4) any[of t] in auto)
qed

section \<open>What they do not give\<close>

definition demo_req :: "nat \<Rightarrow> string \<times> string" where
  "demo_req t = (if t = 1 then (''n'', ''new'') else (''n'', ''old''))"

lemma start_quiet: "quiet start"
  by (simp add: quiet_def start_def JDBCDriverManager_def map_wf_def)

lemma step_lookup_miss:
  assumes "pcs s t = Idle" "fst (lookup_entry now (fst (req t)) (snd (req t)) (mgr s)) = (i, None)"
  shows "step req s (s\<lparr>mgr := snd (lookup_entry now (fst (req t)) (snd (req t)) (mgr s)), pcs := (pcs s)(t := Wait i)\<rparr>)"
  using step.lookup[OF assms(1), of req "fst (req t)" "snd (req t)" now i None] assms(2)
  by (simp add: prod_eq_iff)

definition demo_mgr :: "nat \<Rightarrow> manager" where
  "demo_mgr k = snd (fold (\<lambda>(now, t) (_, m). lookup_entry now (fst (demo_req t)) (snd (demo_req t)) m)
     (take k [(1, 0), (2, 1), (3, 2)]) ((0, None), start))"

lemma demo_mgr_step:
  "demo_mgr 0 = start" "demo_mgr 1 = snd (lookup_entry 1 (fst (demo_req 0)) (snd (demo_req 0)) start)"
  "demo_mgr 2 = snd (lookup_entry 2 (fst (demo_req 1)) (snd (demo_req 1)) (demo_mgr 1))"
  "demo_mgr 3 = snd (lookup_entry 3 (fst (demo_req 2)) (snd (demo_req 2)) (demo_mgr 2))"
  by (simp_all add: demo_mgr_def numeral_eq_Suc split: prod.splits)

lemma demo_facts:
  "fst (lookup_entry 1 (fst (demo_req 0)) (snd (demo_req 0)) start) = (0, None)"
  "fst (lookup_entry 2 (fst (demo_req 1)) (snd (demo_req 1)) (demo_mgr 1)) = (1, None)"
  "fst (lookup_entry 3 (fst (demo_req 2)) (snd (demo_req 2)) (demo_mgr 2)) = (2, None)"
  "\<not> is_downloaded (entries (demo_mgr 1) ! 0)" "\<not> is_downloaded (entries (demo_mgr 3) ! 2)"
  "tmp_file_of (demo_mgr 3) (entries (demo_mgr 3) ! 0) = tmp_file_of (demo_mgr 3) (entries (demo_mgr 3) ! 2)"
  by code_simp+

lemma demo_run_first:
  "\<exists>s. reach demo_req start s \<and> mgr s = demo_mgr 1 \<and> pcs s = (\<lambda>_. Idle)(0 := Fetching 0) \<and>
     owner s = (\<lambda>_. None)(0 := Some 0)"
proof -
  have r0: "reach demo_req start (initial start)" by (rule reach.start)
  have i0: "pcs (initial start) 0 = Idle" "mgr (initial start) = start" by (simp_all add: initial_def)
  from reach.more[OF r0 step_lookup_miss[OF i0(1), of 1 demo_req 0]] demo_facts(1) i0(2)
  have "reach demo_req start (initial start\<lparr>mgr := demo_mgr 1, pcs := (pcs (initial start))(0 := Wait 0)\<rparr>)"
    by (simp add: demo_mgr_step(2)[unfolded One_nat_def])
  note r1 = this
  let ?s1 = "initial start\<lparr>mgr := demo_mgr 1, pcs := (pcs (initial start))(0 := Wait 0)\<rparr>"
  have "pcs ?s1 0 = Wait 0" "owner ?s1 0 = None" by (simp_all add: initial_def)
  from reach.more[OF r1 step.acquire[OF this]]
  have r2: "reach demo_req start (?s1\<lparr>owner := (owner ?s1)(0 := Some 0), pcs := (pcs ?s1)(0 := Locked 0)\<rparr>)"
    (is "reach _ _ ?s2") .
  have "pcs ?s2 0 = Locked 0" "\<not> is_downloaded (entries (mgr ?s2) ! 0)" using demo_facts(4) by simp_all
  from reach.more[OF r2 step.fetch[OF this]] show ?thesis
    by (intro exI[of _ "?s2\<lparr>pcs := (pcs ?s2)(0 := Fetching 0), fetches := fetches ?s2 @ [0]\<rparr>"])
       (simp add: initial_def fun_eq_iff)
qed

text \<open>C26. The lock of an entry does not protect its temporary file: when a name is asked for with a
  checksum, with another one, and with the first one again, while the first transfer is running,
  two entries are transferred at the same time into one temporary file.\<close>

theorem two_transfers_one_tmp_file:
  "\<exists>s t u i j. reach demo_req start s \<and> t \<noteq> u \<and> i \<noteq> j \<and> pcs s t = Fetching i \<and> pcs s u = Fetching j \<and>
     tmp_file_of (mgr s) (entries (mgr s) ! i) = tmp_file_of (mgr s) (entries (mgr s) ! j)"
proof -
  obtain s1 where s1: "reach demo_req start s1" "mgr s1 = demo_mgr 1" "pcs s1 = (\<lambda>_. Idle)(0 := Fetching 0)"
    "owner s1 = (\<lambda>_. None)(0 := Some 0)" using demo_run_first by blast
  let ?s2 = "s1\<lparr>mgr := demo_mgr 2, pcs := (pcs s1)(1 := Wait 1)\<rparr>"
  have "reach demo_req start ?s2"
    using reach.more[OF s1(1) step_lookup_miss[of s1 1 2 demo_req 1]] demo_facts(2) s1(2,3)
    by (simp add: demo_mgr_step(3))
  note r2 = this
  let ?s3 = "?s2\<lparr>mgr := demo_mgr 3, pcs := (pcs ?s2)(2 := Wait 2)\<rparr>"
  have r3: "reach demo_req start ?s3"
    using reach.more[OF r2 step_lookup_miss[of ?s2 2 3 demo_req 2]] demo_facts(3) s1(3)
    by (simp add: demo_mgr_step(4))
  have "pcs ?s3 2 = Wait 2" "owner ?s3 2 = None" by (simp_all add: s1(4))
  from reach.more[OF r3 step.acquire[OF this]]
  have r4: "reach demo_req start (?s3\<lparr>owner := (owner ?s3)(2 := Some 2), pcs := (pcs ?s3)(2 := Locked 2)\<rparr>)"
    (is "reach _ _ ?s4") .
  have "pcs ?s4 2 = Locked 2" "\<not> is_downloaded (entries (mgr ?s4) ! 2)" using demo_facts(5) by simp_all
  from reach.more[OF r4 step.fetch[OF this]] demo_facts(6) show ?thesis
    by (intro exI[of _ "?s4\<lparr>pcs := (pcs ?s4)(2 := Fetching 2), fetches := fetches ?s4 @ [2]\<rparr>"]
        exI[of _ 0] exI[of _ 2] conjI) (simp_all add: s1(3))
qed

section \<open>Example runs\<close>

theorem one_download_per_entry_witness:
  "\<exists>s. reach demo_req start s \<and> pcs s 0 = Fetching 0 \<and> distinct (fetches s)"
proof -
  obtain s where s: "reach demo_req start s" "pcs s 0 = Fetching 0" using demo_run_first by fastforce
  with one_download_per_entry[OF s(1) start_quiet] show ?thesis by blast
qed

theorem downloads_do_not_deadlock_witness:
  "\<exists>s u s'. reach demo_req start s \<and> step demo_req s s' \<and> pcs s' u \<noteq> pcs s u"
proof -
  obtain s where s: "reach demo_req start s" "pcs s 0 = Fetching 0" using demo_run_first by fastforce
  with downloads_do_not_deadlock[OF s(1) start_quiet, of 0] show ?thesis by auto
qed

end
