(* ===== verification/Driver_Linear.thy ===== *)
theory Driver_Linear
  imports Driver_Concurrency
begin

text \<open>
  The requests of several threads compared with the same requests served one after the other by
  \<open>get\_driver\_location\<close>: the block under \<open>\_lock\<close> is the point at which a request takes effect.
\<close>

section \<open>Runs with their history\<close>

text \<open>The threads in the order in which they pass \<open>\_lock\<close>, each with the clock it read there.\<close>

inductive history :: "(nat \<Rightarrow> string \<times> string) \<Rightarrow> manager \<Rightarrow> (nat \<times> int) list \<Rightarrow> sys \<Rightarrow> bool" for req m where
  begun: "history req m [] (initial m)"
| looked: "history req m order s \<Longrightarrow> pcs s t = Idle \<Longrightarrow> req t = (n, c) \<Longrightarrow>
     lookup_entry now n c (mgr s) = ((i, ans), m') \<Longrightarrow>
     history req m (order @ [(t, now)])
       (s\<lparr>mgr := m', pcs := (pcs s)(t := (if ans = None then Wait i else Served i))\<rparr>)"
| moved: "history req m order s \<Longrightarrow> step req s s' \<Longrightarrow> \<forall>t. pcs s' t = Idle \<longleftrightarrow> pcs s t = Idle \<Longrightarrow> history req m order s'"

lemma history_reach: "history req m order s \<Longrightarrow> reach req m s"
proof (induction rule: history.induct)
  case (looked order s t n c now i ans m')
  have "step req s (s\<lparr>mgr := m', pcs := (pcs s)(t := (if ans = None then Wait i else Served i))\<rparr>)"
    using looked.hyps by (intro step.lookup)
  with looked.IH show ?case by (rule reach.more)
qed (blast intro: reach.intros)+

lemma reach_history: "reach req m s \<Longrightarrow> \<exists>order. history req m order s"
proof (induction rule: reach.induct)
  case (more s s')
  then obtain order where h: "history req m order s" by blast
  show ?case
  proof (cases "\<forall>t. pcs s' t = Idle \<longleftrightarrow> pcs s t = Idle")
    case True
    with h more show ?thesis by (blast intro: history.moved)
  next
    case False
    from more(2) show ?thesis
    proof cases
      case (lookup t n c now i ans m')
      from history.looked[OF h lookup(2-4)] lookup(1) show ?thesis by blast
    qed (use False in \<open>auto split: if_splits\<close>)
  qed
qed (blast intro: history.begun)

text \<open>The location a thread has been promised, or has returned.\<close>

definition answer :: "sys \<Rightarrow> nat \<Rightarrow> string" where
  "answer s t = (case target (pcs s t) of None \<Rightarrow> [] | Some i \<Rightarrow> location (entries (mgr s) ! i))"

section \<open>The same requests, one after the other\<close>

fun one_by_one :: "'c ext_libs \<Rightarrow> os_env \<Rightarrow> request list \<Rightarrow> manager \<Rightarrow> string list \<times> manager" where
  "one_by_one ext env [] m = ([], m)"
| "one_by_one ext env (q # qs) m =
     (case serve ext env q m of ((_, loc), m1) \<Rightarrow>
        (case one_by_one ext env qs m1 of (locs, m2) \<Rightarrow> (loc # locs, m2)))"

text \<open>And by the abstract cache.\<close>

fun cache_run :: "(string \<Rightarrow> string \<Rightarrow> int \<Rightarrow> string) \<Rightarrow> request list \<Rightarrow> cache \<Rightarrow> string list \<times> cache" where
  "cache_run gen [] k = ([], k)"
| "cache_run gen ((now, n, _, c) # qs) k =
     (case cache_get (gen n c now) n c k of (loc, _, k1) \<Rightarrow>
        (case cache_run gen qs k1 of (locs, k2) \<Rightarrow> (loc # locs, k2)))"

lemma cache_run_append:
  "cache_run gen (qs @ qs') k =
     (case cache_run gen qs k of (locs, k1) \<Rightarrow> (case cache_run gen qs' k1 of (locs', k2) \<Rightarrow> (locs @ locs', k2)))"
proof (induction qs arbitrary: k)
  case (Cons q qs)
  then show ?case by (cases q) (simp split: prod.split)
qed (simp split: prod.split)

lemma gen_dir: "driver_dir m' = driver_dir m \<Longrightarrow> generate_driver_location m' = generate_driver_location m"
  by (simp add: generate_driver_location_def fun_eq_iff)

lemma one_by_one_cache:
  assumes "mgr_ok m"
  shows "cache_run (generate_driver_location m) qs (cache_of m) =
    (fst (one_by_one ext env qs m), cache_of (snd (one_by_one ext env qs m)))"
  using assms
proof (induction qs arbitrary: m)
  case (Cons q qs)
  obtain now n url c where q: "q = (now, n, url, c)" by (metis prod_cases4)
  obtain st loc m1 where r: "get_driver_location ext env now n url c m = ((st, loc), m1)" by (metis prod.collapse)
  from get_driver_location_refines[OF Cons.prems r] obtain miss where
    g: "cache_get (generate_driver_location m n c now) n c (cache_of m) = (loc, miss, cache_of m1)"
    "mgr_ok m1" "driver_dir m1 = driver_dir m" by blast
  from Cons.IH[OF g(2)] g(1) r gen_dir[OF g(3)] show ?case by (simp add: q serve_def split: prod.split)
qed simp

section \<open>Every step agrees with the cache\<close>

lemma lookup_present:
  assumes "map_wf m" "current m n = Some e" "checksum e = c"
  shows "\<exists>i. lookup_entry now n c m = ((i, if is_available e then Some (location e) else None), m) \<and> entries m ! i = e"
  using assms by (auto simp: lookup_entry_def current_def is_expected_def Let_def dest: map_wfD)

lemma lookup_cache:
  assumes "map_wf m" "lookup_entry now n c m = ((i, ans), m')"
  shows "\<exists>miss. cache_get (generate_driver_location m n c now) n c (cache_of m) =
      (location (entries m' ! i), miss, cache_of m') \<and> driver_dir m' = driver_dir m"
proof (cases "\<exists>e. current m n = Some e \<and> checksum e = c")
  case True
  then obtain e where e: "current m n = Some e" "checksum e = c" by blast
  from lookup_present[OF assms(1) e, of now] assms(2) have "m' = m" "entries m ! i = e" by auto
  with e show ?thesis by (auto simp: cache_get_def cache_of_def)
next
  case False
  then have "case current m n of None \<Rightarrow> True | Some e \<Rightarrow> checksum e \<noteq> c" by (auto split: option.split)
  from lookup_miss[OF assms(1) this, of now] assms(2) have
    m': "driver_dir m' = driver_dir m" "entry_map m' n = Some i"
      "current m' = (current m)(n := Some ((JDBCDriverEntry n c)\<lparr>first_access_ts := now,
         location := generate_driver_location m n c now\<rparr>))" by auto
  have e: "entries m' ! i = (JDBCDriverEntry n c)\<lparr>first_access_ts := now, location := generate_driver_location m n c now\<rparr>"
    using m'(2,3) by (simp add: current_def fun_eq_iff split: if_splits)
  have "cache_of m' = (cache_of m)(n \<mapsto> (c, generate_driver_location m n c now))"
    by (rule ext) (simp add: cache_of_def m'(3) JDBCDriverEntry_def)
  with False e m'(1) show ?thesis by (auto simp: cache_get_def cache_of_def split: option.split)
qed

text \<open>Behind \<open>\_lock\<close> only flags of entries, and files, change.\<close>

definition flags_only :: "manager \<Rightarrow> manager \<Rightarrow> bool" where
  "flags_only m m' \<longleftrightarrow> entry_map m' = entry_map m \<and> driver_dir m' = driver_dir m \<and>
     (\<forall>j < length (entries m). checksum (entries m' ! j) = checksum (entries m ! j) \<and>
        location (entries m' ! j) = location (entries m ! j))"

lemma flags_only_cache: "flags_only m m' \<Longrightarrow> map_wf m \<Longrightarrow> cache_of m' = cache_of m"
  by (auto simp: flags_only_def cache_of_def current_def fun_eq_iff map_option_case dest: map_wfD split: option.split)

lemma flags_only_mark:
  assumes "\<And>e. checksum (f e) = checksum e \<and> location (f e) = location e"
  shows "flags_only m (update_entry i f (m\<lparr>files := d\<rparr>))"
proof -
  have "checksum ((entries m)[i := f (entries m ! i)] ! j) = checksum (entries m ! j) \<and>
      location ((entries m)[i := f (entries m ! i)] ! j) = location (entries m ! j)" if "j < length (entries m)" for j
    using assms that by (cases "i = j") simp_all
  then show ?thesis by (simp add: flags_only_def update_entry_def)
qed

lemma step_flags:
  assumes "step req s s'" "\<forall>t. pcs s' t = Idle \<longleftrightarrow> pcs s t = Idle"
  shows "flags_only (mgr s) (mgr s') \<and> (\<forall>t. target (pcs s' t) = target (pcs s t))"
  using assms(1)
proof cases
  case (lookup t n c now i ans m)
  then have "pcs s' t \<noteq> Idle" by simp
  with assms(2) lookup(2) show ?thesis by blast
next
  case (fetched t i d)
  with flags_only_mark[of "\<lambda>e. e\<lparr>is_downloaded := True\<rparr>" "mgr s" i d] show ?thesis by (simp add: mark_downloaded_def)
next
  case (store t i)
  with flags_only_mark[of "\<lambda>e. e\<lparr>is_available := True\<rparr>" "mgr s" i "files (mgr s)"] show ?thesis
    by (simp add: mark_available_def)
qed (simp_all add: flags_only_def)

lemma step_behind_lock:
  assumes "step req s s'" "conc_inv req s" "\<forall>t. pcs s' t = Idle \<longleftrightarrow> pcs s t = Idle"
  shows "cache_of (mgr s') = cache_of (mgr s) \<and> driver_dir (mgr s') = driver_dir (mgr s) \<and> answer s' = answer s"
proof -
  note f = step_flags[OF assms(1,3)]
  have "answer s' t = answer s t" for t
  proof (cases "target (pcs s t)")
    case (Some i)
    with conc_invD(5)[OF assms(2), of t] have "i < length (entries (mgr s))" by (simp add: thread_inv_def)
    with f Some show ?thesis by (simp add: answer_def flags_only_def)
  qed (use f in \<open>simp add: answer_def\<close>)
  moreover have "cache_of (mgr s') = cache_of (mgr s)"
    using f flags_only_cache[OF _ conc_invD(1)[OF assms(2)]] by blast
  moreover have "driver_dir (mgr s') = driver_dir (mgr s)" using f by (simp add: flags_only_def)
  ultimately show ?thesis by (simp add: ext)
qed

definition logged :: "(nat \<Rightarrow> string \<times> string) \<Rightarrow> (nat \<Rightarrow> string) \<Rightarrow> (nat \<times> int) list \<Rightarrow> request list" where
  "logged req url order = map (\<lambda>(t, now). (now, fst (req t), url t, snd (req t))) order"

lemma history_cache:
  assumes "history req m order s" "quiet m"
  shows "cache_run (generate_driver_location m) (logged req url order) (cache_of m) =
      (map (answer s \<circ> fst) order, cache_of (mgr s)) \<and> driver_dir (mgr s) = driver_dir m \<and>
    distinct (map fst order) \<and> set (map fst order) = {t. pcs s t \<noteq> Idle}"
  using assms
proof (induction rule: history.induct)
  case begun
  then show ?case by (simp add: logged_def initial_def)
next
  case (looked order s t n c now i ans m')
  let ?s' = "s\<lparr>mgr := m', pcs := (pcs s)(t := (if ans = None then Wait i else Served i))\<rparr>"
  have inv: "conc_inv req s" using conc_inv_reach history_reach looked.hyps(1) looked.prems by blast
  note wf = conc_invD(1)[OF inv]
  obtain miss where g: "cache_get (generate_driver_location (mgr s) n c now) n c (cache_of (mgr s)) =
      (location (entries m' ! i), miss, cache_of m')" "driver_dir m' = driver_dir (mgr s)"
    using lookup_cache[OF wf looked.hyps(4)] by blast
  have ext: "extends (mgr s) m'" using lookup_extends[OF wf looked.hyps(4)] by blast
  have old: "answer ?s' u = answer s u" if "u \<noteq> t" for u
  proof (cases "target (pcs s u)")
    case (Some j)
    with conc_invD(5)[OF inv, of u] have "j < length (entries (mgr s))" by (simp add: thread_inv_def)
    with ext Some that show ?thesis by (simp add: answer_def extends_def same_entry_def)
  qed (use that in \<open>simp add: answer_def\<close>)
  have new: "answer ?s' t = location (entries m' ! i)" by (simp add: answer_def)
  have fresh: "t \<notin> set (map fst order)" using looked by simp
  have "map (answer ?s' \<circ> fst) order = map (answer s \<circ> fst) order"
    using old fresh by (intro map_cong refl) (metis comp_apply image_eqI list.set_map)
  with looked g new fresh gen_dir[of "mgr s" m] show ?case
    by (auto simp: logged_def cache_run_append)
next
  case (moved order s s')
  have "conc_inv req s" using conc_inv_reach history_reach moved.hyps(1) moved.prems by blast
  from step_behind_lock[OF moved.hyps(2) this moved.hyps(3)] moved show ?case by simp
qed

section \<open>What the threads cannot tell\<close>

text \<open>C4. Requests of several threads behave as if they were served one after the other, in the order in
  which they passed \<open>\_lock\<close>, which lies between the call and the return of each: at every moment
  of every run, each request that has begun has the location that the sequential program gives it
  in that order, and the cache is the one the sequential program leaves, whatever the downloads
  and the interleaving.\<close>

theorem concurrent_requests_linearise:
  assumes "history req m order s" "mgr_ok m" "quiet m"
  shows "fst (one_by_one ext env (logged req url order) m) = map (answer s \<circ> fst) order \<and>
    cache_of (snd (one_by_one ext env (logged req url order) m)) = cache_of (mgr s) \<and>
    distinct (map fst order) \<and> set (map fst order) = {t. pcs s t \<noteq> Idle}"
  using history_cache[OF assms(1,3), of url] one_by_one_cache[OF assms(2), of "logged req url order" ext env] by simp

lemma history_lookup:
  assumes "history req m order s" "pcs s t = Idle" "fst (lookup_entry now (fst (req t)) (snd (req t)) (mgr s)) = (i, None)"
  shows "history req m (order @ [(t, now)])
    (s\<lparr>mgr := snd (lookup_entry now (fst (req t)) (snd (req t)) (mgr s)), pcs := (pcs s)(t := Wait i)\<rparr>)"
  using history.looked[OF assms(1,2), of "fst (req t)" "snd (req t)" now i None] assms(3) by (simp add: prod_eq_iff)

theorem concurrent_requests_linearise_witness:
  "\<exists>s. history demo_req start [(0, 1), (1, 2)] s \<and>
    fst (one_by_one (example_ext []) roomy_os (logged demo_req (\<lambda>_. ''u'') [(0, 1), (1, 2)]) start) =
      [''/l/n_old_1.jar'', ''/l/n_new_2.jar''] \<and>
    answer s 1 = ''/l/n_new_2.jar'' \<and> cache_of (mgr s) ''n'' = Some (''new'', ''/l/n_new_2.jar'')"
proof -
  let ?s1 = "initial start\<lparr>mgr := demo_mgr 1, pcs := (pcs (initial start))(0 := Wait 0)\<rparr>"
  let ?s2 = "?s1\<lparr>mgr := demo_mgr 2, pcs := (pcs ?s1)(1 := Wait 1)\<rparr>"
  have "history demo_req start [(0, 1)] ?s1"
    using history_lookup[OF history.begun, of start 0 1 demo_req 0] demo_facts(1)
    by (simp add: initial_def demo_mgr_step(2)[unfolded One_nat_def])
  from history_lookup[OF this, of 1 2 1] demo_facts(2)
  have h: "history demo_req start [(0, 1), (1, 2)] ?s2" by (simp add: initial_def demo_mgr_step(3))
  have "location (entries (demo_mgr 2) ! 0) = ''/l/n_old_1.jar''" "location (entries (demo_mgr 2) ! 1) = ''/l/n_new_2.jar''"
    "cache_of (demo_mgr 2) ''n'' = Some (''new'', ''/l/n_new_2.jar'')" by code_simp+
  with concurrent_requests_linearise[OF h start_ok(1) start_quiet, of "example_ext []" roomy_os "\<lambda>_. ''u''"] h
  show ?thesis by (intro exI[of _ ?s2]) (simp add: answer_def initial_def)
qed

end
