(* ===== verification/Driver_Downloads.thy ===== *)
theory Driver_Downloads
  imports Driver_Concurrency Download_Stdio
begin

text \<open>
  The transfers of the driver manager as downloads that run at the same time: which paths a transfer
  uses, and that drivers with different names or checksums use different ones.
\<close>

section \<open>The paths of an entry\<close>

text \<open>An entry that is still to be downloaded is kept at the place generated for it.\<close>

definition places :: "manager \<Rightarrow> bool" where
  "places m \<longleftrightarrow> (\<forall>e \<in> set (entries m). \<not> is_downloaded e \<longrightarrow>
     (\<exists>ts. location e = generate_driver_location m (name e) (checksum e) ts))"

lemma places_update:
  assumes "places m" "\<And>e. location (f e) = location e \<and> name (f e) = name e \<and> checksum (f e) = checksum e \<and>
      (\<not> is_downloaded (f e) \<longrightarrow> \<not> is_downloaded e)"
  shows "places (update_entry i f m)"
proof (cases "i < length (entries m)")
  case True
  have "\<exists>ts. location e = generate_driver_location m (name e) (checksum e) ts"
    if "e \<in> set ((entries m)[i := f (entries m ! i)])" "\<not> is_downloaded e" for e
    using set_update_subset_insert[of "entries m" i "f (entries m ! i)"] that assms True nth_mem[OF True]
    unfolding places_def by (metis (mono_tags, lifting) insert_iff subsetD)
  then show ?thesis by (simp add: places_def update_entry_def generate_driver_location_def)
next
  case False
  with assms(1) show ?thesis by (simp add: places_def update_entry_def generate_driver_location_def list_update_beyond)
qed

lemma places_create:
  assumes "places m" "create_entry now n c m = (i, m')"
  shows "places m'"
  using assms
  by (auto simp: create_entry_def manager_ops places_def JDBCDriverEntry_def generate_driver_location_def) blast

lemma places_lookup:
  assumes "places m" "lookup_entry now n c m = (x, m')"
  shows "places m'"
proof -
  have mark: "places (update_entry i (\<lambda>e. e\<lparr>should_delete := True\<rparr>) m1)" if "places m1" for i m1
    using that by (rule places_update) simp
  obtain i m1 where first: "(case entry_map m n of None \<Rightarrow> create_entry now n c m | Some i \<Rightarrow> (i, m)) = (i, m1)"
    by fastforce
  with assms(1) have "places m1" by (auto split: option.splits dest: places_create)
  with assms(2) first mark show ?thesis
    by (auto simp: lookup_entry_def Let_def split: if_splits prod.splits dest: places_create)
qed

lemma places_reach: "reach req m s \<Longrightarrow> places m \<Longrightarrow> places (mgr s)"
proof (induction rule: reach.induct)
  case start
  then show ?case by (simp add: initial_def)
next
  case (more s s')
  then have p: "places (mgr s)" by simp
  have files: "places ((mgr s)\<lparr>files := d\<rparr>)" for d
    using p by (simp add: places_def generate_driver_location_def)
  from more(2) show ?case
    by (cases rule: step.cases)
      (use p files in \<open>auto simp: mark_downloaded_def mark_available_def intro: places_update places_lookup\<close>)
qed

section \<open>Names and paths\<close>

text \<open>The last underscore separates, when what follows it has none.\<close>

lemma last_underscore:
  assumes "x @ CHR ''_'' # y = x' @ CHR ''_'' # y'" "CHR ''_'' \<notin> set y" "CHR ''_'' \<notin> set y'"
  shows "x = x' \<and> y = y'"
proof -
  let ?p = "\<lambda>c. c \<noteq> CHR ''_''"
  have tail: "takeWhile ?p (rev y @ CHR ''_'' # z) = rev y" if "CHR ''_'' \<notin> set y" for y z
    using that by (subst takeWhile_append2) auto
  have r: "rev y @ CHR ''_'' # rev x = rev y' @ CHR ''_'' # rev x'"
    using arg_cong[OF assms(1), of rev] by simp
  from arg_cong[OF r, of "takeWhile ?p"] have "y = y'" using tail assms(2,3) by simp
  with assms(1) show ?thesis by simp
qed

lemma tmp_file_injective:
  assumes "tmp_file_of m e = tmp_file_of m e'" "CHR ''_'' \<notin> set (checksum e)" "CHR ''_'' \<notin> set (checksum e')"
  shows "name e = name e' \<and> checksum e = checksum e'"
proof -
  have "(name e @ CHR ''_'' # checksum e) @ ''.tmp'' = (name e' @ CHR ''_'' # checksum e') @ ''.tmp''"
    using assms(1) by (simp add: tmp_file_of_def)
  with last_underscore[of "name e" "checksum e" "name e'" "checksum e'"] assms(2,3) show ?thesis
    by (simp only: append_same_eq) blast
qed

lemma location_injective:
  assumes "generate_driver_location m n c ts = generate_driver_location m n' c' ts'"
    and "CHR ''_'' \<notin> set c" "CHR ''_'' \<notin> set c'"
  shows "n = n' \<and> c = c'"
proof -
  have "((n @ CHR ''_'' # c) @ CHR ''_'' # to_string ts) @ ''.jar'' = ((n' @ CHR ''_'' # c') @ CHR ''_'' # to_string ts') @ ''.jar''"
    using assms(1) by (simp add: generate_driver_location_def driver_file_def)
  moreover have "CHR ''_'' \<notin> set (to_string ts)" "CHR ''_'' \<notin> set (to_string ts')"
    using to_string_chars by blast+
  ultimately have "n @ CHR ''_'' # c = n' @ CHR ''_'' # c'"
    using last_underscore[of "n @ CHR ''_'' # c" _ "n' @ CHR ''_'' # c'"] by (simp only: append_same_eq) blast
  from last_underscore[OF this assms(2,3)] show ?thesis .
qed

lemma tmp_is_no_location: "tmp_file_of m e \<noteq> generate_driver_location m n c ts"
proof
  assume "tmp_file_of m e = generate_driver_location m n c ts"
  then have "last (tmp_file_of m e) = last (generate_driver_location m n c ts)" by simp
  then show False by (simp add: tmp_file_of_def generate_driver_location_def driver_file_def)
qed

text \<open>With underscores in the checksum, two drivers may share a temporary file.\<close>

lemma tmp_file_collision:
  "tmp_file_of m (JDBCDriverEntry (a @ ''_'' @ b) c) = tmp_file_of m (JDBCDriverEntry a (b @ ''_'' @ c))"
  by (simp add: tmp_file_of_def JDBCDriverEntry_def)

section \<open>Transfers\<close>

text \<open>The download a thread runs inside the lock of its entry, lines 176 to 179.\<close>

definition entry_job :: "manager \<Rightarrow> driver_entry \<Rightarrow> string \<Rightarrow> string list \<Rightarrow> dl_job" where
  "entry_job m e url pieces =
     \<lparr>j_url = url, j_tmp = tmp_file_of m e, j_target = location e, j_checksum = checksum e, j_pieces = pieces\<rparr>"

text \<open>C10. Transfers of different drivers that the manager runs at the same time do not disturb each other:
  when the requests of some threads differ pairwise in name or checksum, and no checksum has an
  underscore, then from any moment at which all of them transfer their files, in whatever order their
  system calls come from there, each download that ends with OK on a device that takes what is written
  has left at the location of its entry the data it was sent, with the requested checksum as digest.\<close>

theorem different_drivers_transfer_apart:
  assumes "reach req m s" "quiet m" "places m" "\<forall>t \<in> J. pcs s t = Fetching (ent t)"
    and "\<forall>t \<in> J. CHR ''_'' \<notin> set (snd (req t))" "inj_on req J"
    and "\<forall>t \<in> J. jobs t = entry_job (mgr s) (entries (mgr s) ! ent t) (url t) (pieces t)"
    and "md5_streaming (lib_md5 ext) H" "inode_fs_ok d0" "set sched \<subseteq> J" "whole_device io" "t \<in> J"
    and "dpc (sys_run io ext jobs sched (dl_start d0)) t = Ended OK"
  shows "path_data (dsk (sys_run io ext jobs sched (dl_start d0))) (location (entries (mgr s) ! ent t)) =
      Some (concat (pieces t)) \<and>
    iequals ext (hex_loop (H (concat (pieces t)))) (snd (req t))"
proof -
  let ?e = "\<lambda>t. entries (mgr s) ! ent t"
  have inv: "conc_inv req s" by (rule conc_inv_reach[OF assms(1,2)])
  have entry: "ent u < length (entries (mgr s)) \<and> name (?e u) = fst (req u) \<and> checksum (?e u) = snd (req u) \<and>
      \<not> is_downloaded (?e u)" if "u \<in> J" for u
    using conc_invD(5)[OF inv, of u] assms(4) that by (auto simp: thread_inv_def is_expected_def)
  have place: "\<exists>ts. location (?e u) = generate_driver_location (mgr s) (fst (req u)) (snd (req u)) ts" if "u \<in> J" for u
    using places_reach[OF assms(1,3)] entry[OF that] nth_mem unfolding places_def by metis
  have job: "j_tmp (jobs u) = tmp_file_of (mgr s) (?e u)" "j_target (jobs u) = location (?e u)"
    "j_pieces (jobs u) = pieces u" "j_checksum (jobs u) = snd (req u)" if "u \<in> J" for u
    using assms(7) entry that by (simp_all add: entry_job_def)
  have "separate jobs J"
    unfolding separate_def
  proof (intro ballI conjI impI)
    fix u v assume uv: "u \<in> J" "v \<in> J"
    show "j_tmp (jobs u) \<noteq> j_target (jobs v)"
      using place[OF uv(2)] tmp_is_no_location job uv by metis
    assume "u \<noteq> v"
    with assms(6) uv have ne: "\<not> (fst (req u) = fst (req v) \<and> snd (req u) = snd (req v))"
      by (metis inj_onD prod.expand)
    show "j_tmp (jobs u) \<noteq> j_tmp (jobs v)"
      using tmp_file_injective[of "mgr s" "?e u" "?e v"] job(1) entry assms(5) uv ne by metis
    show "j_target (jobs u) \<noteq> j_target (jobs v)"
      using location_injective[of "mgr s"] place job(2) assms(5) uv ne by metis
  qed
  from separate_downloads_apart[OF assms(8,9) this assms(10,12) refl refl refl] assms(11,13) job[OF assms(12)]
  show ?thesis by simp
qed

section \<open>Two transfers\<close>

text \<open>A request whose entry nobody has locked goes all the way to its transfer.\<close>

lemma start_transfer:
  assumes "reach req m s" "pcs s t = Idle" "lookup_entry now (fst (req t)) (snd (req t)) (mgr s) = ((i, None), m')"
    and "owner s i = None" "\<not> is_downloaded (entries m' ! i)"
  shows "reach req m (s\<lparr>mgr := m', owner := (owner s)(i := Some t), pcs := (pcs s)(t := Fetching i),
     fetches := fetches s @ [i]\<rparr>)"
proof -
  let ?s1 = "s\<lparr>mgr := m', pcs := (pcs s)(t := Wait i)\<rparr>"
  let ?s2 = "?s1\<lparr>owner := (owner ?s1)(i := Some t), pcs := (pcs ?s1)(t := Locked i)\<rparr>"
  have "step req s ?s1" using step.lookup[OF assms(2) _ assms(3)] by simp
  moreover have "step req ?s1 ?s2" by (rule step.acquire) (use assms(4) in simp_all)
  moreover have "step req ?s2 (?s2\<lparr>pcs := (pcs ?s2)(t := Fetching i), fetches := fetches ?s2 @ [i]\<rparr>)"
    by (rule step.fetch) (use assms(5) in simp_all)
  ultimately have "reach req m (?s2\<lparr>pcs := (pcs ?s2)(t := Fetching i), fetches := fetches ?s2 @ [i]\<rparr>)"
    using assms(1) by (blast intro: reach.more)
  then show ?thesis by simp
qed

definition pair_req :: "nat \<Rightarrow> string \<times> string" where
  "pair_req t = (if t = 1 then (''n'', concat (replicate 16 ''02'')) else (''m'', concat (replicate 16 ''03'')))"

definition pair_mgr :: "nat \<Rightarrow> manager" where
  "pair_mgr k = fold (\<lambda>t m. snd (lookup_entry 5 (fst (pair_req t)) (snd (pair_req t)) m)) [0..<k] start"

definition pair_pieces :: "nat \<Rightarrow> string list" where
  "pair_pieces t = (if t = 1 then [''x'', ''y''] else [''abc''])"

lemma pair_facts:
  "lookup_entry 5 (fst (pair_req 0)) (snd (pair_req 0)) start = ((0, None), pair_mgr 1)"
  "lookup_entry 5 (fst (pair_req 1)) (snd (pair_req 1)) (pair_mgr 1) = ((1, None), pair_mgr 2)"
  "\<not> is_downloaded (entries (pair_mgr 1) ! 0)" "\<not> is_downloaded (entries (pair_mgr 2) ! 1)"
proof -
  have "fst (lookup_entry 5 (fst (pair_req 0)) (snd (pair_req 0)) start) = (0, None)"
    "fst (lookup_entry 5 (fst (pair_req 1)) (snd (pair_req 1)) (pair_mgr 1)) = (1, None)" by code_simp+
  then show "lookup_entry 5 (fst (pair_req 0)) (snd (pair_req 0)) start = ((0, None), pair_mgr 1)"
    "lookup_entry 5 (fst (pair_req 1)) (snd (pair_req 1)) (pair_mgr 1) = ((1, None), pair_mgr 2)"
    by (simp_all add: pair_mgr_def prod_eq_iff numeral_2_eq_2)
qed code_simp+

theorem different_drivers_transfer_apart_witness:
  "\<exists>s. reach pair_req start s \<and> pcs s 0 = Fetching 0 \<and> pcs s 1 = Fetching 1 \<and>
     path_data (dsk (sys_run plain_io (example_ext [])
         (\<lambda>t. entry_job (mgr s) (entries (mgr s) ! t) ''u'' (pair_pieces t))
         [0, 1, 1, 1, 0, 0, 1, 1, 1, 1, 0, 0, 0] (dl_start empty_disk)))
       (location (entries (mgr s) ! 1)) = Some ''xy''"
proof -
  have r0: "reach pair_req start (initial start)" by (rule reach.start)
  have i: "pcs (initial start) t = Idle" "mgr (initial start) = start" "owner (initial start) j = None" for t j
    by (simp_all add: initial_def)
  let ?s1 = "(initial start)\<lparr>mgr := pair_mgr 1, owner := (owner (initial start))(0 := Some 0),
    pcs := (pcs (initial start))(0 := Fetching 0), fetches := fetches (initial start) @ [0]\<rparr>"
  have r1: "reach pair_req start ?s1"
    by (rule start_transfer[OF r0 i(1) _ i(3) pair_facts(3), where now = 5]) (simp only: i(2) pair_facts(1))
  let ?s2 = "?s1\<lparr>mgr := pair_mgr 2, owner := (owner ?s1)(1 := Some 1), pcs := (pcs ?s1)(1 := Fetching 1),
    fetches := fetches ?s1 @ [1]\<rparr>"
  have r2: "reach pair_req start ?s2"
    by (rule start_transfer[OF r1 _ _ _ pair_facts(4), where now = 5]) (simp_all add: pair_facts(2)[simplified] i)
  let ?jobs = "\<lambda>t. entry_job (pair_mgr 2) (entries (pair_mgr 2) ! t) ''u'' (pair_pieces t)"
  let ?sched = "[0, 1, 1, 1, 0, 0, 1, 1, 1, 1, 0, 0, 0] :: nat list"
  have "dpc (sys_run plain_io (example_ext []) ?jobs ?sched (dl_start empty_disk)) 1 = Ended OK" by code_simp
  moreover have "places start" by (simp add: places_def start_def JDBCDriverManager_def)
  moreover have "inode_fs_ok empty_disk" "whole_device plain_io"
    by (simp_all add: inode_fs_ok_def empty_disk_def whole_device_def plain_io_def)
  moreover have "inj_on pair_req {0, 1}" "\<forall>t \<in> {0, 1}. CHR ''_'' \<notin> set (snd (pair_req t))"
    by (simp_all add: pair_req_def inj_on_def)
  moreover have "\<forall>t \<in> {0, 1}. pcs ?s2 t = Fetching (id t)" "mgr ?s2 = pair_mgr 2" by (simp_all add: i)
  moreover have "set ?sched \<subseteq> {0, 1}" by simp
  ultimately have "path_data (dsk (sys_run plain_io (example_ext []) ?jobs ?sched (dl_start empty_disk)))
       (location (entries (pair_mgr 2) ! 1)) = Some ''xy''"
    using different_drivers_transfer_apart[OF r2 start_quiet, of "{0, 1}" id ?jobs "\<lambda>_. ''u''" pair_pieces
        "example_ext []" length_hash empty_disk ?sched plain_io 1] example_md5
    by (simp add: pair_pieces_def)
  with r2 show ?thesis by (intro exI[of _ ?s2]) (simp add: i)
qed

end
