(* ===== verification/Driver_Singleton.thy ===== *)
theory Driver_Singleton
  imports Main
begin

text \<open>
  \<open>JDBCDriverManager::getInstance\<close> (runtime/jdbc\_driver\_manager.cpp) called by several threads. The
  static \<open>unique_ptr\<close> is made once by the language, but the test of it and the assignment to it are
  not synchronised: they are separate steps here. Managers are numbered in the order they are made;
  assigning to the pointer destroys the one it held.
\<close>

section \<open>Threads\<close>

datatype gi_pc =
    Outside
  | Testing              \<comment> \<open>at line 59\<close>
  | Making               \<comment> \<open>has found null, line 60\<close>
  | Leaving              \<comment> \<open>at line 62\<close>
  | Has nat              \<comment> \<open>has returned this manager\<close>

record singleton =
  held :: "nat option"       \<comment> \<open>the static pointer\<close>
  made :: nat
  destroyed :: "nat set"
  where_at :: "nat \<Rightarrow> gi_pc"

inductive gi_step :: "singleton \<Rightarrow> singleton \<Rightarrow> bool" where
  enter: "where_at s t = Outside \<or> where_at s t = Has i \<Longrightarrow> gi_step s (s\<lparr>where_at := (where_at s)(t := Testing)\<rparr>)"
| test: "where_at s t = Testing \<Longrightarrow>
     gi_step s (s\<lparr>where_at := (where_at s)(t := (if held s = None then Making else Leaving))\<rparr>)"
| make: "where_at s t = Making \<Longrightarrow>
     gi_step s (s\<lparr>held := Some (made s), made := Suc (made s),
       destroyed := (case held s of None \<Rightarrow> destroyed s | Some i \<Rightarrow> insert i (destroyed s)),
       where_at := (where_at s)(t := Leaving)\<rparr>)"
| leave: "where_at s t = Leaving \<Longrightarrow> held s = Some i \<Longrightarrow> gi_step s (s\<lparr>where_at := (where_at s)(t := Has i)\<rparr>)"

inductive_cases gi_stepE: "gi_step s s'"

definition gi_initial :: singleton where
  "gi_initial = \<lparr>held = None, made = 0, destroyed = {}, where_at = (\<lambda>_. Outside)\<rparr>"

abbreviation gi_steps :: "singleton \<Rightarrow> singleton \<Rightarrow> bool" where
  "gi_steps \<equiv> gi_step\<^sup>*\<^sup>*"

section \<open>The invariants\<close>

text \<open>What holds of every interleaving: the manager the pointer holds has not been destroyed.\<close>

definition gi_inv :: "singleton \<Rightarrow> bool" where
  "gi_inv s \<longleftrightarrow> (\<forall>i. held s = Some i \<longrightarrow> i < made s \<and> i \<notin> destroyed s) \<and> (\<forall>i \<in> destroyed s. i < made s) \<and>
     (\<forall>t. where_at s t = Leaving \<longrightarrow> held s \<noteq> None)"

lemma gi_inv_step: "gi_step s s' \<Longrightarrow> gi_inv s \<Longrightarrow> gi_inv s'"
  by (erule gi_stepE) (auto simp: gi_inv_def split: option.splits)

lemma gi_inv_initial: "gi_inv gi_initial"
  by (simp add: gi_inv_def gi_initial_def)

lemma gi_inv_reach: "gi_steps s s' \<Longrightarrow> gi_inv s \<Longrightarrow> gi_inv s'"
  by (induction rule: rtranclp_induct) (auto intro: gi_inv_step)

text \<open>Once the manager is there and nobody is about to make another.\<close>

definition settled :: "nat \<Rightarrow> singleton \<Rightarrow> bool" where
  "settled i s \<longleftrightarrow> held s = Some i \<and> (\<forall>t. where_at s t \<noteq> Making) \<and> (\<forall>t j. where_at s t = Has j \<longrightarrow> j = i)"

lemma settled_step: "gi_step s s' \<Longrightarrow> settled i s \<Longrightarrow> settled i s' \<and> destroyed s' = destroyed s"
  by (erule gi_stepE) (auto simp: settled_def)

lemma settled_reach: "gi_steps s s' \<Longrightarrow> settled i s \<Longrightarrow> settled i s' \<and> destroyed s' = destroyed s"
  by (induction rule: rtranclp_induct) (auto dest: settled_step)

section \<open>What getInstance promises\<close>

text \<open>A thread never goes back outside, so while the others are there only one has run.\<close>

definition solo :: "nat \<Rightarrow> singleton \<Rightarrow> bool" where
  "solo t s \<longleftrightarrow> (\<forall>u. u \<noteq> t \<longrightarrow> where_at s u = Outside) \<longrightarrow>
     (where_at s t = Making \<longrightarrow> held s = None) \<and> (\<forall>i. where_at s t = Has i \<longrightarrow> held s = Some i)"

lemma outside_back: "gi_step s s' \<Longrightarrow> where_at s' u = Outside \<Longrightarrow> where_at s u = Outside"
  by (erule gi_stepE) (auto split: if_splits)

lemma solo_step:
  assumes "gi_step s s'" "solo t s"
  shows "solo t s'"
  unfolding solo_def
proof
  assume others: "\<forall>u. u \<noteq> t \<longrightarrow> where_at s' u = Outside"
  then have "\<forall>u. u \<noteq> t \<longrightarrow> where_at s u = Outside" using outside_back[OF assms(1)] by blast
  with assms(2) have "(where_at s t = Making \<longrightarrow> held s = None) \<and> (\<forall>i. where_at s t = Has i \<longrightarrow> held s = Some i)"
    by (simp add: solo_def)
  with assms(1) others
  show "(where_at s' t = Making \<longrightarrow> held s' = None) \<and> (\<forall>i. where_at s' t = Has i \<longrightarrow> held s' = Some i)"
    by (elim gi_stepE) (auto split: if_splits)
qed

lemma solo_reach: "gi_steps s s' \<Longrightarrow> solo t s \<Longrightarrow> solo t s'"
  by (induction rule: rtranclp_induct) (auto intro: solo_step)

lemma solo_initial: "solo t gi_initial"
  by (simp add: solo_def gi_initial_def)

section \<open>What getInstance promises\<close>

text \<open>C24. When one thread has had its manager from \<open>getInstance\<close> before any other calls it, as \<open>main\<close>
  does, every call of every thread from then on returns this same manager, and it is never
  destroyed.\<close>

theorem one_manager_after_first_call:
  assumes "gi_steps gi_initial s" "where_at s t = Has i" "\<forall>u. u \<noteq> t \<longrightarrow> where_at s u = Outside" "gi_steps s s'"
  shows "(\<forall>u j. where_at s' u = Has j \<longrightarrow> j = i) \<and> i \<notin> destroyed s' \<and> held s' = Some i"
proof -
  have h: "held s = Some i" using solo_reach[OF assms(1) solo_initial, of t] assms(2,3) by (simp add: solo_def)
  have "where_at s u \<noteq> Making \<and> (where_at s u = Has j \<longrightarrow> j = i)" for u j
    using assms(2,3) by (cases "u = t") auto
  with h have "settled i s" by (auto simp: settled_def)
  with settled_reach[OF assms(4)] have "settled i s'" "destroyed s' = destroyed s" by auto
  moreover have "i \<notin> destroyed s" using gi_inv_reach[OF assms(1) gi_inv_initial] h by (simp add: gi_inv_def)
  ultimately show ?thesis by (auto simp: settled_def)
qed

text \<open>One thread through the whole of \<open>getInstance\<close>, when the pointer is null and when it is not.\<close>

lemma first_call:
  assumes "held s = None" "where_at s t = Outside"
  shows "gi_steps s (s\<lparr>held := Some (made s), made := Suc (made s), where_at := (where_at s)(t := Has (made s))\<rparr>)"
proof -
  let ?s1 = "s\<lparr>where_at := (where_at s)(t := Testing)\<rparr>" let ?s2 = "s\<lparr>where_at := (where_at s)(t := Making)\<rparr>"
  let ?s3 = "s\<lparr>held := Some (made s), made := Suc (made s), where_at := (where_at s)(t := Leaving)\<rparr>"
  have "gi_step s ?s1" using assms(2) by (rule gi_step.enter[OF disjI1])
  moreover have "gi_step ?s1 ?s2" using gi_step.test[of ?s1 t] assms(1) by simp
  moreover have "gi_step ?s2 ?s3" using gi_step.make[of ?s2 t] assms(1) by simp
  moreover have "gi_step ?s3 (s\<lparr>held := Some (made s), made := Suc (made s), where_at := (where_at s)(t := Has (made s))\<rparr>)"
    using gi_step.leave[of ?s3 t "made s"] by simp
  ultimately show ?thesis by (meson converse_rtranclp_into_rtranclp rtranclp.rtrancl_refl)
qed

theorem one_manager_after_first_call_witness:
  "held (gi_initial\<lparr>held := Some 0, made := 1, where_at := (where_at gi_initial)(5 := Has 0)\<rparr>) = Some 0 \<and>
   0 \<notin> destroyed (gi_initial\<lparr>held := Some 0, made := 1, where_at := (where_at gi_initial)(5 := Has 0)\<rparr>)"
proof -
  let ?s = "gi_initial\<lparr>held := Some 0, made := 1, where_at := (where_at gi_initial)(5 := Has 0)\<rparr>"
  have "gi_steps gi_initial ?s" using first_call[of gi_initial 5] by (simp add: gi_initial_def)
  from one_manager_after_first_call[OF this, of 5 0 ?s] show ?thesis by (simp add: gi_initial_def)
qed

text \<open>C38. Two threads that both find the pointer null make a manager each, and the second assignment
  destroys the manager the first thread has already been given.\<close>

theorem instance_race_dangles:
  "\<exists>s. gi_steps gi_initial s \<and> where_at s 0 = Has 0 \<and> 0 \<in> destroyed s \<and> held s = Some 1"
proof -
  let ?a = "\<lambda>p q. (where_at gi_initial)(0 := p, 1 := q)"
  let ?s1 = "gi_initial\<lparr>where_at := (where_at gi_initial)(0 := Testing)\<rparr>"
  let ?s2 = "gi_initial\<lparr>where_at := ?a Testing Testing\<rparr>"
  let ?s3 = "gi_initial\<lparr>where_at := ?a Making Testing\<rparr>"
  let ?s4 = "gi_initial\<lparr>where_at := ?a Making Making\<rparr>"
  let ?s5 = "gi_initial\<lparr>held := Some 0, made := 1, where_at := ?a Leaving Making\<rparr>"
  let ?s6 = "gi_initial\<lparr>held := Some 0, made := 1, where_at := ?a (Has 0) Making\<rparr>"
  let ?s7 = "gi_initial\<lparr>held := Some 1, made := 2, destroyed := {0}, where_at := ?a (Has 0) Leaving\<rparr>"
  have "gi_step gi_initial ?s1" using gi_step.enter[of gi_initial 0] by (simp add: gi_initial_def)
  moreover have "gi_step ?s1 ?s2" using gi_step.enter[of ?s1 1] by (simp add: gi_initial_def)
  moreover have "gi_step ?s2 ?s3" using gi_step.test[of ?s2 0] by (simp add: gi_initial_def fun_upd_twist)
  moreover have "gi_step ?s3 ?s4" using gi_step.test[of ?s3 1] by (simp add: gi_initial_def fun_upd_twist)
  moreover have "gi_step ?s4 ?s5" using gi_step.make[of ?s4 0] by (simp add: gi_initial_def fun_upd_twist)
  moreover have "gi_step ?s5 ?s6" using gi_step.leave[of ?s5 0 0] by (simp add: gi_initial_def fun_upd_twist)
  moreover have "gi_step ?s6 ?s7"
    using gi_step.make[of ?s6 1] by (simp add: gi_initial_def fun_upd_twist numeral_2_eq_2)
  ultimately have "gi_steps gi_initial ?s7" by (meson converse_rtranclp_into_rtranclp rtranclp.rtrancl_refl)
  then show ?thesis by (intro exI[of _ ?s7]) (simp add: gi_initial_def)
qed

end
