(* ===== verification/Type_Descriptor.thy ===== *)
theory Type_Descriptor
  imports Prelude "HOL-Library.Word"
begin

unbundle bit_operations_syntax

text \<open>
  common/constexpr.h, runtime/primitive\_type.h, runtime/types.h and runtime/types.cpp: the
  primitive types in the order of their enumeration, and the type descriptors with their
  factory functions. The checks \<open>DCHECK\<close> are active in a debug build only, which is a parameter.
\<close>

section \<open>Constants\<close>

definition HLL_COLUMN_PRECISION :: int where "HLL_COLUMN_PRECISION = 14"
definition HLL_ZERO_COUNT_BITS :: int where "HLL_ZERO_COUNT_BITS = 64 - HLL_COLUMN_PRECISION"
definition HLL_EXPLICIT_INT64_NUM :: int where "HLL_EXPLICIT_INT64_NUM = 160"
definition HLL_SPARSE_THRESHOLD :: int where "HLL_SPARSE_THRESHOLD = 4096"
definition HLL_REGISTERS_COUNT :: int where "HLL_REGISTERS_COUNT = 16 * 1024"
definition HLL_COLUMN_DEFAULT_LEN :: int where "HLL_COLUMN_DEFAULT_LEN = HLL_REGISTERS_COUNT + 1"
definition HLL_EMPTY_SIZE :: int where "HLL_EMPTY_SIZE = 1"
definition kJsonDefaultSize :: int where "kJsonDefaultSize = 128"
definition kJsonMetaDefaultFormatVersion :: int where "kJsonMetaDefaultFormatVersion = 1"

definition MAX_INT128 :: "128 word" where "MAX_INT128 = NOT (push_bit 127 1)"
definition MIN_INT128 :: "128 word" where "MIN_INT128 = push_bit 127 1"

definition MAX_VARCHAR_LENGTH :: int where "MAX_VARCHAR_LENGTH = 1048576"
definition MAX_CHAR_LENGTH :: int where "MAX_CHAR_LENGTH = 255"
definition MAX_CHAR_INLINE_LENGTH :: int where "MAX_CHAR_INLINE_LENGTH = 128"
definition DEFAULT_BITMAP_LENGTH :: int where "DEFAULT_BITMAP_LENGTH = 128"
definition MAX_PRECISION :: int where "MAX_PRECISION = 38"
definition MAX_SCALE :: int where "MAX_SCALE = MAX_PRECISION"
definition MAX_DECIMAL4_PRECISION :: int where "MAX_DECIMAL4_PRECISION = 9"
definition MAX_DECIMAL8_PRECISION :: int where "MAX_DECIMAL8_PRECISION = 18"

lemmas type_constants =
  HLL_REGISTERS_COUNT_def HLL_COLUMN_DEFAULT_LEN_def kJsonDefaultSize_def MAX_VARCHAR_LENGTH_def
  MAX_CHAR_LENGTH_def DEFAULT_BITMAP_LENGTH_def MAX_PRECISION_def MAX_SCALE_def

section \<open>Primitive types\<close>

datatype primitive_type =
    INVALID_TYPE | TYPE_NULL | TYPE_BOOLEAN | TYPE_TINYINT | TYPE_SMALLINT | TYPE_INT | TYPE_BIGINT
  | TYPE_LARGEINT | TYPE_FLOAT | TYPE_DOUBLE | TYPE_VARCHAR | TYPE_DATE | TYPE_DATETIME | TYPE_BINARY
  | TYPE_DECIMAL | TYPE_CHAR | TYPE_STRUCT | TYPE_ARRAY | TYPE_MAP | TYPE_HLL | TYPE_DECIMALV2
  | TYPE_TIME | TYPE_OBJECT | TYPE_PERCENTILE | TYPE_DECIMAL32 | TYPE_DECIMAL64 | TYPE_DECIMAL128
  | TYPE_JSON | TYPE_FUNCTION

definition primitive_types :: "primitive_type list" where
  "primitive_types =
    [INVALID_TYPE, TYPE_NULL, TYPE_BOOLEAN, TYPE_TINYINT, TYPE_SMALLINT, TYPE_INT, TYPE_BIGINT,
     TYPE_LARGEINT, TYPE_FLOAT, TYPE_DOUBLE, TYPE_VARCHAR, TYPE_DATE, TYPE_DATETIME, TYPE_BINARY,
     TYPE_DECIMAL, TYPE_CHAR, TYPE_STRUCT, TYPE_ARRAY, TYPE_MAP, TYPE_HLL, TYPE_DECIMALV2,
     TYPE_TIME, TYPE_OBJECT, TYPE_PERCENTILE, TYPE_DECIMAL32, TYPE_DECIMAL64, TYPE_DECIMAL128,
     TYPE_JSON, TYPE_FUNCTION]"

text \<open>The value of an enumerator: its position, counted from 0.\<close>

fun primitive_value :: "primitive_type \<Rightarrow> nat" where
  "primitive_value INVALID_TYPE = 0"
| "primitive_value TYPE_NULL = 1"
| "primitive_value TYPE_BOOLEAN = 2"
| "primitive_value TYPE_TINYINT = 3"
| "primitive_value TYPE_SMALLINT = 4"
| "primitive_value TYPE_INT = 5"
| "primitive_value TYPE_BIGINT = 6"
| "primitive_value TYPE_LARGEINT = 7"
| "primitive_value TYPE_FLOAT = 8"
| "primitive_value TYPE_DOUBLE = 9"
| "primitive_value TYPE_VARCHAR = 10"
| "primitive_value TYPE_DATE = 11"
| "primitive_value TYPE_DATETIME = 12"
| "primitive_value TYPE_BINARY = 13"
| "primitive_value TYPE_DECIMAL = 14"
| "primitive_value TYPE_CHAR = 15"
| "primitive_value TYPE_STRUCT = 16"
| "primitive_value TYPE_ARRAY = 17"
| "primitive_value TYPE_MAP = 18"
| "primitive_value TYPE_HLL = 19"
| "primitive_value TYPE_DECIMALV2 = 20"
| "primitive_value TYPE_TIME = 21"
| "primitive_value TYPE_OBJECT = 22"
| "primitive_value TYPE_PERCENTILE = 23"
| "primitive_value TYPE_DECIMAL32 = 24"
| "primitive_value TYPE_DECIMAL64 = 25"
| "primitive_value TYPE_DECIMAL128 = 26"
| "primitive_value TYPE_JSON = 27"
| "primitive_value TYPE_FUNCTION = 28"

lemma primitive_value_nth: "primitive_types ! primitive_value t = t"
  by (cases t) (simp_all add: primitive_types_def)

lemma primitive_value_inj: "primitive_value s = primitive_value t \<longleftrightarrow> s = t"
  by (metis primitive_value_nth)

text \<open>Enumerators compare by their values.\<close>

instantiation primitive_type :: linorder
begin

definition less_eq_primitive_type :: "primitive_type \<Rightarrow> primitive_type \<Rightarrow> bool" where
  "s \<le> t \<longleftrightarrow> primitive_value s \<le> primitive_value t"

definition less_primitive_type :: "primitive_type \<Rightarrow> primitive_type \<Rightarrow> bool" where
  "s < t \<longleftrightarrow> primitive_value s < primitive_value t"

instance
  by standard (auto simp: less_eq_primitive_type_def less_primitive_type_def primitive_value_inj)

end

section \<open>Type descriptors\<close>

datatype type_descriptor = TypeDescriptor
  (type_of_desc: primitive_type) (len: int) (precision: int) (scale: int)
  (children: "type_descriptor list") (field_names: "string list")

definition TypeDescriptor_default :: type_descriptor where
  "TypeDescriptor_default = TypeDescriptor INVALID_TYPE (- 1) (- 1) (- 1) [] []"

definition TypeDescriptor_of :: "primitive_type \<Rightarrow> type_descriptor" where
  "TypeDescriptor_of ty = TypeDescriptor ty (- 1) (- 1) (- 1) [] []"

definition create_char_type :: "int \<Rightarrow> type_descriptor" where
  "create_char_type l = TypeDescriptor TYPE_CHAR l (- 1) (- 1) [] []"

definition create_varchar_type :: "int \<Rightarrow> type_descriptor" where
  "create_varchar_type l = TypeDescriptor TYPE_VARCHAR l (- 1) (- 1) [] []"

definition create_json_type :: type_descriptor where
  "create_json_type = TypeDescriptor TYPE_JSON kJsonDefaultSize (- 1) (- 1) [] []"

definition create_hll_type :: type_descriptor where
  "create_hll_type = TypeDescriptor TYPE_HLL HLL_COLUMN_DEFAULT_LEN (- 1) (- 1) [] []"

definition create_bitmap_type :: type_descriptor where
  "create_bitmap_type = TypeDescriptor TYPE_OBJECT DEFAULT_BITMAP_LENGTH (- 1) (- 1) [] []"

definition dcheck :: "bool \<Rightarrow> bool \<Rightarrow> string \<Rightarrow> unit res" where
  "dcheck debug cond what = (if debug \<and> \<not> cond then Check_Failed what else Val ())"

text \<open>The four checks every decimal factory makes, in their order.\<close>

definition check_decimal :: "bool \<Rightarrow> int \<Rightarrow> int \<Rightarrow> unit res" where
  "check_decimal debug p s =
     res_bind (dcheck debug (p \<le> MAX_PRECISION) ''precision <= MAX_PRECISION'') (\<lambda>_.
     res_bind (dcheck debug (s \<le> MAX_SCALE) ''scale <= MAX_SCALE'') (\<lambda>_.
     res_bind (dcheck debug (p \<ge> 0) ''precision >= 0'') (\<lambda>_.
     dcheck debug (s \<le> p) ''scale <= precision'')))"

definition create_decimal_type :: "bool \<Rightarrow> int \<Rightarrow> int \<Rightarrow> type_descriptor res" where
  "create_decimal_type debug p s =
     res_bind (check_decimal debug p s) (\<lambda>_. Val (TypeDescriptor TYPE_DECIMAL (- 1) p s [] []))"

definition create_decimalv2_type :: "bool \<Rightarrow> int \<Rightarrow> int \<Rightarrow> type_descriptor res" where
  "create_decimalv2_type debug p s =
     res_bind (check_decimal debug p s) (\<lambda>_. Val (TypeDescriptor TYPE_DECIMALV2 (- 1) p s [] []))"

definition create_decimalv3_type :: "bool \<Rightarrow> primitive_type \<Rightarrow> int \<Rightarrow> int \<Rightarrow> type_descriptor res" where
  "create_decimalv3_type debug ty p s =
     res_bind (dcheck debug (ty = TYPE_DECIMAL32 \<or> ty = TYPE_DECIMAL64 \<or> ty = TYPE_DECIMAL128)
                 ''type is a decimal v3 type'') (\<lambda>_.
     res_bind (check_decimal debug p s) (\<lambda>_. Val (TypeDescriptor ty (- 1) p s [] [])))"

definition from_primitive_type :: "bool \<Rightarrow> primitive_type \<Rightarrow> int \<Rightarrow> int \<Rightarrow> int \<Rightarrow> type_descriptor res" where
  "from_primitive_type debug ty l p s =
     (case ty of
        TYPE_CHAR \<Rightarrow> Val (create_char_type MAX_CHAR_LENGTH)
      | TYPE_VARCHAR \<Rightarrow> Val (create_varchar_type MAX_VARCHAR_LENGTH)
      | TYPE_HLL \<Rightarrow> Val create_hll_type
      | TYPE_DECIMAL \<Rightarrow> create_decimal_type debug p s
      | TYPE_DECIMALV2 \<Rightarrow> create_decimalv2_type debug p s
      | TYPE_DECIMAL32 \<Rightarrow> create_decimalv3_type debug TYPE_DECIMAL32 p s
      | TYPE_DECIMAL64 \<Rightarrow> create_decimalv3_type debug TYPE_DECIMAL64 p s
      | TYPE_DECIMAL128 \<Rightarrow> create_decimalv3_type debug TYPE_DECIMAL128 p s
      | TYPE_JSON \<Rightarrow> Val create_json_type
      | TYPE_OBJECT \<Rightarrow> Val create_bitmap_type
      | _ \<Rightarrow> Val (TypeDescriptor_of ty))"

text \<open>The default arguments of the declaration.\<close>

definition from_primitive_type_default :: "bool \<Rightarrow> primitive_type \<Rightarrow> type_descriptor res" where
  "from_primitive_type_default debug ty = from_primitive_type debug ty MAX_VARCHAR_LENGTH 27 9"

text \<open>The body of \<open>debug\_string\<close> is commented out, its \<open>return\<close> statements included.\<close>

definition type_debug_string :: "type_descriptor \<Rightarrow> string res" where
  "type_debug_string t = Undef Missing_Return"

text \<open>\<open>operator<<\<close>: what has been written to the stream so far, and the type after it.\<close>

definition type_out :: "string \<Rightarrow> type_descriptor \<Rightarrow> string res" where
  "type_out os t = res_bind (type_debug_string t) (\<lambda>s. Val (os @ s))"

section \<open>What the factories promise\<close>

definition decimal_types :: "primitive_type list" where
  "decimal_types = [TYPE_DECIMAL, TYPE_DECIMALV2, TYPE_DECIMAL32, TYPE_DECIMAL64, TYPE_DECIMAL128]"

definition default_len :: "primitive_type \<Rightarrow> int" where
  "default_len ty =
     (if ty = TYPE_CHAR then 255 else if ty = TYPE_VARCHAR then 1048576 else if ty = TYPE_HLL then 16385
      else if ty = TYPE_JSON \<or> ty = TYPE_OBJECT then 128 else - 1)"

lemma dcheck_Val [simp]: "dcheck debug c w = Val u \<longleftrightarrow> debug \<longrightarrow> c"
  by (simp add: dcheck_def)

lemma check_decimal_Val: "check_decimal debug p s = Val u \<longleftrightarrow> (debug \<longrightarrow> 0 \<le> p \<and> p \<le> 38 \<and> s \<le> p)"
  by (auto simp: check_decimal_def res_bind_eq_Val type_constants)

lemma check_decimal_ok: "debug \<longrightarrow> 0 \<le> p \<and> p \<le> 38 \<and> s \<le> p \<Longrightarrow> check_decimal debug p s = Val ()"
  using check_decimal_Val by blast

lemma create_decimals_Val:
  "create_decimal_type debug p s = Val t \<longleftrightarrow>
     (debug \<longrightarrow> 0 \<le> p \<and> p \<le> 38 \<and> s \<le> p) \<and> t = TypeDescriptor TYPE_DECIMAL (- 1) p s [] []"
  "create_decimalv2_type debug p s = Val t \<longleftrightarrow>
     (debug \<longrightarrow> 0 \<le> p \<and> p \<le> 38 \<and> s \<le> p) \<and> t = TypeDescriptor TYPE_DECIMALV2 (- 1) p s [] []"
  "create_decimalv3_type debug ty p s = Val t \<longleftrightarrow>
     (debug \<longrightarrow> (ty = TYPE_DECIMAL32 \<or> ty = TYPE_DECIMAL64 \<or> ty = TYPE_DECIMAL128) \<and>
        0 \<le> p \<and> p \<le> 38 \<and> s \<le> p) \<and> t = TypeDescriptor ty (- 1) p s [] []"
  by (auto simp: create_decimal_type_def create_decimalv2_type_def create_decimalv3_type_def
      res_bind_eq_Val check_decimal_Val)

text \<open>The descriptor made from a primitive type: it exists in a debug build exactly when a
  decimal type has 0 <= precision <= 38 and scale <= precision, and always in a release build; it
  has the type asked for, precision and scale for decimals only, the fixed length of its type,
  whatever length was asked for, and no children.\<close>

theorem from_primitive_type_exact:
  "from_primitive_type debug ty l p s = Val t \<longleftrightarrow>
     (ty \<in> set decimal_types \<and> debug \<longrightarrow> 0 \<le> p \<and> p \<le> 38 \<and> s \<le> p) \<and>
     t = (if ty \<in> set decimal_types then TypeDescriptor ty (- 1) p s [] []
          else TypeDescriptor ty (default_len ty) (- 1) (- 1) [] [])"
  by (cases ty)
     (auto simp: from_primitive_type_def decimal_types_def create_decimals_Val default_len_def
       create_char_type_def create_varchar_type_def create_hll_type_def create_json_type_def
       create_bitmap_type_def TypeDescriptor_of_def type_constants)

theorem from_primitive_type_exact_witness:
  "from_primitive_type True TYPE_DECIMAL64 0 18 4 = Val (TypeDescriptor TYPE_DECIMAL64 (- 1) 18 4 [] []) \<and>
   from_primitive_type True TYPE_DECIMAL64 0 39 4 \<noteq> Val (TypeDescriptor TYPE_DECIMAL64 (- 1) 39 4 [] []) \<and>
   from_primitive_type True TYPE_VARCHAR 10 0 0 = Val (TypeDescriptor TYPE_VARCHAR 1048576 (- 1) (- 1) [] [])"
  by (simp add: from_primitive_type_exact decimal_types_def default_len_def)

lemma from_primitive_type_default_ok:
  "\<exists>t. from_primitive_type_default debug ty = Val t \<and> type_of_desc t = ty"
proof -
  have "from_primitive_type_default debug ty =
      Val (if ty \<in> set decimal_types then TypeDescriptor ty (- 1) 27 9 [] []
           else TypeDescriptor ty (default_len ty) (- 1) (- 1) [] [])"
    by (cases ty)
       (simp_all add: from_primitive_type_default_def from_primitive_type_def decimal_types_def default_len_def
         create_decimal_type_def create_decimalv2_type_def create_decimalv3_type_def check_decimal_ok dcheck_def
         create_char_type_def create_varchar_type_def create_hll_type_def create_json_type_def
         create_bitmap_type_def TypeDescriptor_of_def type_constants)
  then show ?thesis by auto
qed

lemma int128_bounds: "sint MAX_INT128 = 2 ^ 127 - 1" "sint MIN_INT128 = - (2 ^ 127)"
  by (simp_all add: MAX_INT128_def MIN_INT128_def)

end
