(* ===== verification/Descriptors.thy ===== *)
theory Descriptors
  imports Type_Descriptor Cxx_String
begin

text \<open>
  common/global\_types.h, common/mock\_t\_table\_descriptor.h, table/descriptors.h and
  table/descriptors.cpp: the descriptions of tables, tuples and slots and their registry. The
  virtual call of a table's \<open>debug\_string\<close> is a case distinction; a pointer to a descriptor is the
  descriptor, or \<open>None\<close> for the null pointer (descriptors are never changed once registered).
  A hash map is the list of its bindings in the unspecified order it is traversed.
\<close>

section \<open>Identifiers and thrift tables\<close>

type_synonym tuple_id = int
type_synonym slot_id = int
type_synonym table_id = int

record mock_jdbc_table =
  jt_driver_name :: string
  jt_driver_url :: string
  jt_driver_checksum :: string
  jt_driver_class :: string
  jt_url :: string
  jt_table :: string
  jt_user :: string
  jt_passwd :: string

definition MockJDBCTable ::
    "string \<Rightarrow> string \<Rightarrow> string \<Rightarrow> string \<Rightarrow> string \<Rightarrow> string \<Rightarrow> string \<Rightarrow> string \<Rightarrow> mock_jdbc_table" where
  "MockJDBCTable driver_name driver_url driver_checksum driver_class url table user passwd =
     \<lparr>jt_driver_name = driver_name, jt_driver_url = driver_url, jt_driver_checksum = driver_checksum,
      jt_driver_class = driver_class, jt_url = url, jt_table = table, jt_user = user, jt_passwd = passwd\<rparr>"

text \<open>An enumeration with one enumerator still has every value of its type: \<open>Other\_Table\<close>.\<close>

datatype table_type = JDBC_TABLE | Other_Table nat

record mock_t_table_descriptor =
  mt_name :: string
  mt_database :: string
  mt_id :: tuple_id
  mt_table_type :: table_type
  mt_jdbc_table :: mock_jdbc_table

definition MockTTableDescriptor ::
    "string \<Rightarrow> string \<Rightarrow> tuple_id \<Rightarrow> table_type \<Rightarrow> mock_jdbc_table \<Rightarrow> mock_t_table_descriptor" where
  "MockTTableDescriptor n db i ty jt =
     \<lparr>mt_name = n, mt_database = db, mt_id = i, mt_table_type = ty, mt_jdbc_table = jt\<rparr>"

section \<open>Slots\<close>

record slot_descriptor =
  slot_id :: slot_id
  slot_type :: type_descriptor
  slot_parent :: tuple_id
  slot_col_name :: string
  slot_idx :: int
  slot_size :: int
  slot_is_materialized :: bool

text \<open>
  The constructor moves from its reference arguments: the caller's type descriptor keeps its
  numbers and loses its children and field names, the caller's string is left with some value.
\<close>

definition SlotDescriptor ::
    "string \<Rightarrow> slot_id \<Rightarrow> type_descriptor \<Rightarrow> tuple_id \<Rightarrow> string \<Rightarrow> int \<Rightarrow> int \<Rightarrow> bool \<Rightarrow>
     slot_descriptor \<times> type_descriptor \<times> string" where
  "SlotDescriptor leftover i ty parent col_name idx sz materialized =
     (\<lparr>slot_id = i, slot_type = ty, slot_parent = parent, slot_col_name = col_name, slot_idx = idx,
       slot_size = sz, slot_is_materialized = materialized\<rparr>,
      TypeDescriptor (type_of_desc ty) (len ty) (precision ty) (scale ty) [] [], leftover)"

definition slot_debug_string :: "slot_descriptor \<Rightarrow> string res" where
  "slot_debug_string s =
     res_bind (type_out (''Slot(id='' @ to_string (slot_id s) @ '' type='') (slot_type s)) (\<lambda>out.
       Val (out @ '' name='' @ slot_col_name s @ '')''))"

section \<open>Tables\<close>

record table_descriptor =
  td_name :: string
  td_database :: string
  td_id :: table_id

record jdbc_table_descriptor = table_descriptor +
  jdbc_driver_name :: string
  jdbc_driver_url :: string
  jdbc_driver_checksum :: string
  jdbc_driver_class :: string
  jdbc_url :: string
  jdbc_table :: string
  jdbc_user :: string
  jdbc_passwd :: string

datatype any_table = Plain_Table table_descriptor | JDBC_Table jdbc_table_descriptor

definition TableDescriptor :: "mock_t_table_descriptor \<Rightarrow> table_descriptor" where
  "TableDescriptor mt = \<lparr>td_name = mt_name mt, td_database = mt_database mt, td_id = mt_id mt\<rparr>"

definition table_debug_string :: "'a table_descriptor_scheme \<Rightarrow> string" where
  "table_debug_string t = ''#name='' @ td_name t"

definition JDBCTableDescriptor :: "mock_t_table_descriptor \<Rightarrow> jdbc_table_descriptor" where
  "JDBCTableDescriptor mt =
     \<lparr>td_name = mt_name mt, td_database = mt_database mt, td_id = mt_id mt,
      jdbc_driver_name = mt_name mt,
      jdbc_driver_url = jt_driver_url (mt_jdbc_table mt),
      jdbc_driver_checksum = jt_driver_checksum (mt_jdbc_table mt),
      jdbc_driver_class = jt_driver_class (mt_jdbc_table mt),
      jdbc_url = jt_url (mt_jdbc_table mt),
      jdbc_table = jt_table (mt_jdbc_table mt),
      jdbc_user = jt_user (mt_jdbc_table mt),
      jdbc_passwd = jt_passwd (mt_jdbc_table mt)\<rparr>"

definition jdbc_table_debug_string :: "jdbc_table_descriptor \<Rightarrow> string" where
  "jdbc_table_debug_string t =
     ''JDBCTable('' @ table_debug_string t @ '' jdbc_driver_name='' @ jdbc_driver_name t
     @ '' jdbc_driver_url='' @ jdbc_driver_url t @ '' jdbc_driver_checksum='' @ jdbc_driver_checksum t
     @ '' jdbc_driver_class='' @ jdbc_driver_class t @ '' jdbc_url='' @ jdbc_url t
     @ '' jdbc_table='' @ jdbc_table t @ '' jdbc_user='' @ jdbc_user t
     @ '' jdbc_passwd='' @ jdbc_passwd t @ ''}''"

definition any_table_debug_string :: "any_table \<Rightarrow> string" where
  "any_table_debug_string t =
     (case t of Plain_Table p \<Rightarrow> table_debug_string p | JDBC_Table j \<Rightarrow> jdbc_table_debug_string j)"

section \<open>Tuples\<close>

record tuple_descriptor =
  tuple_id :: tuple_id
  table_desc :: "any_table option"
  byte_size :: int
  slots :: "slot_descriptor list"
  decoded_slots :: "slot_descriptor list"

definition TupleDescriptor :: "tuple_id \<Rightarrow> any_table option \<Rightarrow> int \<Rightarrow> tuple_descriptor" where
  "TupleDescriptor i td sz =
     \<lparr>tuple_id = i, table_desc = td, byte_size = sz, slots = [], decoded_slots = []\<rparr>"

definition set_table_desc :: "any_table option \<Rightarrow> tuple_descriptor \<Rightarrow> tuple_descriptor" where
  "set_table_desc td t = t\<lparr>table_desc := td\<rparr>"

definition add_slot :: "slot_descriptor \<Rightarrow> tuple_descriptor \<Rightarrow> tuple_descriptor" where
  "add_slot s t = t\<lparr>slots := slots t @ [s], decoded_slots := decoded_slots t @ [s]\<rparr>"

fun slots_debug_string :: "bool \<Rightarrow> slot_descriptor list \<Rightarrow> string res" where
  "slots_debug_string first [] = Val []"
| "slots_debug_string first (s # ss) =
     res_bind (slot_debug_string s) (\<lambda>out.
     res_bind (slots_debug_string False ss) (\<lambda>rest.
       Val ((if first then [] else '', '') @ out @ rest)))"

definition tuple_debug_string :: "tuple_descriptor \<Rightarrow> string res" where
  "tuple_debug_string t =
     res_bind (slots_debug_string True (slots t)) (\<lambda>out.
       Val (''Tuple(id='' @ to_string (tuple_id t) @ '' size='' @ to_string (byte_size t) @ '' slots=['' @ out
            @ '']'' @ '')''))"

section \<open>The registry\<close>

record descriptor_tbl =
  tbl_desc_map :: "(table_id \<times> any_table) list"
  tuple_desc_map :: "(tuple_id \<times> tuple_descriptor) list"
  slot_desc_map :: "(slot_id \<times> slot_descriptor) list"

definition DescriptorTbl :: descriptor_tbl where
  "DescriptorTbl = \<lparr>tbl_desc_map = [], tuple_desc_map = [], slot_desc_map = []\<rparr>"

text \<open>
  \<open>create\<close> builds a table descriptor, drops it, and reaches its closing brace without a
  \<open>return\<close>; \<open>*tbl\<close> is never assigned. The second component is \<open>*tbl\<close> as the caller finds it.
\<close>

definition DescriptorTbl_create ::
    "mock_t_table_descriptor \<Rightarrow> int \<Rightarrow> descriptor_tbl option \<Rightarrow> unit res \<times> descriptor_tbl option" where
  "DescriptorTbl_create mt chunk_size tbl =
     (let desc = (case mt_table_type mt of
                    JDBC_TABLE \<Rightarrow> Some (JDBC_Table (JDBCTableDescriptor mt))
                  | Other_Table _ \<Rightarrow> None)
      in (Undef Missing_Return, tbl))"

definition get_table_descriptor :: "descriptor_tbl \<Rightarrow> table_id \<Rightarrow> any_table option" where
  "get_table_descriptor t i = map_of (tbl_desc_map t) i"

definition get_tuple_descriptor :: "descriptor_tbl \<Rightarrow> tuple_id \<Rightarrow> tuple_descriptor option" where
  "get_tuple_descriptor t i = map_of (tuple_desc_map t) i"

definition get_slot_descriptor :: "descriptor_tbl \<Rightarrow> slot_id \<Rightarrow> slot_descriptor option" where
  "get_slot_descriptor t i = map_of (slot_desc_map t) i"

definition get_tuple_descs :: "descriptor_tbl \<Rightarrow> tuple_descriptor list" where
  "get_tuple_descs t = map snd (tuple_desc_map t)"

fun tuples_debug_string :: "tuple_descriptor list \<Rightarrow> string res" where
  "tuples_debug_string [] = Val []"
| "tuples_debug_string (t # ts) =
     res_bind (tuple_debug_string t) (\<lambda>out.
     res_bind (tuples_debug_string ts) (\<lambda>rest. Val (out @ CHR 0x0A # rest)))"

definition tbl_debug_string :: "descriptor_tbl \<Rightarrow> string res" where
  "tbl_debug_string t =
     res_bind (tuples_debug_string (get_tuple_descs t)) (\<lambda>out. Val (''tuples:'' @ CHR 0x0A # out))"

section \<open>The lookup contract\<close>

text \<open>A finite map that is searched by key and traversed as a list of bindings.\<close>

locale registry =
  fixes find_key :: "'t \<Rightarrow> int \<Rightarrow> 'v option" and bindings :: "'t \<Rightarrow> (int \<times> 'v) list" and
    wf :: "'t \<Rightarrow> bool"
  assumes wf_distinct: "wf t \<Longrightarrow> distinct (map fst (bindings t))"
    and find_key: "wf t \<Longrightarrow> find_key t k = Some v \<longleftrightarrow> (k, v) \<in> set (bindings t)"
begin

lemma find_none: "wf t \<Longrightarrow> find_key t k = None \<longleftrightarrow> k \<notin> fst ` set (bindings t)"
proof -
  assume wf: "wf t"
  have "k \<in> fst ` set (bindings t) \<longleftrightarrow> (\<exists>v. (k, v) \<in> set (bindings t))" by force
  then show ?thesis using find_key[OF wf, of k] by (cases "find_key t k") auto
qed

lemma values_found: "wf t \<Longrightarrow> set (map snd (bindings t)) = {v. \<exists>k. find_key t k = Some v}"
  using find_key[of t] by (auto simp: image_iff) force

lemma values_count: "wf t \<Longrightarrow> length (map snd (bindings t)) = card {k. find_key t k \<noteq> None}"
  using distinct_card[OF wf_distinct, of t] by (simp add: find_none)

end

definition tbl_wf :: "descriptor_tbl \<Rightarrow> bool" where
  "tbl_wf t \<longleftrightarrow> distinct (map fst (tbl_desc_map t)) \<and> distinct (map fst (tuple_desc_map t)) \<and>
     distinct (map fst (slot_desc_map t))"

interpretation tables: registry get_table_descriptor tbl_desc_map tbl_wf
  by unfold_locales (simp_all add: tbl_wf_def get_table_descriptor_def map_of_eq_Some_iff)

interpretation tuples: registry get_tuple_descriptor tuple_desc_map tbl_wf
  by unfold_locales (simp_all add: tbl_wf_def get_tuple_descriptor_def map_of_eq_Some_iff)

interpretation slot_registry: registry get_slot_descriptor slot_desc_map tbl_wf
  by unfold_locales (simp_all add: tbl_wf_def get_slot_descriptor_def map_of_eq_Some_iff)

text \<open>The registry lists exactly the tuples that can be looked up, one for each identifier.\<close>

theorem tuple_registry_consistent:
  assumes "tbl_wf t"
  shows "(get_tuple_descriptor t i = Some d \<longrightarrow> d \<in> set (get_tuple_descs t)) \<and>
    (d \<in> set (get_tuple_descs t) \<longrightarrow> (\<exists>j. get_tuple_descriptor t j = Some d)) \<and>
    length (get_tuple_descs t) = card {j. get_tuple_descriptor t j \<noteq> None}"
  using tuples.values_found[OF assms] tuples.values_count[OF assms]
  by (auto simp: get_tuple_descs_def)

definition demo_tbl :: descriptor_tbl where
  "demo_tbl = DescriptorTbl\<lparr>tuple_desc_map := [(123, TupleDescriptor 123 None 16), (5, TupleDescriptor 5 None 8)]\<rparr>"

theorem tuple_registry_consistent_witness:
  "get_tuple_descriptor demo_tbl 123 = Some (TupleDescriptor 123 None 16) \<and>
   TupleDescriptor 123 None 16 \<in> set (get_tuple_descs demo_tbl)"
proof -
  have "tbl_wf demo_tbl" "get_tuple_descriptor demo_tbl 123 = Some (TupleDescriptor 123 None 16)"
    by (simp_all add: tbl_wf_def demo_tbl_def DescriptorTbl_def get_tuple_descriptor_def)
  with tuple_registry_consistent[OF this(1)] show ?thesis by blast
qed

section \<open>What the descriptors promise\<close>

text \<open>The descriptor of a JDBC table carries the connection data of the thrift table unchanged,
  but its driver name is the name of the table: it is the driver's name only where the two agree.\<close>

theorem jdbc_table_descriptor_fields:
  "jdbc_driver_url (JDBCTableDescriptor mt) = jt_driver_url (mt_jdbc_table mt) \<and>
   jdbc_driver_checksum (JDBCTableDescriptor mt) = jt_driver_checksum (mt_jdbc_table mt) \<and>
   jdbc_driver_class (JDBCTableDescriptor mt) = jt_driver_class (mt_jdbc_table mt) \<and>
   jdbc_url (JDBCTableDescriptor mt) = jt_url (mt_jdbc_table mt) \<and>
   jdbc_table (JDBCTableDescriptor mt) = jt_table (mt_jdbc_table mt) \<and>
   jdbc_user (JDBCTableDescriptor mt) = jt_user (mt_jdbc_table mt) \<and>
   jdbc_passwd (JDBCTableDescriptor mt) = jt_passwd (mt_jdbc_table mt) \<and>
   table_descriptor.truncate (JDBCTableDescriptor mt) = TableDescriptor mt \<and>
   (jdbc_driver_name (JDBCTableDescriptor mt) = jt_driver_name (mt_jdbc_table mt) \<longleftrightarrow>
    mt_name mt = jt_driver_name (mt_jdbc_table mt))"
  by (simp add: JDBCTableDescriptor_def TableDescriptor_def table_descriptor.defs)

lemma slots_debug_string_undef: "ss \<noteq> [] \<Longrightarrow> slots_debug_string first ss = Undef Missing_Return"
  by (cases ss) (simp_all add: slot_debug_string_def type_out_def type_debug_string_def)

lemma tuple_debug_string_cases:
  "tuple_debug_string t =
     (if slots t = [] then Val (''Tuple(id='' @ to_string (tuple_id t) @ '' size='' @ to_string (byte_size t) @ '' slots=[])'')
      else Undef Missing_Return)"
  using slots_debug_string_undef[of "slots t" True] by (simp add: tuple_debug_string_def)

lemma tuples_debug_string_Val: "is_Val (tuples_debug_string ts) \<longleftrightarrow> (\<forall>t \<in> set ts. slots t = [])"
  by (induction ts) (auto simp: tuple_debug_string_cases is_Val_iff res_bind_eq_Val)

text \<open>Printing the registry is defined exactly when no tuple in it has a slot: the first slot that
  is printed runs into the empty body of the type's \<open>debug\_string\<close>.\<close>

theorem tbl_debug_string_defined:
  "is_Val (tbl_debug_string t) \<longleftrightarrow> (\<forall>d \<in> set (get_tuple_descs t). slots d = [])"
  by (simp add: tbl_debug_string_def is_Val_iff res_bind_eq_Val flip: tuples_debug_string_Val)

theorem tbl_debug_string_defined_witness:
  "is_Val (tbl_debug_string demo_tbl) \<and>
   \<not> is_Val (tbl_debug_string (demo_tbl\<lparr>tuple_desc_map :=
      [(1, add_slot (fst (SlotDescriptor [] 1 (TypeDescriptor_of TYPE_INT) 1 ''c'' 0 4 True))
             (TupleDescriptor 1 None 4))]\<rparr>))"
  by (simp add: tbl_debug_string_defined get_tuple_descs_def demo_tbl_def DescriptorTbl_def
      TupleDescriptor_def add_slot_def)

end
