(* ===== verification/Runtime_State.thy ===== *)
theory Runtime_State
  imports Status Descriptors
begin

text \<open>
  runtime/runtime\_state.h with the first-error status of a query, over the heap of Status; and
  the small data containers common/buffer.h, common/buffer.cpp, common/chunk.h, column/column.h,
  column/column\_helper.h and column/column\_helper.cpp.
\<close>

section \<open>Buffers, columns and chunks\<close>

type_synonym buffer = "char list"

definition buffer_append :: "string \<Rightarrow> nat \<Rightarrow> buffer \<Rightarrow> buffer res" where
  "buffer_append ptr n b = (if n \<le> length ptr then Val (b @ take n ptr) else Undef Out_Of_Bounds)"

definition buffer_read :: "buffer \<Rightarrow> char list" where
  "buffer_read b = b"

definition buffer_size :: "buffer \<Rightarrow> nat" where
  "buffer_size b = length b"

definition buffer_clear :: "buffer \<Rightarrow> buffer" where
  "buffer_clear b = []"

text \<open>
  No class implements \<open>Column\<close>; a column is known by what its one operation answers, its size. A
  pointer to a column may be null.
\<close>

record column =
  column_size :: nat

definition create_column :: "type_descriptor \<Rightarrow> bool \<Rightarrow> column option" where
  "create_column type_desc nullable = None"

record chunk =
  columns :: "column option list"

definition Chunk :: chunk where
  "Chunk = \<lparr>columns = []\<rparr>"

definition num_rows :: "chunk \<Rightarrow> nat res" where
  "num_rows c =
     (case columns c of
        [] \<Rightarrow> Val 0
      | None # _ \<Rightarrow> Undef Null_Deref
      | Some col # _ \<Rightarrow> Val (column_size col))"

section \<open>The state of a query\<close>

record runtime_state =
  desc_tbl :: "descriptor_tbl option"
  process_status :: status_ptr

definition RuntimeState :: runtime_state where
  "RuntimeState = \<lparr>desc_tbl = None, process_status = status_default\<rparr>"

definition desc_tbl_ref :: "runtime_state \<Rightarrow> descriptor_tbl res" where
  "desc_tbl_ref rs = (case desc_tbl rs of None \<Rightarrow> Undef Null_Deref | Some t \<Rightarrow> Val t)"

definition set_desc_tbl :: "descriptor_tbl option \<Rightarrow> runtime_state \<Rightarrow> runtime_state" where
  "set_desc_tbl t rs = rs\<lparr>desc_tbl := t\<rparr>"

type_synonym rs_heap = "runtime_state \<times> sheap"

definition on_heap :: "(sheap, 'a) prog \<Rightarrow> (rs_heap, 'a) prog" where
  "on_heap p = zoom snd (\<lambda>h (rs, _). (rs, h)) p"

definition put_process_status :: "status_ptr \<Rightarrow> (rs_heap, unit) prog" where
  "put_process_status p = modify (\<lambda>(rs, h). (rs\<lparr>process_status := p\<rparr>, h))"

text \<open>The overload for a message: a temporary status is moved into the member.\<close>

definition set_process_status_msg :: "string \<Rightarrow> (rs_heap, unit) prog" where
  "set_process_status_msg err_msg =
     bind (gets (process_status \<circ> fst)) (\<lambda>this.
       if \<not> status_ok this then ret ()
       else
         bind (on_heap (\<lambda>h. case status_InternalError err_msg h of (p, h') \<Rightarrow> (Val p, h'))) (\<lambda>tmp.
         bind (on_heap (status_move_assign False this tmp)) (\<lambda>(this', tmp').
         bind (put_process_status this') (\<lambda>_. on_heap (status_destroy tmp')))))"

text \<open>The overload for a status: the member is copy-assigned, so it shares the block.\<close>

definition set_process_status :: "status_ptr \<Rightarrow> (rs_heap, unit) prog" where
  "set_process_status status =
     (if status_ok status then ret ()
      else
        bind (gets (process_status \<circ> fst)) (\<lambda>this.
          if \<not> status_ok this then ret ()
          else put_process_status (status_copy_assign this status)))"

definition RuntimeState_destroy :: "(rs_heap, unit) prog" where
  "RuntimeState_destroy = bind (gets (process_status \<circ> fst)) (\<lambda>p. on_heap (status_destroy p))"

section \<open>The first error is kept\<close>

datatype report = Report_Message string | Report_Status status_ptr

definition do_report :: "report \<Rightarrow> (rs_heap, unit) prog" where
  "do_report r = (case r of Report_Message m \<Rightarrow> set_process_status_msg m | Report_Status st \<Rightarrow> set_process_status st)"

fun do_reports :: "report list \<Rightarrow> (rs_heap, unit) prog" where
  "do_reports [] = ret ()"
| "do_reports (r # rs) = bind (do_report r) (\<lambda>_. do_reports rs)"

text \<open>What a report says, on a heap where its status is alive.\<close>

definition report_value :: "sheap \<Rightarrow> report \<Rightarrow> status option" where
  "report_value h r =
     (case r of Report_Message m \<Rightarrow> Some (internal_error m) | Report_Status st \<Rightarrow> abs_status st h)"

definition first_error :: "status list \<Rightarrow> status" where
  "first_error vs = (case filter (\<lambda>v. \<not> ok v) vs of [] \<Rightarrow> OK | v # _ \<Rightarrow> v)"

lemma abs_status_append: "abs_status st h = Some v \<Longrightarrow> abs_status st (h @ h') = Some v"
  by (auto simp: abs_status_def deref_def nth_append split: option.splits res.splits if_splits block.splits)

lemma report_value_append: "report_value h r = Some v \<Longrightarrow> report_value (h @ h') r = Some v"
  by (auto simp: report_value_def abs_status_append split: report.splits)

lemma on_heap_run [run_simps]: "p h = (r, h') \<Longrightarrow> on_heap p (rs, h) = (r, (rs, h'))"
  by (simp add: on_heap_def zoom_def)

lemma abs_status_ok: "abs_status st h = Some v \<Longrightarrow> status_ok st \<longleftrightarrow> ok v"
  by (rule status_refines(1))

text \<open>One report: the value of the member changes only while it is OK.\<close>

lemma do_report_run:
  assumes "abs_status (process_status rs) h = Some v" "report_value h r = Some w"
  shows "\<exists>rs' h'. do_report r (rs, h) = (Val (), (rs', h @ h')) \<and>
    desc_tbl rs' = desc_tbl rs \<and>
    abs_status (process_status rs') (h @ h') = Some (if ok v then w else v)"
proof (cases r)
  case (Report_Message m)
  then have w: "w = internal_error m" using assms(2) by (simp add: report_value_def)
  show ?thesis
  proof (cases "process_status rs")
    case None
    with assms(1) have "v = OK" by (simp add: abs_status_def)
    with None w Report_Message show ?thesis
      by (intro exI[of _ "rs\<lparr>process_status := Some (length h)\<rparr>"] exI[of _ "[Live (c_str m)]"])
         (simp add: do_report_def set_process_status_msg_def bind_def run_simps status_ok_def
           status_InternalError_def status_move_assign_def status_destroy_def put_process_status_def
           on_heap_run abs_status_def internal_error_def)
  next
    case (Some p)
    with assms(1) have "\<not> ok v" using abs_status_ok[OF assms(1)] by (simp add: status_ok_def)
    with Some Report_Message assms(1) show ?thesis
      by (intro exI[of _ rs] exI[of _ "[]"])
         (simp add: do_report_def set_process_status_msg_def bind_def run_simps status_ok_def)
  qed
next
  case (Report_Status st)
  then have w: "abs_status st h = Some w" using assms(2) by (simp add: report_value_def)
  consider "ok w" | "\<not> ok w" "ok v" | "\<not> ok w" "\<not> ok v" by blast
  then show ?thesis
  proof cases
    case 1
    with abs_status_ok[OF w] Report_Status assms(1) show ?thesis
      by (intro exI[of _ rs] exI[of _ "[]"]) (auto simp: do_report_def set_process_status_def run_simps ok_def)
  next
    case 2
    with abs_status_ok[OF w] abs_status_ok[OF assms(1)] Report_Status w show ?thesis
      by (intro exI[of _ "rs\<lparr>process_status := st\<rparr>"] exI[of _ "[]"])
         (simp add: do_report_def set_process_status_def bind_def run_simps put_process_status_def
           status_copy_assign_def)
  next
    case 3
    with abs_status_ok[OF w] abs_status_ok[OF assms(1)] Report_Status assms(1) show ?thesis
      by (intro exI[of _ rs] exI[of _ "[]"])
         (simp add: do_report_def set_process_status_def bind_def run_simps)
  qed
qed

lemma do_reports_run:
  assumes "abs_status (process_status rs) h = Some v" "map (report_value h) reports = map Some ws"
  shows "\<exists>rs' h'. do_reports reports (rs, h) = (Val (), (rs', h @ h')) \<and> desc_tbl rs' = desc_tbl rs \<and>
    abs_status (process_status rs') (h @ h') = Some (first_error (v # ws))"
  using assms
proof (induction reports arbitrary: rs h v ws)
  case Nil
  then show ?case
    by (intro exI[of _ rs] exI[of _ "[]"]) (auto simp: run_simps first_error_def ok_def)
next
  case (Cons r reports)
  then obtain w ws' where ws: "ws = w # ws'" "report_value h r = Some w"
    "map (report_value h) reports = map Some ws'" by (cases ws) auto
  from do_report_run[OF Cons.prems(1) ws(2)] obtain rs1 h1 where
    r1: "do_report r (rs, h) = (Val (), (rs1, h @ h1))" "desc_tbl rs1 = desc_tbl rs"
      "abs_status (process_status rs1) (h @ h1) = Some (if ok v then w else v)" by blast
  have "map (report_value (h @ h1)) reports = map Some ws'"
    using ws(3) report_value_append[of h] by (auto simp: list_eq_iff_nth_eq)
  from Cons.IH[OF r1(3) this] obtain rs' h' where
    r2: "do_reports reports (rs1, h @ h1) = (Val (), (rs', (h @ h1) @ h'))" "desc_tbl rs' = desc_tbl rs1"
      "abs_status (process_status rs') ((h @ h1) @ h') = Some (first_error ((if ok v then w else v) # ws'))"
    by blast
  have "first_error ((if ok v then w else v) # ws') = first_error (v # ws)"
    by (auto simp: first_error_def ws(1))
  with r1 r2 show ?case
    by (intro exI[of _ rs'] exI[of _ "h1 @ h'"]) (simp add: run_simps)
qed

text \<open>Whatever is reported to a fresh query state, by message or by a live status, its process
  status afterwards is the first error among the reports, and OK when there was none.\<close>

theorem first_error_wins:
  assumes "map (report_value h) reports = map Some vs"
  shows "\<exists>rs' h'. do_reports reports (RuntimeState, h) = (Val (), (rs', h @ h')) \<and>
    abs_status (process_status rs') (h @ h') = Some (first_error vs)"
proof -
  have "abs_status (process_status RuntimeState) h = Some OK"
    by (simp add: RuntimeState_def abs_status_def)
  from do_reports_run[OF this assms] show ?thesis by (auto simp: first_error_def)
qed

theorem first_error_wins_witness:
  "\<exists>rs' h'. do_reports [Report_Status None, Report_Message ''jvm'', Report_Status (Some 0)]
      (RuntimeState, [Live ''late'']) = (Val (), (rs', [Live ''late''] @ h')) \<and>
    abs_status (process_status rs') ([Live ''late''] @ h') = Some (Internal_Error ''jvm'')"
proof -
  have "map (report_value [Live ''late'']) [Report_Status None, Report_Message ''jvm'', Report_Status (Some 0)]
      = map Some [OK, Internal_Error ''jvm'', Internal_Error ''late'']"
    by (simp add: report_value_def abs_status_def deref_def internal_error_def c_str_def)
  from first_error_wins[OF this] show ?thesis by (simp add: first_error_def)
qed

text \<open>Reporting an error by its status object leaves two owners of one block: once the reporter's
  object is destroyed, destroying the query state frees the block a second time.\<close>

theorem reported_status_double_free:
  assumes "status = Some p" "p < length h" "h ! p = Live m"
  shows "fst (bind (set_process_status status) (\<lambda>_. bind (on_heap (status_destroy status)) (\<lambda>_. RuntimeState_destroy))
    (RuntimeState, h)) = Undef Double_Free"
  using assms
  by (simp add: set_process_status_def RuntimeState_def RuntimeState_destroy_def bind_def run_simps
      status_ok_def put_process_status_def status_copy_assign_def on_heap_run status_destroy_def)

theorem reported_status_double_free_witness:
  "fst (bind (set_process_status (Some 0)) (\<lambda>_. bind (on_heap (status_destroy (Some 0))) (\<lambda>_. RuntimeState_destroy))
    (RuntimeState, [Live ''open failed''])) = Undef Double_Free"
  using reported_status_double_free[of "Some 0" 0 "[Live ''open failed'']" "''open failed''"] by simp

end
