(* ===== verification/Java_Udf.thy ===== *)
theory Java_Udf
  imports Status
begin

text \<open>
  udf/java\_udf.h and udf/java\_udf.cpp: the helper over the Java Native Interface. The function
  table of JNI and the virtual machine behind it are parameters: a function of the table maps the
  state of the machine to a result and the next state. A reference is a number, or \<open>None\<close> for
  null; JNI leaves a call through a null class, object or method undefined.
\<close>

section \<open>The interface\<close>

type_synonym jref = "nat option"

datatype jarg = J_Ref jref | J_Int int

record 'j jni =
  FindClass :: "string \<Rightarrow> 'j \<Rightarrow> jref \<times> 'j"
  GetMethodID :: "jref \<Rightarrow> string \<Rightarrow> string \<Rightarrow> 'j \<Rightarrow> jref \<times> 'j"
  GetStaticMethodID :: "jref \<Rightarrow> string \<Rightarrow> string \<Rightarrow> 'j \<Rightarrow> jref \<times> 'j"
  NewObject :: "jref \<Rightarrow> jref \<Rightarrow> jarg list \<Rightarrow> 'j \<Rightarrow> jref \<times> 'j"
  CallObjectMethod :: "jref \<Rightarrow> jref \<Rightarrow> jarg list \<Rightarrow> 'j \<Rightarrow> jref \<times> 'j"
  CallStaticObjectMethod :: "jref \<Rightarrow> jref \<Rightarrow> jarg list \<Rightarrow> 'j \<Rightarrow> jref \<times> 'j"
  CallVoidMethod :: "jref \<Rightarrow> jref \<Rightarrow> jarg list \<Rightarrow> 'j \<Rightarrow> unit \<times> 'j"
  CallBooleanMethod :: "jref \<Rightarrow> jref \<Rightarrow> jarg list \<Rightarrow> 'j \<Rightarrow> bool \<times> 'j"
  CallIntMethod :: "jref \<Rightarrow> jref \<Rightarrow> jarg list \<Rightarrow> 'j \<Rightarrow> int \<times> 'j"
  NewStringUTF :: "string \<Rightarrow> 'j \<Rightarrow> jref \<times> 'j"
  GetStringUTFChars :: "jref \<Rightarrow> 'j \<Rightarrow> string option \<times> 'j"
  ReleaseStringUTFChars :: "jref \<Rightarrow> 'j \<Rightarrow> unit \<times> 'j"
  NewGlobalRef :: "jref \<Rightarrow> 'j \<Rightarrow> jref \<times> 'j"
  DeleteLocalRef :: "jref \<Rightarrow> 'j \<Rightarrow> unit \<times> 'j"
  ExceptionOccurred :: "'j \<Rightarrow> jref"
  ExceptionClear :: "'j \<Rightarrow> unit \<times> 'j"
  CreateJavaVM :: "'j \<Rightarrow> int \<times> 'j"

text \<open>The identifiers \<open>JVMFunctionHelper::\_init\<close> looks up once.\<close>

record jvm_helper =
  object_class :: jref
  object_array_class :: jref
  string_class :: jref
  throwable_class :: jref
  jarrays_class :: jref
  list_class :: jref
  boxes :: "(string \<times> jref \<times> jref \<times> jref) list"   \<comment> \<open>primitive: class, \<open>valueOf\<close>, \<open>...Value\<close>\<close>
  list_get_id :: jref
  list_size_id :: jref

text \<open>
  The process: the machine, whether the static \<open>jniInit\<close> exists, whether the thread's \<open>\_env\<close> is
  set, the static helper, the environment variable, and the heap of status blocks.
\<close>

record 'j jworld =
  java :: 'j
  jni_init :: bool
  env_set :: bool
  the_helper :: "jvm_helper option"
  JAVA_HOME :: "string option"
  statuses :: sheap

section \<open>Calls\<close>

definition jcall :: "('j \<Rightarrow> 'a \<times> 'j) \<Rightarrow> ('j jworld, 'a) prog" where
  "jcall f w = (case f (java w) of (a, j) \<Rightarrow> (Val a, w\<lparr>java := j\<rparr>))"

text \<open>A call through \<open>\_env\<close> and references that must not be null.\<close>

definition through :: "jref list \<Rightarrow> ('j \<Rightarrow> 'a \<times> 'j) \<Rightarrow> ('j jworld, 'a) prog" where
  "through refs f w = (if env_set w \<and> None \<notin> set refs then jcall f w else (Undef Null_Deref, w))"

definition getJNIEnv :: "'j jni \<Rightarrow> ('j jworld, unit) prog" where
  "getJNIEnv jni w =
     (if jni_init w then (Val (), w)
      else bind (jcall (CreateJavaVM jni)) (\<lambda>ret_code.
             if ret_code < 0 then throw (Runtime_Error ''Unable to launch JVM'')
             else modify (\<lambda>w. w\<lparr>jni_init := True\<rparr>)) w)"

definition JNI_FIND_CLASS :: "'j jni \<Rightarrow> string \<Rightarrow> ('j jworld, jref) prog" where
  "JNI_FIND_CLASS jni n =
     bind (through [] (FindClass jni n)) (\<lambda>clazz.
     bind (through [] (NewGlobalRef jni clazz)) (\<lambda>g_clazz.
     bind (through [] (DeleteLocalRef jni clazz)) (\<lambda>_. ret g_clazz)))"

definition add_numberic_class ::
    "'j jni \<Rightarrow> string \<times> string \<times> string \<Rightarrow> ('j jworld, string \<times> jref \<times> jref \<times> jref) prog" where
  "add_numberic_class jni d = (case d of (prim, clazz, sign) \<Rightarrow>
     bind (JNI_FIND_CLASS jni (''java/lang/'' @ clazz)) (\<lambda>c.
     bind (through [c] (GetStaticMethodID jni c ''valueOf''
             (''('' @ sign @ '')Ljava/lang/'' @ clazz @ '';''))) (\<lambda>value_of.
     bind (through [c] (GetMethodID jni c (prim @ ''Value'') (''()'' @ sign))) (\<lambda>val.
       ret (prim, c, value_of, val)))))"

fun for_each :: "('a \<Rightarrow> ('s, 'b) prog) \<Rightarrow> 'a list \<Rightarrow> ('s, 'b list) prog" where
  "for_each f [] = ret []"
| "for_each f (x # xs) = bind (f x) (\<lambda>y. bind (for_each f xs) (\<lambda>ys. ret (y # ys)))"

definition numeric_classes :: "(string \<times> string \<times> string) list" where
  "numeric_classes =
    [(''boolean'', ''Boolean'', ''Z''), (''byte'', ''Byte'', ''B''), (''short'', ''Short'', ''S''),
     (''int'', ''Integer'', ''I''), (''long'', ''Long'', ''J''), (''float'', ''Float'', ''F''),
     (''double'', ''Double'', ''D'')]"

definition helper_init :: "'j jni \<Rightarrow> ('j jworld, jvm_helper) prog" where
  "helper_init jni =
     bind (JNI_FIND_CLASS jni ''java/lang/Object'') (\<lambda>object.
     bind (JNI_FIND_CLASS jni ''[Ljava/lang/Object;'') (\<lambda>object_array.
     bind (JNI_FIND_CLASS jni ''java/lang/String'') (\<lambda>string.
     bind (JNI_FIND_CLASS jni ''java/lang/Throwable'') (\<lambda>throwable.
     bind (JNI_FIND_CLASS jni ''java/util/Arrays'') (\<lambda>jarrays.
     bind (JNI_FIND_CLASS jni ''java/util/List'') (\<lambda>listc.
     bind (for_each (add_numberic_class jni) numeric_classes) (\<lambda>bs.
     bind (through [listc] (GetMethodID jni listc ''get'' ''(I)Ljava/lang/Object;'')) (\<lambda>get_id.
     bind (through [listc] (GetMethodID jni listc ''size'' ''()I'')) (\<lambda>size_id.
       ret \<lparr>object_class = object, object_array_class = object_array, string_class = string,
            throwable_class = throwable, jarrays_class = jarrays, list_class = listc, boxes = bs,
            list_get_id = get_id, list_size_id = size_id\<rparr>)))))))))"

definition getInstance_jvm :: "'j jni \<Rightarrow> ('j jworld, jvm_helper) prog" where
  "getInstance_jvm jni =
     bind (\<lambda>w. if env_set w then (Val (), w)
               else bind (getJNIEnv jni) (\<lambda>_. modify (\<lambda>w. w\<lparr>env_set := True\<rparr>)) w) (\<lambda>_.
     bind (gets the_helper) (\<lambda>h. case h of
       Some h \<Rightarrow> ret h
     | None \<Rightarrow> bind (helper_init jni) (\<lambda>h. bind (modify (\<lambda>w. w\<lparr>the_helper := Some h\<rparr>)) (\<lambda>_. ret h))))"

definition getToStringMethod :: "'j jni \<Rightarrow> jref \<Rightarrow> ('j jworld, jref) prog" where
  "getToStringMethod jni clazz = through [clazz] (GetMethodID jni clazz ''toString'' ''()Ljava/lang/String;'')"

definition to_cxx_string :: "'j jni \<Rightarrow> jref \<Rightarrow> ('j jworld, string) prog" where
  "to_cxx_string jni str =
     bind (through [str] (GetStringUTFChars jni str)) (\<lambda>charflow. case charflow of
       None \<Rightarrow> undef Null_Deref
     | Some s \<Rightarrow> bind (through [str] (ReleaseStringUTFChars jni str)) (\<lambda>_. ret (c_str s)))"

definition jvm_to_string :: "'j jni \<Rightarrow> jvm_helper \<Rightarrow> jref \<Rightarrow> ('j jworld, string) prog" where
  "jvm_to_string jni h obj =
     bind (through [] (ExceptionClear jni)) (\<lambda>_.
     bind (getToStringMethod jni (object_class h)) (\<lambda>method.
     bind (through [obj, method] (CallObjectMethod jni obj method [])) (\<lambda>res. to_cxx_string jni res)))"

definition array_to_string :: "'j jni \<Rightarrow> jvm_helper \<Rightarrow> jref \<Rightarrow> ('j jworld, string) prog" where
  "array_to_string jni h obj =
     bind (through [] (ExceptionClear jni)) (\<lambda>_.
     bind (through [jarrays_class h] (GetStaticMethodID jni (jarrays_class h) ''toString''
             ''([Ljava/lang/Object;)Ljava/lang/String;'')) (\<lambda>m.
     bind (through [jarrays_class h, m] (CallStaticObjectMethod jni (jarrays_class h) m [J_Ref obj])) (\<lambda>jstr.
       to_cxx_string jni jstr)))"

definition dumpExceptionString :: "'j jni \<Rightarrow> jvm_helper \<Rightarrow> jref \<Rightarrow> ('j jworld, string) prog" where
  "dumpExceptionString jni h throwable =
     bind (getToStringMethod jni (throwable_class h)) (\<lambda>_.
     bind (jvm_to_string jni h throwable) (\<lambda>msg.
     bind (through [throwable_class h] (GetMethodID jni (throwable_class h) ''getStackTrace''
             ''()[Ljava/lang/StackTraceElement;'')) (\<lambda>getStackTrace.
     bind (through [throwable, getStackTrace] (CallObjectMethod jni throwable getStackTrace [])) (\<lambda>traces.
     bind (array_to_string jni h traces) (\<lambda>trace. ret (msg @ trace))))))"

definition jlist_size :: "'j jni \<Rightarrow> jvm_helper \<Rightarrow> jref \<Rightarrow> ('j jworld, int) prog" where
  "jlist_size jni h obj = through [obj, list_size_id h] (CallIntMethod jni obj (list_size_id h) [])"

definition jlist_get :: "'j jni \<Rightarrow> jvm_helper \<Rightarrow> jref \<Rightarrow> int \<Rightarrow> ('j jworld, jref) prog" where
  "jlist_get jni h obj i = through [obj, list_get_id h] (CallObjectMethod jni obj (list_get_id h) [J_Int i])"

section \<open>References and classes\<close>

text \<open>
  A \<open>JavaGlobalRef\<close> is its handle; neither its destructor nor \<open>clear\<close> releases it. Moving empties
  the source; move assignment drops the old handle.
\<close>

definition ref_move :: "jref \<Rightarrow> jref \<times> jref" where
  "ref_move other = (other, None)"

definition ref_move_assign :: "jref \<Rightarrow> jref \<Rightarrow> jref \<times> jref" where
  "ref_move_assign this other =
     (case ref_move other of (tmp, other') \<Rightarrow> (case (tmp, this) of (this', _) \<Rightarrow> (this', other')))"

definition ref_clear :: "jref \<Rightarrow> jref" where
  "ref_clear r = r"

text \<open>A \<open>JVMClass\<close> is the reference to its class.\<close>

definition class_move :: "jref \<Rightarrow> jref \<times> jref" where
  "class_move other = ref_move_assign None other"

definition class_move_assign :: "jref \<Rightarrow> jref \<Rightarrow> jref \<times> jref" where
  "class_move_assign this other =
     (case class_move other of (tmp, other') \<Rightarrow> (case (tmp, this) of (this', _) \<Rightarrow> (this', other')))"

definition on_statuses :: "(sheap, 'a) prog \<Rightarrow> ('j jworld, 'a) prog" where
  "on_statuses p = zoom statuses (\<lambda>h w. w\<lparr>statuses := h\<rparr>) p"

definition newInstance :: "'j jni \<Rightarrow> jref \<Rightarrow> ('j jworld, jref status_or) prog" where
  "newInstance jni clazz =
     bind (getJNIEnv jni) (\<lambda>_.
     bind (if clazz = None then undef Null_Deref else jcall (GetMethodID jni clazz ''<init>'' ''()V'')) (\<lambda>constructor.
       if constructor = None then on_statuses (return_error_as_statusor '''')
       else
         bind (jcall (NewObject jni clazz constructor [])) (\<lambda>local_ref.
         bind (jcall (NewGlobalRef jni local_ref)) (\<lambda>g. ret (statusor_of_value g)))))"

definition detect_java_runtime :: "('j jworld, status) prog" where
  "detect_java_runtime =
     bind (gets JAVA_HOME) (\<lambda>p. case p of
       None \<Rightarrow> ret (internal_error ''env 'JAVA_HOME' is not set'')
     | Some _ \<Rightarrow> ret OK)"

section \<open>Lemmas\<close>

lemma for_each_append: "for_each f (xs @ ys) =
    bind (for_each f xs) (\<lambda>as. bind (for_each f ys) (\<lambda>bs. ret (as @ bs)))"
  by (induction xs) (auto simp: fun_eq_iff bind_def ret_def split: prod.splits res.splits)

text \<open>The helper and \<open>\_env\<close> stay once they are there.\<close>

definition jvm_ready :: "jvm_helper \<Rightarrow> 'j jworld \<Rightarrow> bool" where
  "jvm_ready h w \<longleftrightarrow> env_set w \<and> the_helper w = Some h"

lemma getInstance_ready: "jvm_ready h w \<Longrightarrow> getInstance_jvm jni w = (Val h, w)"
  by (simp add: jvm_ready_def getInstance_jvm_def bind_def ret_def gets_def)

lemma through_frame: "through refs f w = (r, w') \<Longrightarrow> \<exists>j. w' = w\<lparr>java := j\<rparr>"
  by (auto simp: through_def jcall_def split: prod.splits if_splits intro: exI[of _ "java w"])

text \<open>Programs that change nothing but the state of the machine.\<close>

definition only_java :: "('j jworld, 'a) prog \<Rightarrow> bool" where
  "only_java p \<longleftrightarrow> (\<forall>w r w'. p w = (r, w') \<longrightarrow> (\<exists>j. w' = w\<lparr>java := j\<rparr>))"

named_theorems only_java_intros \<open>programs that change the state of the machine only\<close>

lemma only_java_bind [only_java_intros]: "only_java p \<Longrightarrow> (\<And>a. only_java (f a)) \<Longrightarrow> only_java (bind p f)"
  unfolding only_java_def bind_def
  by (auto split: prod.splits res.splits) (metis jworld.surjective jworld.update_convs(1))+

lemma only_java_basic [only_java_intros]:
  "only_java (ret a)" "only_java (throw e)" "only_java (undef u)" "only_java (gets g)"
  "only_java (through refs f)" "only_java (jcall f)"
  by (auto simp: only_java_def ret_def throw_def undef_def gets_def jcall_def split: prod.splits
      dest: through_frame) (metis jworld.surjective jworld.update_convs(1))+

lemma only_java_option [only_java_intros]:
  "(\<And>a. only_java (f a)) \<Longrightarrow> only_java g \<Longrightarrow> only_java (case x of None \<Rightarrow> g | Some a \<Rightarrow> f a)"
  by (cases x) auto

lemma only_java_for_each [only_java_intros]: "(\<And>x. only_java (f x)) \<Longrightarrow> only_java (for_each f xs)"
  by (induction xs) (auto intro!: only_java_intros)

lemma only_java_ready: "only_java p \<Longrightarrow> p w = (r, w') \<Longrightarrow> jvm_ready h w' \<longleftrightarrow> jvm_ready h w"
  unfolding only_java_def jvm_ready_def by fastforce

lemma only_java_find [only_java_intros]: "only_java (JNI_FIND_CLASS jni n)"
  unfolding JNI_FIND_CLASS_def by (intro only_java_intros)

lemma only_java_numeric [only_java_intros]: "only_java (add_numberic_class jni d)"
  unfolding add_numberic_class_def by (cases d) (auto intro!: only_java_intros)

lemma only_java_helper_init [only_java_intros]: "only_java (helper_init jni)"
  unfolding helper_init_def by (intro only_java_intros)

lemma only_java_strings [only_java_intros]:
  "only_java (to_cxx_string jni s)" "only_java (jvm_to_string jni h obj)" "only_java (array_to_string jni h obj)"
  "only_java (dumpExceptionString jni h t)" "only_java (jlist_size jni h l)" "only_java (jlist_get jni h l i)"
  unfolding dumpExceptionString_def array_to_string_def jvm_to_string_def to_cxx_string_def
    getToStringMethod_def jlist_size_def jlist_get_def
  by (intro only_java_intros)+

text \<open>The helper is made once: when \<open>getInstance\<close> has returned, every later call returns the same
  helper and touches neither the machine nor anything else, whatever helper functions ran between.\<close>

theorem helper_made_once:
  assumes "getInstance_jvm jni w = (Val h, w1)" "only_java p" "p w1 = (r, w2)"
  shows "getInstance_jvm jni w2 = (Val h, w2)"
proof -
  have "env_set w' = env_set v" if "helper_init jni v = (Val x, w')" for v x w'
    using only_java_helper_init that unfolding only_java_def by fastforce
  with assms(1) have "jvm_ready h w1"
    by (auto simp: getInstance_jvm_def bind_eq_Val jvm_ready_def run_simps split: if_splits option.splits)
  with only_java_ready[OF assms(2,3)] show ?thesis by (simp add: getInstance_ready)
qed

text \<open>A machine that finds every class and method and never throws; it counts the calls.\<close>

definition plain_jni :: "nat jni" where
  "plain_jni =
     \<lparr>FindClass = (\<lambda>_ j. (Some 1, Suc j)), GetMethodID = (\<lambda>_ _ _ j. (Some 2, Suc j)),
      GetStaticMethodID = (\<lambda>_ _ _ j. (Some 3, Suc j)), NewObject = (\<lambda>_ _ _ j. (Some 4, Suc j)),
      CallObjectMethod = (\<lambda>_ _ _ j. (Some 5, Suc j)), CallStaticObjectMethod = (\<lambda>_ _ _ j. (Some 6, Suc j)),
      CallVoidMethod = (\<lambda>_ _ _ j. ((), Suc j)), CallBooleanMethod = (\<lambda>_ _ _ j. (False, Suc j)),
      CallIntMethod = (\<lambda>_ _ _ j. (1, Suc j)), NewStringUTF = (\<lambda>_ j. (Some 7, Suc j)),
      GetStringUTFChars = (\<lambda>_ j. (Some ''s'', Suc j)), ReleaseStringUTFChars = (\<lambda>_ j. ((), Suc j)),
      NewGlobalRef = (\<lambda>r j. (r, Suc j)), DeleteLocalRef = (\<lambda>_ j. ((), Suc j)),
      ExceptionOccurred = (\<lambda>_. None), ExceptionClear = (\<lambda>j. ((), Suc j)), CreateJavaVM = (\<lambda>j. (0, Suc j))\<rparr>"

definition fresh_process :: "nat jworld" where
  "fresh_process = \<lparr>java = 0, jni_init = False, env_set = False, the_helper = None,
     JAVA_HOME = Some ''/jdk'', statuses = []\<rparr>"

lemma plain_jni_starts: "is_Val (fst (getInstance_jvm plain_jni fresh_process))"
  by code_simp

theorem helper_made_once_witness:
  "\<exists>h w. fst (getInstance_jvm plain_jni fresh_process) = Val h \<and> getInstance_jvm plain_jni w = (Val h, w)"
proof -
  obtain h w1 where r: "getInstance_jvm plain_jni fresh_process = (Val h, w1)"
    using plain_jni_starts by (cases "getInstance_jvm plain_jni fresh_process") (auto simp: is_Val_iff)
  obtain x w2 where "jlist_size plain_jni h (Some 9) w1 = (x, w2)" by fastforce
  from helper_made_once[OF r only_java_strings(5) this] r show ?thesis by auto
qed

text \<open>A class whose constructor the machine does not find gives no instance and no message either:
  asking the result of \<open>newInstance\<close> for its value reads the freed block of the error.\<close>

theorem newInstance_missing_constructor:
  assumes "jni_init w" "fst (GetMethodID jni (Some c) ''<init>'' ''()V'' (java w)) = None"
  shows "\<exists>so w'. newInstance jni (Some c) w = (Val so, w') \<and>
    statusor_ValueOrDie so (statuses w') = Undef Use_After_Free"
proof -
  obtain so :: "jref status_or" and h' where so: "return_error_as_statusor [] (statuses w) = (Val so, h')"
    "statusor_ValueOrDie so h' = Undef Use_After_Free"
    using returned_error_dangling[of "[]" "statuses w"] by blast
  obtain j where m: "GetMethodID jni (Some c) ''<init>'' ''()V'' (java w) = (None, j)"
    using assms(2) by (metis prod.collapse)
  show ?thesis
    by (intro exI[of _ so] exI[of _ "w\<lparr>java := j, statuses := h'\<rparr>"])
       (simp add: newInstance_def getJNIEnv_def bind_def jcall_def on_statuses_def zoom_def assms(1) m so)
qed

theorem newInstance_missing_constructor_witness:
  "\<exists>so w'. newInstance (plain_jni\<lparr>GetMethodID := (\<lambda>_ _ _ j. (None, j))\<rparr>) (Some 1) (fresh_process\<lparr>jni_init := True\<rparr>)
      = (Val so, w') \<and> statusor_ValueOrDie so (statuses w') = Undef Use_After_Free"
  by (rule newInstance_missing_constructor) simp_all

section \<open>Threads\<close>

text \<open>
  Whose JNI environment a thread works with. The machine makes one environment, for the thread that
  creates it, and \<open>jniInit\<close> keeps it for the life of the process; \<open>\_env\<close> is a variable of each
  thread. An environment is named by the thread it belongs to.
\<close>

record jni_envs =
  init_env :: "nat option"                \<comment> \<open>\<open>jniInit.env\<close>\<close>
  thread_env :: "nat \<Rightarrow> nat option"       \<comment> \<open>the \<open>\_env\<close> of each thread\<close>

definition getJNIEnv_on :: "nat \<Rightarrow> jni_envs \<Rightarrow> nat \<times> jni_envs" where
  "getJNIEnv_on t e = (case init_env e of Some v \<Rightarrow> (v, e) | None \<Rightarrow> (t, e\<lparr>init_env := Some t\<rparr>))"

definition getInstance_on :: "nat \<Rightarrow> jni_envs \<Rightarrow> nat \<times> jni_envs" where
  "getInstance_on t e =
     (case thread_env e t of
        Some v \<Rightarrow> (v, e)
      | None \<Rightarrow> (case getJNIEnv_on t e of (v, e') \<Rightarrow> (v, e'\<lparr>thread_env := (thread_env e')(t \<mapsto> v)\<rparr>)))"

text \<open>
  Every thread is given the environment of the thread that came first, which it may not use: no
  thread but the first can call the scanner.
\<close>

theorem env_of_first_thread:
  "fst (getInstance_on t (fold (\<lambda>t e. snd (getInstance_on t e)) ts (snd (getInstance_on t0
     \<lparr>init_env = None, thread_env = \<lambda>_. None\<rparr>)))) = t0"
proof -
  define ok where "ok e \<longleftrightarrow> init_env e = Some t0 \<and> (\<forall>t v. thread_env e t = Some v \<longrightarrow> v = t0)" for e :: jni_envs
  have step: "ok e \<Longrightarrow> ok (snd (getInstance_on t e)) \<and> fst (getInstance_on t e) = t0" for t e
    by (auto simp: ok_def getInstance_on_def getJNIEnv_on_def split: option.splits)
  have "ok (snd (getInstance_on t0 \<lparr>init_env = None, thread_env = \<lambda>_. None\<rparr>))"
    by (simp add: ok_def getInstance_on_def getJNIEnv_on_def)
  then have "ok (fold (\<lambda>t e. snd (getInstance_on t e)) us (snd (getInstance_on t0
      \<lparr>init_env = None, thread_env = \<lambda>_. None\<rparr>)))" for us
    by (induction us rule: rev_induct) (simp_all add: step)
  then show ?thesis by (simp only: step)
qed

end
