(* ===== verification/Jdbc_Scanner.thy ===== *)
theory Jdbc_Scanner
  imports Java_Udf Runtime_State
begin

text \<open>
  scanner/jdbc\_scanner.h and scanner/jdbc\_scanner.cpp: the scanner that drives the Java class
  \<open>JDBCScanner\<close> over JNI. Each method is a program over the process and the scanner object; the
  statuses it returns are values. The methods whose result is an out-parameter return it.
\<close>

section \<open>State\<close>

record scan_context =
  driver_path :: string
  driver_class_name :: string
  ctx_jdbc_url :: string
  ctx_user :: string
  ctx_passwd :: string
  ctx_sql :: string
  ctx_properties :: "(string \<times> string) list"

record scanner =
  scan_ctx :: scan_context
  slot_descs :: "slot_descriptor list"
  column_class_names :: "string list"
  result_column_types :: "primitive_type list"
  result_chunk :: "chunk option"
  jdbc_bridge_cls :: "jref option"       \<comment> \<open>\<open>unique\_ptr\<JVMClass>\<close>, \<open>None\<close> when empty\<close>
  jdbc_scanner_cls :: "jref option"
  jdbc_util_cls :: "jref option"
  scanner_has_next :: jref
  scanner_get_next_chunk :: jref
  scanner_result_rows :: jref
  scanner_close_id :: jref
  util_format_date :: jref
  util_format_localdatetime :: jref
  jdbc_bridge :: jref
  jdbc_scan_context :: jref
  jdbc_scanner :: jref

record 'j sworld =
  jw :: "'j jworld"
  sc :: scanner

definition JDBC_BRIDGE_CLASS_NAME :: string where "JDBC_BRIDGE_CLASS_NAME = ''com/starrocks/jdbcbridge/JDBCBridge''"
definition JDBC_SCAN_CONTEXT_CLASS_NAME :: string where "JDBC_SCAN_CONTEXT_CLASS_NAME = ''com/starrocks/jdbcbridge/JDBCScanContext''"
definition JDBC_SCANNER_CLASS_NAME :: string where "JDBC_SCANNER_CLASS_NAME = ''com/starrocks/jdbcbridge/JDBCScanner''"
definition JDBC_UTIL_CLASS_NAME :: string where "JDBC_UTIL_CLASS_NAME = ''com/starrocks/jdbcbridge/JDBCUtil''"

text \<open>The constructor reads the slots of the tuple through a pointer.\<close>

definition JDBCScanner :: "scan_context \<Rightarrow> tuple_descriptor option \<Rightarrow> scanner res" where
  "JDBCScanner context tuple_desc =
     (case tuple_desc of
        None \<Rightarrow> Undef Null_Deref
      | Some t \<Rightarrow> Val \<lparr>scan_ctx = context, slot_descs = slots t, column_class_names = [], result_column_types = [],
          result_chunk = None, jdbc_bridge_cls = None, jdbc_scanner_cls = None, jdbc_util_cls = None,
          scanner_has_next = None, scanner_get_next_chunk = None, scanner_result_rows = None,
          scanner_close_id = None, util_format_date = None, util_format_localdatetime = None,
          jdbc_bridge = None, jdbc_scan_context = None, jdbc_scanner = None\<rparr>)"

section \<open>Helpers\<close>

definition on_jvm :: "('j jworld, 'a) prog \<Rightarrow> ('j sworld, 'a) prog" where
  "on_jvm p = zoom jw (\<lambda>x w. w\<lparr>jw := x\<rparr>) p"

definition put_sc :: "(scanner \<Rightarrow> scanner) \<Rightarrow> ('j sworld, unit) prog" where
  "put_sc f = modify (\<lambda>w. w\<lparr>sc := f (sc w)\<rparr>)"

definition get_env :: "'j jni \<Rightarrow> ('j sworld, jvm_helper) prog" where
  "get_env jni = on_jvm (getInstance_jvm jni)"

definition env_call :: "jref list \<Rightarrow> ('j \<Rightarrow> 'a \<times> 'j) \<Rightarrow> ('j sworld, 'a) prog" where
  "env_call refs f = on_jvm (through refs f)"

text \<open>\<open>ptr->clazz()\<close> of a \<open>unique\_ptr\<close> to a class.\<close>

definition clazz_of :: "(scanner \<Rightarrow> jref option) \<Rightarrow> ('j sworld, jref) prog" where
  "clazz_of field = bind (gets (field \<circ> sc)) (\<lambda>p. case p of None \<Rightarrow> undef Null_Deref | Some c \<Rightarrow> ret c)"

text \<open>The macro \<open>CHECK\_JAVA\_EXCEPTION\<close>, with the rest of the function as its last argument.\<close>

definition check_java_exception ::
    "'j jni \<Rightarrow> string \<Rightarrow> (status \<Rightarrow> 'a) \<Rightarrow> ('j sworld, 'a) prog \<Rightarrow> ('j sworld, 'a) prog" where
  "check_java_exception jni error_message result rest =
     bind (gets (\<lambda>w. ExceptionOccurred jni (java (jw w)))) (\<lambda>thr.
       if thr = None then rest
       else
         bind (get_env jni) (\<lambda>h.
         bind (on_jvm (dumpExceptionString jni h thr)) (\<lambda>err.
         bind (env_call [] (ExceptionClear jni)) (\<lambda>_.
         bind (env_call [] (DeleteLocalRef jni thr)) (\<lambda>_.
           ret (result (internal_error error_message)))))))"

definition value_or_die :: "'a status_or \<Rightarrow> ('j sworld, 'a) prog" where
  "value_or_die so w = (statusor_ValueOrDie so (statuses (jw w)), w)"

section \<open>Opening\<close>

definition init_jdbc_bridge :: "'j jni \<Rightarrow> ('j sworld, status) prog" where
  "init_jdbc_bridge jni =
     bind (get_env jni) (\<lambda>h.
     bind (env_call [] (FindClass jni JDBC_BRIDGE_CLASS_NAME)) (\<lambda>cls.
     bind (env_call [] (NewGlobalRef jni cls)) (\<lambda>g.
     bind (put_sc (\<lambda>s. s\<lparr>jdbc_bridge_cls := Some g\<rparr>)) (\<lambda>_.
     bind (clazz_of jdbc_bridge_cls) (\<lambda>clazz.
     bind (on_jvm (newInstance jni clazz)) (\<lambda>so.
     bind (value_or_die so) (\<lambda>bridge.
     bind (put_sc (\<lambda>s. s\<lparr>jdbc_bridge := fst (ref_move_assign (jdbc_bridge s) bridge)\<rparr>)) (\<lambda>_.
     bind (env_call [clazz] (GetMethodID jni clazz ''setClassLoader'' ''(Ljava/lang/String;)V'')) (\<lambda>set_class_loader.
     bind (gets (driver_path \<circ> scan_ctx \<circ> sc)) (\<lambda>path.
     bind (env_call [] (NewStringUTF jni (c_str path))) (\<lambda>driver_location.
     bind (gets (jdbc_bridge \<circ> sc)) (\<lambda>bridge.
     bind (env_call [bridge, set_class_loader]
             (CallVoidMethod jni bridge set_class_loader [J_Ref driver_location])) (\<lambda>_.
       check_java_exception jni ''set class loader failed'' id (ret OK))))))))))))))"

definition statement_fetch_size :: int where "statement_fetch_size = 128"
definition connection_pool_size :: int where "connection_pool_size = 8"
definition minimum_idle_connections :: int where "minimum_idle_connections = 1"
definition idle_timeout_ms :: int where "idle_timeout_ms = 60000"

definition init_jdbc_scan_context :: "'j jni \<Rightarrow> ('j sworld, status) prog" where
  "init_jdbc_scan_context jni =
     bind (get_env jni) (\<lambda>h.
     bind (env_call [] (FindClass jni JDBC_SCAN_CONTEXT_CLASS_NAME)) (\<lambda>cls.
     bind (env_call [cls] (GetMethodID jni cls ''<init>''
       ''(Ljava/lang/String;Ljava/lang/String;Ljava/lang/String;Ljava/lang/String;Ljava/lang/String;IIII)V'')) (\<lambda>constructor.
     bind (gets (scan_ctx \<circ> sc)) (\<lambda>ctx.
     bind (env_call [] (NewStringUTF jni (c_str (driver_class_name ctx)))) (\<lambda>class_name.
     bind (env_call [] (NewStringUTF jni (c_str (ctx_jdbc_url ctx)))) (\<lambda>url.
     bind (env_call [] (NewStringUTF jni (c_str (ctx_user ctx)))) (\<lambda>user.
     bind (env_call [] (NewStringUTF jni (c_str (ctx_passwd ctx)))) (\<lambda>passwd.
     bind (env_call [] (NewStringUTF jni (c_str (ctx_sql ctx)))) (\<lambda>sql.
     bind (env_call [cls, constructor] (NewObject jni cls constructor
       [J_Ref class_name, J_Ref url, J_Ref user, J_Ref passwd, J_Ref sql, J_Int statement_fetch_size,
        J_Int connection_pool_size, J_Int minimum_idle_connections, J_Int idle_timeout_ms])) (\<lambda>obj.
     bind (env_call [] (NewGlobalRef jni obj)) (\<lambda>g.
     bind (put_sc (\<lambda>s. s\<lparr>jdbc_scan_context := fst (ref_move_assign (jdbc_scan_context s) g)\<rparr>)) (\<lambda>_.
       check_java_exception jni ''construct JDBScanContext failed'' id (ret OK)))))))))))))"

definition init_jdbc_scanner :: "'j jni \<Rightarrow> ('j sworld, status) prog" where
  "init_jdbc_scanner jni =
     bind (get_env jni) (\<lambda>h.
     bind (clazz_of jdbc_bridge_cls) (\<lambda>bridge_cls.
     bind (env_call [bridge_cls] (GetMethodID jni bridge_cls ''getScanner''
       ''(Lcom/starrocks/jdbcbridge/JDBCScanContext;)Lcom/starrocks/jdbcbridge/JDBCScanner;'')) (\<lambda>get_scanner.
     bind (gets sc) (\<lambda>s.
     bind (env_call [jdbc_bridge s, get_scanner]
             (CallObjectMethod jni (jdbc_bridge s) get_scanner [J_Ref (jdbc_scan_context s)])) (\<lambda>obj.
     bind (env_call [] (NewGlobalRef jni obj)) (\<lambda>g.
     bind (put_sc (\<lambda>s. s\<lparr>jdbc_scanner := fst (ref_move_assign (jdbc_scanner s) g)\<rparr>)) (\<lambda>_.
     check_java_exception jni ''get JDBCScanner failed'' id (
     bind (env_call [] (FindClass jni JDBC_SCANNER_CLASS_NAME)) (\<lambda>cls.
     bind (env_call [] (NewGlobalRef jni cls)) (\<lambda>gcls.
     bind (put_sc (\<lambda>s. s\<lparr>jdbc_scanner_cls := Some gcls\<rparr>)) (\<lambda>_.
     bind (env_call [gcls] (GetMethodID jni gcls ''hasNext'' ''()Z'')) (\<lambda>has_next.
     bind (env_call [gcls] (GetMethodID jni gcls ''getNextChunk'' ''()Ljava/util/List;'')) (\<lambda>get_next.
     bind (env_call [gcls] (GetMethodID jni gcls ''getResultNumRows'' ''()I'')) (\<lambda>rows.
     bind (env_call [gcls] (GetMethodID jni gcls ''close'' ''()V'')) (\<lambda>close_id.
     bind (put_sc (\<lambda>s. s\<lparr>scanner_has_next := has_next, scanner_get_next_chunk := get_next,
                          scanner_result_rows := rows, scanner_close_id := close_id\<rparr>)) (\<lambda>_.
     bind (env_call [gcls] (GetMethodID jni gcls ''open'' ''()V'')) (\<lambda>scanner_open.
     bind (gets (jdbc_scanner \<circ> sc)) (\<lambda>obj.
     bind (env_call [obj, scanner_open] (CallVoidMethod jni obj scanner_open [])) (\<lambda>_.
       check_java_exception jni ''open JDBCScanner failed'' id (ret OK))))))))))))))))))))"

definition precheck_data_type :: "string \<Rightarrow> slot_descriptor \<Rightarrow> primitive_type status_or" where
  "precheck_data_type java_class slot_desc = statusor_of_value TYPE_VARCHAR"

text \<open>
  The loop over the columns leaves the function at the end of its first round; with no column the
  function ends without a \<open>return\<close>.
\<close>

definition init_column_class_name :: "'j jni \<Rightarrow> ('j sworld, status) prog" where
  "init_column_class_name jni =
     bind (get_env jni) (\<lambda>h.
     bind (clazz_of jdbc_scanner_cls) (\<lambda>cls.
     bind (env_call [cls] (GetMethodID jni cls ''getResultColumnClassNames'' ''()Ljava/util/List;'')) (\<lambda>get_names.
     bind (gets (jdbc_scanner \<circ> sc)) (\<lambda>obj.
     bind (env_call [obj, get_names] (CallObjectMethod jni obj get_names [])) (\<lambda>names.
     check_java_exception jni ''get JDBC result column class name failed'' id (
     bind (get_env jni) (\<lambda>helper.
     bind (on_jvm (jlist_size jni helper names)) (\<lambda>n.
     bind (put_sc (\<lambda>s. s\<lparr>result_chunk := Some Chunk\<rparr>)) (\<lambda>_.
       if 0 < n then
         bind (on_jvm (jlist_get jni helper names 0)) (\<lambda>jelement.
         bind (on_jvm (jvm_to_string jni helper jelement)) (\<lambda>class_name.
         bind (gets (slot_descs \<circ> sc)) (\<lambda>ss. case ss of
           [] \<Rightarrow> undef Out_Of_Bounds
         | slot # _ \<Rightarrow>
             bind (put_sc (\<lambda>s. s\<lparr>column_class_names := column_class_names s @ [class_name]\<rparr>)) (\<lambda>_.
             bind (value_or_die (precheck_data_type class_name slot)) (\<lambda>ty.
             bind (put_sc (\<lambda>s. s\<lparr>result_column_types := result_column_types s @ [ty]\<rparr>)) (\<lambda>_.
             let intermediate = TypeDescriptor_of ty; result_column = create_column intermediate True
             in ret OK))))))
       else undef Missing_Return)))))))))"

definition init_jdbc_util :: "'j jni \<Rightarrow> ('j sworld, status) prog" where
  "init_jdbc_util jni =
     bind (get_env jni) (\<lambda>h.
     bind (env_call [] (FindClass jni JDBC_UTIL_CLASS_NAME)) (\<lambda>cls.
     bind (env_call [] (NewGlobalRef jni cls)) (\<lambda>g.
     bind (put_sc (\<lambda>s. s\<lparr>jdbc_util_cls := Some g\<rparr>)) (\<lambda>_.
     bind (env_call [g] (GetStaticMethodID jni g ''formatDate'' ''(Ljava/sql/Date;)Ljava/lang/String;'')) (\<lambda>date.
     bind (env_call [g] (GetStaticMethodID jni g ''formatLocalDatetime''
             ''(Ljava/time/LocalDateTime;)Ljava/lang/String;'')) (\<lambda>datetime.
     bind (put_sc (\<lambda>s. s\<lparr>util_format_date := date, util_format_localdatetime := datetime\<rparr>)) (\<lambda>_.
       ret OK)))))))"

text \<open>\<open>open\<close> ignores the statuses of its steps.\<close>

definition scanner_open :: "'j jni \<Rightarrow> ('j sworld, status) prog" where
  "scanner_open jni =
     bind (on_jvm detect_java_runtime) (\<lambda>_.
     bind (init_jdbc_bridge jni) (\<lambda>_.
     bind (init_jdbc_scan_context jni) (\<lambda>_.
     bind (init_jdbc_scanner jni) (\<lambda>_.
     bind (init_column_class_name jni) (\<lambda>_.
     bind (init_jdbc_util jni) (\<lambda>_. ret OK))))))"

section \<open>Reading\<close>

text \<open>\<open>*result\<close> is left alone when the call threw.\<close>

definition has_next_call :: "'j jni \<Rightarrow> bool \<Rightarrow> ('j sworld, status \<times> bool) prog" where
  "has_next_call jni result =
     bind (get_env jni) (\<lambda>h.
     bind (gets sc) (\<lambda>s.
     bind (env_call [jdbc_scanner s, scanner_has_next s]
             (CallBooleanMethod jni (jdbc_scanner s) (scanner_has_next s) [])) (\<lambda>r.
       check_java_exception jni ''call JDBCScanner hasNext failed'' (\<lambda>st. (st, result)) (ret (OK, r)))))"

definition get_next_chunk_call :: "'j jni \<Rightarrow> nat \<Rightarrow> ('j sworld, status \<times> jref \<times> nat) prog" where
  "get_next_chunk_call jni n0 =
     bind (get_env jni) (\<lambda>h.
     bind (gets sc) (\<lambda>s.
     bind (env_call [jdbc_scanner s, scanner_get_next_chunk s]
             (CallObjectMethod jni (jdbc_scanner s) (scanner_get_next_chunk s) [])) (\<lambda>chunk.
     check_java_exception jni ''getNextChunk failed'' (\<lambda>st. (st, chunk, n0)) (
     bind (env_call [jdbc_scanner s, scanner_result_rows s]
             (CallIntMethod jni (jdbc_scanner s) (scanner_result_rows s) [])) (\<lambda>rows.
       check_java_exception jni ''getResultNumRows failed'' (\<lambda>st. (st, chunk, nat (rows mod 2 ^ 64)))
         (ret (OK, chunk, nat (rows mod 2 ^ 64))))))))"

text \<open>\<open>(*chunk).reset()\<close>, one look at each column, and the end of the body without a \<open>return\<close>.\<close>

definition file_chunk :: "'j jni \<Rightarrow> jref \<Rightarrow> nat \<Rightarrow> chunk option \<Rightarrow> ('j sworld, status \<times> chunk option) prog" where
  "file_chunk jni jchunk nums_rows chunk =
     bind (get_env jni) (\<lambda>helper.
     let chunk' = None :: chunk option in
     bind (gets (slot_descs \<circ> sc)) (\<lambda>ss.
     bind (for_each (\<lambda>i. on_jvm (jlist_get jni helper jchunk (int i))) [0..<length ss]) (\<lambda>_.
       undef Missing_Return)))"

definition scanner_get_next :: "'j jni \<Rightarrow> chunk option \<Rightarrow> ('j sworld, status \<times> chunk option \<times> bool) prog" where
  "scanner_get_next jni chunk =
     bind (has_next_call jni False) (\<lambda>(_, has_next).
       if \<not> has_next then ret (OK, chunk, True)
       else
         bind (get_next_chunk_call jni 0) (\<lambda>(_, jchunk, rows).
         bind (file_chunk jni jchunk rows chunk) (\<lambda>(_, chunk').
           ret (OK, chunk', False))))"

definition scanner_close :: "('j sworld, status) prog" where
  "scanner_close = undef Missing_Return"

definition close_jdbc_scanner :: "'j jni \<Rightarrow> ('j sworld, status) prog" where
  "close_jdbc_scanner jni =
     bind (get_env jni) (\<lambda>h.
     bind (gets sc) (\<lambda>s.
       if jdbc_scanner s = None then ret OK
       else
         bind (env_call [jdbc_scanner s, scanner_close_id s]
                 (CallVoidMethod jni (jdbc_scanner s) (scanner_close_id s) [])) (\<lambda>_.
         check_java_exception jni ''close JDBCScanner failed'' id (
         bind (put_sc (\<lambda>s. s\<lparr>jdbc_scanner := ref_clear (jdbc_scanner s),
                  jdbc_scan_context := ref_clear (jdbc_scan_context s), jdbc_bridge := ref_clear (jdbc_bridge s),
                  jdbc_util_cls := None, jdbc_scanner_cls := None, jdbc_bridge_cls := None\<rparr>)) (\<lambda>_.
           ret OK)))))"

section \<open>Lemmas\<close>

lemma on_jvm_sc: "on_jvm p w = (r, w') \<Longrightarrow> sc w' = sc w"
  by (auto simp: on_jvm_def zoom_def split: prod.splits)

lemma get_env_sc: "get_env jni w = (r, w') \<Longrightarrow> sc w' = sc w"
  by (simp add: get_env_def on_jvm_sc)

lemma env_call_sc: "env_call refs f w = (r, w') \<Longrightarrow> sc w' = sc w"
  by (simp add: env_call_def on_jvm_sc)

lemmas sc_frames = on_jvm_sc get_env_sc env_call_sc

lemma put_sc_run [run_simps]: "put_sc f w = (Val (), w\<lparr>sc := f (sc w)\<rparr>)"
  by (simp add: put_sc_def run_simps)

lemma value_or_die_eq: "value_or_die so w = (Val x, w') \<longleftrightarrow> statusor_ValueOrDie so (statuses (jw w)) = Val x \<and> w' = w"
  by (auto simp: value_or_die_def)

lemma check_java_exception_Val:
  assumes "check_java_exception jni msg result rest w = (Val x, w')"
  shows "rest w = (Val x, w') \<or> (x = result (internal_error msg) \<and> sc w' = sc w)"
proof (cases "ExceptionOccurred jni (java (jw w))")
  case None
  with assms show ?thesis by (simp add: check_java_exception_def bind_def run_simps)
next
  case (Some t)
  with assms show ?thesis
    by (auto simp: check_java_exception_def bind_eq_Val run_simps dest!: sc_frames)
qed

lemma file_chunk_never: "file_chunk jni j n c w \<noteq> (Val x, w')"
  by (simp add: file_chunk_def bind_eq_Val run_simps)

lemma has_next_error: "has_next_call jni b w = (Val (st, b'), w') \<Longrightarrow> \<not> ok st \<Longrightarrow> b' = b"
  by (auto simp: has_next_call_def bind_eq_Val run_simps dest!: check_java_exception_Val)

lemma get_next_returns:
  "scanner_get_next jni chunk w = (Val r, w') \<longleftrightarrow>
     r = (OK, chunk, True) \<and> (\<exists>st. has_next_call jni False w = (Val (st, False), w'))"
  by (auto simp: scanner_get_next_def bind_eq_Val run_simps file_chunk_never split: prod.splits if_splits)

section \<open>The scan context is never changed\<close>

definition ctx_safe :: "('j sworld, 'a) prog \<Rightarrow> bool" where
  "ctx_safe p \<longleftrightarrow> (\<forall>w r w'. p w = (r, w') \<longrightarrow>
     scan_ctx (sc w') = scan_ctx (sc w) \<and> slot_descs (sc w') = slot_descs (sc w))"

named_theorems ctx_safe_intros \<open>programs that keep the context and the slots of the scanner\<close>

lemma ctx_safe_bind [ctx_safe_intros]: "ctx_safe p \<Longrightarrow> (\<And>a. ctx_safe (f a)) \<Longrightarrow> ctx_safe (bind p f)"
  unfolding ctx_safe_def bind_def by (auto split: prod.splits res.splits)

lemma ctx_safe_basic [ctx_safe_intros]:
  "ctx_safe (ret a)" "ctx_safe (throw e)" "ctx_safe (undef u)" "ctx_safe (gets g)" "ctx_safe (on_jvm q)"
  "ctx_safe (get_env jni)" "ctx_safe (env_call refs f)" "ctx_safe (value_or_die so)"
  by (auto simp: ctx_safe_def ret_def throw_def undef_def gets_def value_or_die_def dest: sc_frames)

lemma ctx_safe_put_sc [ctx_safe_intros]:
  "(\<And>s. scan_ctx (f s) = scan_ctx s \<and> slot_descs (f s) = slot_descs s) \<Longrightarrow> ctx_safe (put_sc f)"
  by (auto simp: ctx_safe_def run_simps)

lemma ctx_safe_cases [ctx_safe_intros]:
  "ctx_safe p \<Longrightarrow> ctx_safe q \<Longrightarrow> ctx_safe (if b then p else q)"
  "ctx_safe p \<Longrightarrow> (\<And>a. ctx_safe (f a)) \<Longrightarrow> ctx_safe (case x of None \<Rightarrow> p | Some a \<Rightarrow> f a)"
  "ctx_safe p \<Longrightarrow> (\<And>y ys. ctx_safe (g y ys)) \<Longrightarrow> ctx_safe (case xs of [] \<Rightarrow> p | y # ys \<Rightarrow> g y ys)"
  by (auto split: option.split list.split)

lemma ctx_safe_parts [ctx_safe_intros]:
  "ctx_safe (clazz_of field)" "ctx_safe q \<Longrightarrow> ctx_safe (check_java_exception jni msg result q)"
  unfolding clazz_of_def check_java_exception_def by (intro ctx_safe_intros | simp)+

lemma ctx_safe_init [ctx_safe_intros]:
  "ctx_safe (init_jdbc_bridge jni)" "ctx_safe (init_jdbc_scan_context jni)" "ctx_safe (init_jdbc_scanner jni)"
  "ctx_safe (init_column_class_name jni)" "ctx_safe (init_jdbc_util jni)"
  unfolding init_jdbc_bridge_def init_jdbc_scan_context_def init_jdbc_scanner_def init_column_class_name_def
    init_jdbc_util_def Let_def
  by (intro ctx_safe_intros | simp)+

lemma ctx_safe_open: "ctx_safe (scanner_open jni)"
  unfolding scanner_open_def by (intro ctx_safe_intros)

section \<open>What the scanner promises\<close>

text \<open>For every virtual machine, \<open>get\_next\<close> returns exactly when Java's \<open>hasNext\<close> answered no or
  threw, and then it reports OK and the end of the stream: an error of the database is the end of
  the data. With a row to read it runs off the end of \<open>\_file\_chunk\<close>, so no chunk ever comes out.\<close>

theorem get_next_only_ends:
  "(scanner_get_next jni chunk w = (Val r, w') \<longleftrightarrow>
      r = (OK, chunk, True) \<and> (\<exists>st. has_next_call jni False w = (Val (st, False), w'))) \<and>
   (has_next_call jni False w = (Val (st, b), w') \<and> \<not> ok st \<longrightarrow>
      scanner_get_next jni chunk w = (Val (OK, chunk, True), w'))"
  using get_next_returns[of jni chunk w] has_next_error[of jni False w st b w'] by auto

definition plain_scanner :: scanner where
  "plain_scanner =
     \<lparr>scan_ctx = \<lparr>driver_path = ''/l/d.jar'', driver_class_name = ''D'', ctx_jdbc_url = ''u'', ctx_user = ''sa'',
        ctx_passwd = ''p'', ctx_sql = ''select 1'', ctx_properties = []\<rparr>,
      slot_descs = [], column_class_names = [], result_column_types = [], result_chunk = None,
      jdbc_bridge_cls = None, jdbc_scanner_cls = Some (Some 1), jdbc_util_cls = None,
      scanner_has_next = Some 2, scanner_get_next_chunk = Some 2, scanner_result_rows = Some 2,
      scanner_close_id = Some 2, util_format_date = None, util_format_localdatetime = None,
      jdbc_bridge = None, jdbc_scan_context = None, jdbc_scanner = Some 4\<rparr>"

text \<open>A machine in which \<open>hasNext\<close> answers the given value and leaves the given exception.\<close>

definition answering :: "bool \<Rightarrow> jref \<Rightarrow> nat jni" where
  "answering b thr = plain_jni\<lparr>CallBooleanMethod := (\<lambda>_ _ _ j. (b, Suc j)), ExceptionOccurred := (\<lambda>_. thr)\<rparr>"

definition plain_sworld :: "nat sworld" where
  "plain_sworld = \<lparr>jw = fresh_process, sc = plain_scanner\<rparr>"

theorem get_next_only_ends_witness:
  "\<exists>w'. scanner_get_next (answering True (Some 8)) None plain_sworld = (Val (OK, None, True), w')"
proof -
  have "case fst (has_next_call (answering True (Some 8)) False plain_sworld) of
      Val (st, b) \<Rightarrow> \<not> ok st | _ \<Rightarrow> False" by code_simp
  then obtain st b w' where "has_next_call (answering True (Some 8)) False plain_sworld = (Val (st, b), w')" "\<not> ok st"
    by (cases "has_next_call (answering True (Some 8)) False plain_sworld") (auto split: res.splits)
  with get_next_only_ends show ?thesis by blast
qed

text \<open>However many columns the result has, \<open>\_init\_column\_class\_name\<close> records one: when it returns
  OK it has appended one class name, with the type VARCHAR, for a scanner that has a slot; when it
  returns an error the scanner is as it was.\<close>

theorem one_column_is_recorded:
  assumes "init_column_class_name jni w = (Val st, w')"
  shows "if ok st then slot_descs (sc w) \<noteq> [] \<and>
      (\<exists>name. sc w' = (sc w)\<lparr>result_chunk := Some Chunk, column_class_names := column_class_names (sc w) @ [name],
         result_column_types := result_column_types (sc w) @ [TYPE_VARCHAR]\<rparr>)
    else sc w' = sc w"
proof -
  from assms obtain w1 names where w1: "sc w1 = sc w"
    "check_java_exception jni ''get JDBC result column class name failed'' id
      (bind (get_env jni) (\<lambda>helper.
       bind (on_jvm (jlist_size jni helper names)) (\<lambda>n.
       bind (put_sc (\<lambda>s. s\<lparr>result_chunk := Some Chunk\<rparr>)) (\<lambda>_.
       if 0 < n then
         bind (on_jvm (jlist_get jni helper names 0)) (\<lambda>jelement.
         bind (on_jvm (jvm_to_string jni helper jelement)) (\<lambda>class_name.
         bind (gets (slot_descs \<circ> sc)) (\<lambda>ss. case ss of
           [] \<Rightarrow> undef Out_Of_Bounds
         | slot # _ \<Rightarrow>
             bind (put_sc (\<lambda>s. s\<lparr>column_class_names := column_class_names s @ [class_name]\<rparr>)) (\<lambda>_.
             bind (value_or_die (precheck_data_type class_name slot)) (\<lambda>ty.
             bind (put_sc (\<lambda>s. s\<lparr>result_column_types := result_column_types s @ [ty]\<rparr>)) (\<lambda>_.
             let intermediate = TypeDescriptor_of ty; result_column = create_column intermediate True
             in ret OK))))))
       else undef Missing_Return)))) w1 = (Val st, w')"
    unfolding init_column_class_name_def clazz_of_def
    by (auto simp: bind_eq_Val run_simps split: option.splits dest!: sc_frames)
  from check_java_exception_Val[OF w1(2)] show ?thesis
  proof (elim disjE conjE)
    assume "st = id (internal_error ''get JDBC result column class name failed'')" "sc w' = sc w1"
    with w1(1) show ?thesis by simp
  qed (use w1(1) in \<open>auto simp: bind_eq_Val run_simps value_or_die_eq precheck_data_type_def
        statusor_value_roundtrip Let_def neq_Nil_conv split: list.splits if_splits dest!: sc_frames\<close>)
qed

theorem one_column_is_recorded_witness:
  "\<exists>w' name. init_column_class_name (plain_jni\<lparr>CallIntMethod := (\<lambda>_ _ _ j. (3, j))\<rparr>)
      (plain_sworld\<lparr>sc := plain_scanner\<lparr>slot_descs := [fst (SlotDescriptor [] 1 (TypeDescriptor_of TYPE_INT) 1 ''c'' 0 4 True)]\<rparr>\<rparr>)
      = (Val OK, w') \<and> column_class_names (sc w') = [name]"
proof -
  let ?jni = "plain_jni\<lparr>CallIntMethod := (\<lambda>_ _ _ j. (3, j))\<rparr>"
  let ?w = "plain_sworld\<lparr>sc := plain_scanner\<lparr>slot_descs := [fst (SlotDescriptor [] 1 (TypeDescriptor_of TYPE_INT) 1 ''c'' 0 4 True)]\<rparr>\<rparr>"
  have "case fst (init_column_class_name ?jni ?w) of Val st \<Rightarrow> ok st | _ \<Rightarrow> False" by code_simp
  then obtain w' where r: "init_column_class_name ?jni ?w = (Val OK, w')"
    by (cases "init_column_class_name ?jni ?w") (auto simp: ok_def split: res.splits)
  from one_column_is_recorded[OF r] obtain name where
    "sc w' = (sc ?w)\<lparr>result_chunk := Some Chunk, column_class_names := column_class_names (sc ?w) @ [name],
         result_column_types := result_column_types (sc ?w) @ [TYPE_VARCHAR]\<rparr>" by auto
  with r show ?thesis by (intro exI[of _ w'] exI[of _ name]) (simp add: plain_scanner_def)
qed

end
