(* ===== verification/Pipeline.thy ===== *)
theory Pipeline
  imports Jdbc_Scanner Driver_Concurrency
begin

text \<open>
  From main.cpp down to the scanner: mock\_pipeline\_driver, operator/source\_operator,
  operator/scan\_operator, operator/connector\_scan\_operator, source/chunk\_source,
  datasource/connector and datasource/jdbc\_connector. The pipeline has one operator with at most one chunk source,
  which owns one data source with at most one scanner, so their members are the fields of one
  state. Two loops of this code need not end; a program here yields \<open>None\<close> when it does not.
\<close>

section \<open>Programs that may run forever\<close>

type_synonym ('s, 'a) oprog = "'s \<Rightarrow> ('a res \<times> 's) option"

definition total :: "('s, 'a) prog \<Rightarrow> ('s, 'a) oprog" where
  "total p w = Some (p w)"

definition after :: "'a res \<times> 's \<Rightarrow> ('a \<Rightarrow> ('s, 'b) oprog) \<Rightarrow> ('b res \<times> 's) option" where
  "after x f = (case fst x of Val a \<Rightarrow> f a (snd x) | Exn e \<Rightarrow> Some (Exn e, snd x)
     | Check_Failed c \<Rightarrow> Some (Check_Failed c, snd x) | Undef u \<Rightarrow> Some (Undef u, snd x))"

definition obind :: "('s, 'a) oprog \<Rightarrow> ('a \<Rightarrow> ('s, 'b) oprog) \<Rightarrow> ('s, 'b) oprog" where
  "obind m f w = Option.bind (m w) (\<lambda>x. after x f)"

lemma obind_Val:
  "obind m f w = Some (Val b, t) \<longleftrightarrow> (\<exists>a w'. m w = Some (Val a, w') \<and> f a w' = Some (Val b, t))"
proof (cases "m w")
  case (Some x)
  then show ?thesis by (cases x; cases "fst x") (auto simp: obind_def after_def)
qed (simp add: obind_def)

lemma total_Val: "total p w = Some x \<longleftrightarrow> p w = x"
  by (simp add: total_def)

section \<open>The state\<close>

record ('c, 'j) platform =
  p_ext :: "'c ext_libs"
  p_env :: os_env
  p_falls :: bool
  p_jni :: "'j jni"
  p_clock :: "nat \<Rightarrow> int"      \<comment> \<open>the reading of the system clock at each request\<close>

record 'j pipe =
  drivers_mgr :: manager          \<comment> \<open>the singleton of \<open>JDBCDriverManager::getInstance\<close>\<close>
  vm :: "'j jworld"
  ticks :: nat
  src_tuple_desc :: "tuple_descriptor option"   \<comment> \<open>\<open>DataSource::\_tuple\_desc\<close>\<close>
  src_scanner :: "scanner option"               \<comment> \<open>\<open>JDBCDataSource::\_scanner\<close>\<close>
  base_status :: status                         \<comment> \<open>\<open>ChunkSource::\_status\<close>\<close>
  own_status :: status                          \<comment> \<open>\<open>ConnectorChunkSource::\_status\<close>, which hides it\<close>
  opened :: bool
  has_source :: bool                            \<comment> \<open>\<open>ScanOperator::\_chunk\_source\<close> is not null\<close>
  scan_status :: status

section \<open>datasource\<close>

definition driver_name :: string where "driver_name = ''mssql-jdbc''"
definition driver_url :: string where
  "driver_url = ''https://repo1.maven.org/maven2/com/microsoft/sqlserver/mssql-jdbc/12.4.2.jre8/mssql-jdbc-12.4.2.jre8.jar''"
definition driver_checksum :: string where "driver_checksum = ''6c10ef9c332098b2c51f20f03eb6c294''"
definition driver_class :: string where "driver_class = ''com.microsoft.sqlserver.jdbc.SQLServerDriver''"

definition scan_context_for :: "string \<Rightarrow> scan_context" where
  "scan_context_for loc =
     \<lparr>driver_path = loc, driver_class_name = driver_class,
      ctx_jdbc_url = ''jdbc:sqlserver://127.0.0.1:1433;databaseName=MyDatabase;trustServerCertificate=true'',
      ctx_user = ''sa'', ctx_passwd = ''Lxz74321.!'',
      ctx_sql = ''select SampleID,SampleBigInt from dbo.SampleTypeTable'', ctx_properties = []\<rparr>"

text \<open>The interface \<open>DataSource\<close>: what a source that overrides nothing does; \<open>\_init\_chunk\<close> has an
  empty body.\<close>

definition base_source_open :: "runtime_state \<Rightarrow> ('s, status) prog" where "base_source_open state = ret OK"
definition base_source_close :: "('s, unit) prog" where "base_source_close = ret ()"
definition base_source_get_next :: "chunk option \<Rightarrow> ('s, status \<times> chunk option) prog" where
  "base_source_get_next chunk = ret (OK, chunk)"
definition skip_predicate :: bool where "skip_predicate = False"
definition init_chunk :: "chunk option \<Rightarrow> nat \<Rightarrow> chunk option" where "init_chunk chunk n = chunk"

text \<open>A method of the scanner, called through the pointer.\<close>

definition with_scanner :: "('j sworld, 'a) prog \<Rightarrow> ('j pipe, 'a) prog" where
  "with_scanner p w =
     (case src_scanner w of
        None \<Rightarrow> (Undef Null_Deref, w)
      | Some s \<Rightarrow> (case p \<lparr>jw = vm w, sc = s\<rparr> of (r, v) \<Rightarrow> (r, w\<lparr>vm := jw v, src_scanner := Some (sc v)\<rparr>)))"

definition create_scanner :: "('c, 'j) platform \<Rightarrow> ('j pipe, status) prog" where
  "create_scanner pf w =
     (case get_driver_location (p_ext pf) (p_env pf) (p_clock pf (ticks w)) driver_name driver_url
             driver_checksum (drivers_mgr w) of
        ((status, driver_location), m) \<Rightarrow>
          (let w = w\<lparr>drivers_mgr := m, ticks := Suc (ticks w)\<rparr>
           in if \<not> ok status then (Val status, w)
              else
                (case JDBCScanner (scan_context_for driver_location) (src_tuple_desc w) of
                   Val s \<Rightarrow> bind (with_scanner (scanner_open (p_jni pf))) (\<lambda>_. ret OK) (w\<lparr>src_scanner := Some s\<rparr>)
                 | Exn e \<Rightarrow> (Exn e, w)
                 | Check_Failed c \<Rightarrow> (Check_Failed c, w)
                 | Undef u \<Rightarrow> (Undef u, w))))"

definition data_source_open :: "('c, 'j) platform \<Rightarrow> runtime_state \<Rightarrow> ('j pipe, status) prog" where
  "data_source_open pf state w =
     (case desc_tbl_ref state of
        Val t \<Rightarrow>
          bind (modify (\<lambda>w. w\<lparr>src_tuple_desc := get_tuple_descriptor t 123\<rparr>)) (\<lambda>_.
          bind (create_scanner pf) (\<lambda>_. ret OK)) w
      | Exn e \<Rightarrow> (Exn e, w)
      | Check_Failed c \<Rightarrow> (Check_Failed c, w)
      | Undef u \<Rightarrow> (Undef u, w))"

text \<open>The condition of the \<open>do\<close> loop: another round is needed.\<close>

definition again :: "chunk option \<Rightarrow> bool \<Rightarrow> bool res" where
  "again chunk eos =
     (if eos then Val False
      else (case chunk of
              None \<Rightarrow> Undef Null_Deref
            | Some c \<Rightarrow> res_bind (num_rows c) (\<lambda>n. Val (n = 0))))"

partial_function (option) source_loop ::
    "('c, 'j) platform \<Rightarrow> chunk option \<Rightarrow> 'j pipe \<Rightarrow> (chunk option res \<times> 'j pipe) option" where
  "source_loop pf chunk w =
     Option.bind (Some (with_scanner (scanner_get_next (p_jni pf) chunk) w)) (\<lambda>(r, w').
       case r of
         Val (_, chunk', eos) \<Rightarrow>
           (case again chunk' eos of
              Val repeat \<Rightarrow> (if repeat then source_loop pf chunk' w' else Some (Val chunk', w'))
            | Exn e \<Rightarrow> Some (Exn e, w')
            | Check_Failed c \<Rightarrow> Some (Check_Failed c, w')
            | Undef u \<Rightarrow> Some (Undef u, w'))
       | Exn e \<Rightarrow> Some (Exn e, w')
       | Check_Failed c \<Rightarrow> Some (Check_Failed c, w')
       | Undef u \<Rightarrow> Some (Undef u, w'))"

text \<open>Both ways out of \<open>get\_next\<close> say OK.\<close>

definition data_source_get_next ::
    "('c, 'j) platform \<Rightarrow> chunk option \<Rightarrow> ('j pipe, status \<times> chunk option) oprog" where
  "data_source_get_next pf chunk =
     obind (source_loop pf (init_chunk chunk 0)) (\<lambda>chunk'. total (ret (OK, chunk')))"

text \<open>\<open>close\<close> of the data source leaves the scanner open.\<close>

definition data_source_close :: "('j pipe, unit) prog" where "data_source_close = ret ()"

section \<open>source and operator\<close>

text \<open>
  The loop ends when the status of the data source is not OK. Its chunk \<open>tmp\<close> dies in each round.
\<close>

partial_function (option) read_loop :: "('c, 'j) platform \<Rightarrow> 'j pipe \<Rightarrow> (unit res \<times> 'j pipe) option" where
  "read_loop pf w =
     (if \<not> ok (own_status w) then Some (Val (), w)
      else Option.bind (data_source_get_next pf None w) (\<lambda>(r, w').
        case r of
          Val (st, _) \<Rightarrow> read_loop pf (w'\<lparr>own_status := st\<rparr>)
        | Exn e \<Rightarrow> Some (Exn e, w')
        | Check_Failed c \<Rightarrow> Some (Check_Failed c, w')
        | Undef u \<Rightarrow> Some (Undef u, w')))"

definition read_chunk :: "('c, 'j) platform \<Rightarrow> runtime_state \<Rightarrow> ('j pipe, status) oprog" where
  "read_chunk pf state =
     obind (\<lambda>w. if opened w then Some (Val OK, w)
                else obind (total (data_source_open pf state)) (\<lambda>status.
                       if \<not> ok status then total (ret (internal_error ''open data source error''))
                       else total (bind (modify (\<lambda>w. w\<lparr>opened := True\<rparr>)) (\<lambda>_. ret OK))) w) (\<lambda>status.
       if \<not> ok status then total (ret status)
       else obind (read_loop pf) (\<lambda>_. total (ret OK)))"

definition kIOTaskBatchSize :: nat where "kIOTaskBatchSize = 64"

fun batch_loop :: "('c, 'j) platform \<Rightarrow> runtime_state \<Rightarrow> nat \<Rightarrow> ('j pipe, unit) oprog" where
  "batch_loop pf state 0 = total (ret ())"
| "batch_loop pf state (Suc n) =
     obind (read_chunk pf state) (\<lambda>st.
     obind (total (modify (\<lambda>w. w\<lparr>base_status := st\<rparr>))) (\<lambda>_.
       if \<not> ok st then total (ret ()) else batch_loop pf state n))"

definition buffer_next_batch_chunks_blocking ::
    "('c, 'j) platform \<Rightarrow> runtime_state \<Rightarrow> nat \<Rightarrow> ('j pipe, status) oprog" where
  "buffer_next_batch_chunks_blocking pf state batch_size w =
     (if \<not> ok (base_status w) then Some (Val (base_status w), w)
      else obind (batch_loop pf state batch_size) (\<lambda>_. total (undef Missing_Return)) w)"

definition has_next_chunk :: "'j pipe \<Rightarrow> bool" where
  "has_next_chunk w \<longleftrightarrow> ok (base_status w)"

definition chunk_source_prepare :: "('j pipe, status) prog" where
  "chunk_source_prepare = ret OK"

text \<open>The base class's \<open>prepare\<close>, and \<open>close\<close>, which does not reach the data source.\<close>

definition base_chunk_source_prepare :: "('j pipe, status) prog" where "base_chunk_source_prepare = ret OK"
definition chunk_source_close :: "('j pipe, unit) prog" where "chunk_source_close = ret ()"

text \<open>A new chunk source with its new data source; the one before is destroyed.\<close>

definition create_chunk_source :: "'j pipe \<Rightarrow> 'j pipe" where
  "create_chunk_source w =
     w\<lparr>src_tuple_desc := None, src_scanner := None, base_status := OK, own_status := OK, opened := False,
       has_source := True\<rparr>"

definition operator_name :: string where "operator_name = ''default''"
definition operator_id :: int where "operator_id = 1"

definition get_name :: "int \<Rightarrow> string \<Rightarrow> string" where
  "get_name i n = to_string i @ ''_'' @ n"

definition set_finished :: "('j pipe, status) prog" where
  "set_finished = ret OK"

definition reset_state :: "chunk list \<Rightarrow> ('j pipe, status) prog" where
  "reset_state refill_chunks = ret OK"

definition need_input :: "'j pipe \<Rightarrow> bool" where "need_input w = False"
definition has_output :: "'j pipe \<Rightarrow> bool" where "has_output w = False"
definition is_finished :: "'j pipe \<Rightarrow> bool" where "is_finished w = True"

definition push_chunk :: "chunk option \<Rightarrow> ('j pipe, status) prog" where
  "push_chunk chunk = ret (internal_error ''Shouldn't push chunk to source operator'')"

text \<open>Only an OK status is stored.\<close>

definition set_scan_status :: "status \<Rightarrow> ('j pipe, unit) prog" where
  "set_scan_status st = modify (\<lambda>w. if ok st then w\<lparr>scan_status := st\<rparr> else w)"

definition get_scan_status :: "('j pipe, status) prog" where
  "get_scan_status = gets scan_status"

definition finish_chunk_source_task :: "('j pipe, unit) prog" where
  "finish_chunk_source_task = modify (\<lambda>w. if \<not> has_next_chunk w \<or> is_finished w then w else w)"

definition trigger_next_scan :: "('c, 'j) platform \<Rightarrow> runtime_state \<Rightarrow> ('j pipe, status) oprog" where
  "trigger_next_scan pf state =
     obind (buffer_next_batch_chunks_blocking pf state kIOTaskBatchSize) (\<lambda>status.
     obind (total finish_chunk_source_task) (\<lambda>_. total (ret status)))"

definition pickup_morsel :: "('c, 'j) platform \<Rightarrow> runtime_state \<Rightarrow> ('j pipe, status) oprog" where
  "pickup_morsel pf state =
     obind (total (modify create_chunk_source)) (\<lambda>_.
     obind (total chunk_source_prepare) (\<lambda>status.
       if \<not> ok status then obind (total set_finished) (\<lambda>_. total (ret status))
       else obind (trigger_next_scan pf state) (\<lambda>_. total (ret OK))))"

definition try_to_trigger_next_scan :: "('c, 'j) platform \<Rightarrow> runtime_state \<Rightarrow> ('j pipe, status) oprog" where
  "try_to_trigger_next_scan pf state =
     obind (\<lambda>w. if has_source w \<and> has_next_chunk w then trigger_next_scan pf state w else Some (Val OK, w)) (\<lambda>status.
       if \<not> ok status then total (ret (internal_error ''trigger next scan error''))
       else obind (pickup_morsel pf state) (\<lambda>_. total (ret OK)))"

definition pull_chunk :: "('c, 'j) platform \<Rightarrow> runtime_state \<Rightarrow> ('j pipe, chunk option status_or) oprog" where
  "pull_chunk pf state = obind (try_to_trigger_next_scan pf state) (\<lambda>_. total (undef Missing_Return))"

section \<open>The driver and main\<close>

datatype driver_state =
    NOT_READY | READY | RUNNING | INPUT_EMPTY | OUTPUT_FULL | PRECONDITION_BLOCK | FINISH | CANCELED
  | INTERNAL_ERROR | PENDING_FINISH

text \<open>The operators of a driver: whether each is a scan operator.\<close>

definition source_scan_operator :: "bool list \<Rightarrow> bool" where
  "source_scan_operator ops = (case ops of [] \<Rightarrow> False | is_scan # _ \<Rightarrow> is_scan)"

definition driver_prepare :: "('j pipe, status) prog" where
  "driver_prepare = ret OK"

definition driver_process ::
    "('c, 'j) platform \<Rightarrow> bool list \<Rightarrow> runtime_state \<Rightarrow> ('j pipe, driver_state status_or) oprog" where
  "driver_process pf ops state =
     (if \<not> source_scan_operator ops then total (undef Null_Deref)
      else obind (pull_chunk pf state) (\<lambda>maybe_chunk. total (undef Missing_Return)))"

definition driver_finalize :: "driver_state \<Rightarrow> ('j pipe, unit) prog" where
  "driver_finalize st = ret ()"

definition main_driver_dir :: string where
  "main_driver_dir = ''/Users/lixinzhuang1/IdeaProjects/sr-scanner-demo/be/lib/jdbc_drivers''"

definition on_mgr :: "(manager, 'a) prog \<Rightarrow> ('j pipe, 'a) prog" where
  "on_mgr p = zoom drivers_mgr (\<lambda>m w. w\<lparr>drivers_mgr := m\<rparr>) p"

definition main :: "('c, 'j) platform \<Rightarrow> ('j pipe, int) oprog" where
  "main pf =
     obind (total (on_mgr (init_manager (p_falls pf) (p_env pf) main_driver_dir))) (\<lambda>_.
     let state = RuntimeState; ops = [True]
     in obind (total driver_prepare) (\<lambda>_.
        obind (driver_process pf ops state) (\<lambda>_. total (ret 0))))"

section \<open>Lemmas\<close>

lemma obind_total_Val [simp]: "p w = (Val a, w') \<Longrightarrow> obind (total p) f w = f a w'"
  by (simp add: obind_def total_def after_def)

lemma obind_Undef: "m w = Some (Undef u, w') \<Longrightarrow> obind m f w = Some (Undef u, w')"
  by (simp add: obind_def after_def)

lemma obind_None: "m w = None \<Longrightarrow> obind m f w = None"
  by (simp add: obind_def)

lemma with_scanner_Val:
  "with_scanner p w = (Val a, w') \<longleftrightarrow>
     (\<exists>s v. src_scanner w = Some s \<and> p \<lparr>jw = vm w, sc = s\<rparr> = (Val a, v) \<and>
        w' = w\<lparr>vm := jw v, src_scanner := Some (sc v)\<rparr>)"
  by (auto simp: with_scanner_def split: option.splits prod.splits)

lemma create_scanner_frame:
  assumes "create_scanner pf w = (r, w')"
  shows "own_status w' = own_status w \<and> base_status w' = base_status w \<and> opened w' = opened w"
  using assms
  by (auto simp: create_scanner_def with_scanner_def bind_def run_simps Let_def
      split: prod.splits option.splits res.splits if_splits)

lemma open_frame:
  assumes "data_source_open pf state w = (Val st, w')"
  shows "st = OK \<and> own_status w' = own_status w \<and> base_status w' = base_status w"
proof -
  from assms obtain t st1 where "desc_tbl_ref state = Val t" and st: "st = OK"
    and c: "create_scanner pf (w\<lparr>src_tuple_desc := get_tuple_descriptor t 123\<rparr>) = (Val st1, w')"
    by (auto simp: data_source_open_def bind_eq_Val run_simps split: res.splits)
  from create_scanner_frame[OF c] st show ?thesis by simp
qed

text \<open>A call of the scanner that returns ends the loop, with the end of the stream.\<close>

lemma source_loop_step:
  "source_loop pf chunk w =
     (case with_scanner (scanner_get_next (p_jni pf) chunk) w of
        (Val _, w') \<Rightarrow> Some (Val chunk, w')
      | (Exn e, w') \<Rightarrow> Some (Exn e, w')
      | (Check_Failed c, w') \<Rightarrow> Some (Check_Failed c, w')
      | (Undef u, w') \<Rightarrow> Some (Undef u, w'))"
proof -
  obtain r w' where run: "with_scanner (scanner_get_next (p_jni pf) chunk) w = (r, w')" by fastforce
  show ?thesis
  proof (cases r)
    case (Val x)
    with run obtain s v where "scanner_get_next (p_jni pf) chunk \<lparr>jw = vm w, sc = s\<rparr> = (Val x, v)"
      by (auto simp: with_scanner_Val)
    then have "x = (OK, chunk, True)" by (simp add: get_next_returns)
    with run Val show ?thesis by (subst source_loop.simps) (simp add: again_def)
  qed (use run in \<open>subst source_loop.simps, simp\<close>)+
qed

lemma get_next_always_OK:
  "data_source_get_next pf chunk w = Some (Val (st, chunk'), w') \<Longrightarrow> st = OK \<and> chunk' = chunk"
  by (auto simp: data_source_get_next_def init_chunk_def obind_Val total_def run_simps source_loop_step
      split: prod.splits res.splits)

lemma source_frame:
  assumes "data_source_get_next pf chunk w = Some (Val x, w')"
  shows "own_status w' = own_status w"
  using assms
  by (auto simp: data_source_get_next_def init_chunk_def obind_Val total_def run_simps source_loop_step with_scanner_def
      split: prod.splits res.splits option.splits)

lemma read_loop_never_returns:
  fixes pf :: "('c, 'j) platform"
  assumes "read_loop pf w = Some x"
  shows "ok (own_status w) \<longrightarrow> \<not> is_Val (fst x)"
proof (rule read_loop.raw_induct[where P = "\<lambda>_ w x. ok (own_status w) \<longrightarrow> \<not> is_Val (fst x)", OF _ assms])
  fix rl :: "('c, 'j) platform \<Rightarrow> 'j pipe \<Rightarrow> (unit res \<times> 'j pipe) option" and pf w x
  assume IH: "\<And>pf w x. rl pf w = Some x \<Longrightarrow> ok (own_status w) \<longrightarrow> \<not> is_Val (fst x)"
    and step: "(if \<not> ok (own_status w) then Some (Val (), w)
      else Option.bind (data_source_get_next pf None w) (\<lambda>(r, w').
        case r of
          Val (st, _) \<Rightarrow> rl pf (w'\<lparr>own_status := st\<rparr>)
        | Exn e \<Rightarrow> Some (Exn e, w')
        | Check_Failed c \<Rightarrow> Some (Check_Failed c, w')
        | Undef u \<Rightarrow> Some (Undef u, w'))) = Some x"
  show "ok (own_status w) \<longrightarrow> \<not> is_Val (fst x)"
  proof
    assume ok: "ok (own_status w)"
    with step obtain r w' where g: "data_source_get_next pf None w = Some (r, w')"
      and c: "(case r of Val (st, _) \<Rightarrow> rl pf (w'\<lparr>own_status := st\<rparr>) | Exn e \<Rightarrow> Some (Exn e, w')
        | Check_Failed c \<Rightarrow> Some (Check_Failed c, w') | Undef u \<Rightarrow> Some (Undef u, w')) = Some x"
      by (auto simp: bind_eq_Some_conv)
    show "\<not> is_Val (fst x)"
    proof (cases r)
      case (Val y)
      obtain st ch where y: "y = (st, ch)" by (cases y)
      have "st = OK" using get_next_always_OK g Val y by blast
      with c Val y IH[of pf "w'\<lparr>own_status := st\<rparr>" x] show ?thesis by simp
    qed (use c in auto)
  qed
qed

section \<open>What the pipeline does\<close>

text \<open>C12. For every virtual machine, database and registry, reading a chunk from a healthy chunk source
  never returns to its caller: it runs forever, throws, or meets undefined behaviour.\<close>

theorem read_chunk_never_returns:
  assumes "ok (own_status w)"
  shows "read_chunk pf state w \<noteq> Some (Val st, w')"
proof
  assume r: "read_chunk pf state w = Some (Val st, w')"
  then obtain s1 w1 where first: "(if opened w then Some (Val OK, w)
                else obind (total (data_source_open pf state)) (\<lambda>status.
                       if \<not> ok status then total (ret (internal_error ''open data source error''))
                       else total (bind (modify (\<lambda>w. w\<lparr>opened := True\<rparr>)) (\<lambda>_. ret OK))) w) = Some (Val s1, w1)"
    and rest: "(if \<not> ok s1 then total (ret s1) else obind (read_loop pf) (\<lambda>_. total (ret OK))) w1 = Some (Val st, w')"
    by (auto simp: read_chunk_def obind_Val)
  have "ok s1 \<and> ok (own_status w1)"
    using first assms open_frame[of pf state w]
    by (auto simp: obind_Val total_def run_simps split: if_splits)
  with rest obtain w2 where "read_loop pf w1 = Some (Val (), w2)" by (auto simp: obind_Val)
  with read_loop_never_returns[OF this] \<open>ok s1 \<and> ok (own_status w1)\<close> show False by simp
qed

text \<open>
  A scanner at the end of its result: \<open>hasNext\<close> answers no (or throws and is ignored), again and
  again.
\<close>

definition exhausted :: "'j jni \<Rightarrow> 'j sworld set \<Rightarrow> bool" where
  "exhausted jni I \<longleftrightarrow> (\<forall>x \<in> I. \<exists>st x'. has_next_call jni False x = (Val (st, False), x') \<and> x' \<in> I)"

definition at_end :: "'j sworld set \<Rightarrow> 'j pipe \<Rightarrow> bool" where
  "at_end I w \<longleftrightarrow> ok (own_status w) \<and> (\<exists>s. src_scanner w = Some s \<and> \<lparr>jw = vm w, sc = s\<rparr> \<in> I)"

lemma at_end_step:
  assumes "exhausted (p_jni pf) I" "at_end I w"
  shows "\<exists>w'. data_source_get_next pf None w = Some (Val (OK, None), w') \<and> at_end I (w'\<lparr>own_status := OK\<rparr>)"
proof -
  from assms(2) obtain s where s: "src_scanner w = Some s" "\<lparr>jw = vm w, sc = s\<rparr> \<in> I" by (auto simp: at_end_def)
  from assms(1) s(2) obtain st x' where x: "has_next_call (p_jni pf) False \<lparr>jw = vm w, sc = s\<rparr> = (Val (st, False), x')" "x' \<in> I"
    by (auto simp: exhausted_def)
  let ?w' = "w\<lparr>vm := jw x', src_scanner := Some (sc x')\<rparr>"
  have "with_scanner (scanner_get_next (p_jni pf) None) w = (Val (OK, None, True), ?w')"
    using get_next_returns[of "p_jni pf" None] x(1) s(1) by (auto simp: with_scanner_Val)
  then have "data_source_get_next pf None w = Some (Val (OK, None), ?w')"
    by (simp add: data_source_get_next_def init_chunk_def obind_Val source_loop_step total_def run_simps)
  moreover have "\<lparr>jw = jw x', sc = sc x'\<rparr> \<in> I" using x(2) by (cases x') simp
  then have "at_end I (?w'\<lparr>own_status := OK\<rparr>)" by (simp add: at_end_def)
  ultimately show ?thesis by blast
qed

lemma read_loop_runs_forever:
  fixes pf :: "('c, 'j) platform"
  assumes "exhausted (p_jni pf) I"
  shows "at_end I w \<Longrightarrow> read_loop pf w = None"
proof (rule ccontr)
  assume "at_end I w" and "read_loop pf w \<noteq> None"
  then obtain x where x: "read_loop pf w = Some x" by blast
  have "pf = pf \<longrightarrow> \<not> at_end I w"
  proof (rule read_loop.raw_induct[where P = "\<lambda>q w x. q = pf \<longrightarrow> \<not> at_end I w", OF _ x])
    fix rl :: "('c, 'j) platform \<Rightarrow> 'j pipe \<Rightarrow> (unit res \<times> 'j pipe) option" and q v y
    assume IH: "\<And>q w x. rl q w = Some x \<Longrightarrow> q = pf \<longrightarrow> \<not> at_end I w"
      and step: "(if \<not> ok (own_status v) then Some (Val (), v)
        else Option.bind (data_source_get_next q None v) (\<lambda>(r, w').
          case r of Val (st, _) \<Rightarrow> rl q (w'\<lparr>own_status := st\<rparr>) | Exn e \<Rightarrow> Some (Exn e, w')
          | Check_Failed c \<Rightarrow> Some (Check_Failed c, w') | Undef u \<Rightarrow> Some (Undef u, w'))) = Some y"
    show "q = pf \<longrightarrow> \<not> at_end I v"
    proof (intro impI notI)
      assume q: "q = pf" and v: "at_end I v"
      from at_end_step[OF assms v] obtain w' where
        g: "data_source_get_next pf None v = Some (Val (OK, None), w')" "at_end I (w'\<lparr>own_status := OK\<rparr>)" by blast
      with step q v have "rl pf (w'\<lparr>own_status := OK\<rparr>) = Some y" by (simp add: at_end_def)
      with IH g(2) show False by blast
    qed
  qed
  with \<open>at_end I w\<close> show False by blast
qed

text \<open>When the result has no more rows, reading a chunk from the opened source never ends: the end of
  the stream is reported as OK, and the loop waits for a status that is not OK.\<close>

theorem end_of_stream_loops:
  assumes "exhausted (p_jni pf) I" "at_end I w" "opened w"
  shows "read_chunk pf state w = None"
  using read_loop_runs_forever[OF assms(1,2)] assms(3)
  by (simp add: read_chunk_def obind_def after_def)

definition demo_platform :: "nat \<Rightarrow> (string, nat) platform" where
  "demo_platform t = \<lparr>p_ext = example_ext [''ab''], p_env = roomy_os, p_falls = True, p_jni = plain_jni,
     p_clock = (\<lambda>_. 5)\<rparr>"

definition demo_pipe :: "nat pipe" where
  "demo_pipe = \<lparr>drivers_mgr = start, vm = fresh_process, ticks = 0, src_tuple_desc = None,
     src_scanner = Some plain_scanner, base_status = OK, own_status = OK, opened = True, has_source = True,
     scan_status = OK\<rparr>"

text \<open>All states of the plain machine whose helper is ready, with the plain scanner, are at the end.\<close>

definition plain_states :: "nat sworld set" where
  "plain_states = {x. (\<exists>h. jvm_ready h (jw x)) \<and> sc x = plain_scanner}"

lemma plain_exhausted: "exhausted plain_jni plain_states"
  unfolding exhausted_def
proof
  fix x :: "nat sworld" assume x: "x \<in> plain_states"
  then obtain h where h: "jvm_ready h (jw x)" "sc x = plain_scanner" by (auto simp: plain_states_def)
  have env: "get_env plain_jni x = (Val h, x)"
    using getInstance_ready[OF h(1)] by (simp add: get_env_def on_jvm_def zoom_def)
  let ?x' = "x\<lparr>jw := (jw x)\<lparr>java := Suc (java (jw x))\<rparr>\<rparr>"
  have calls: "CallBooleanMethod plain_jni r i as j = (False, Suc j)" "ExceptionOccurred plain_jni j = None"
    for r i as j by (simp_all add: plain_jni_def)
  have refs: "jdbc_scanner plain_scanner = Some 4" "scanner_has_next plain_scanner = Some 2"
    by (simp_all add: plain_scanner_def)
  have "env_call [Some 4, Some 2] (CallBooleanMethod plain_jni (Some 4) (Some 2) []) x = (Val False, ?x')"
    using h(1) by (simp add: env_call_def on_jvm_def zoom_def through_def jcall_def jvm_ready_def calls)
  then have "has_next_call plain_jni False x = (Val (OK, False), ?x')"
    by (simp add: has_next_call_def bind_def env run_simps h(2) refs check_java_exception_def calls)
  moreover have "?x' \<in> plain_states" using h by (auto simp: plain_states_def jvm_ready_def)
  ultimately show "\<exists>st x'. has_next_call plain_jni False x = (Val (st, False), x') \<and> x' \<in> plain_states" by blast
qed

definition ready_pipe :: "jvm_helper \<Rightarrow> nat pipe" where
  "ready_pipe h = demo_pipe\<lparr>vm := fresh_process\<lparr>env_set := True, the_helper := Some h\<rparr>\<rparr>"

lemma ready_at_end: "at_end plain_states (ready_pipe h)" "opened (ready_pipe h)"
  by (simp_all add: at_end_def ready_pipe_def demo_pipe_def plain_states_def jvm_ready_def)

definition demo_helper :: jvm_helper where
  "demo_helper = \<lparr>object_class = Some 1, object_array_class = Some 1, string_class = Some 1,
     throwable_class = Some 1, jarrays_class = Some 1, list_class = Some 1, boxes = [],
     list_get_id = Some 2, list_size_id = Some 2\<rparr>"

theorem end_of_stream_loops_witness:
  "read_chunk (demo_platform 0) RuntimeState (ready_pipe demo_helper) = None"
proof (rule end_of_stream_loops[OF _ ready_at_end])
  show "exhausted (p_jni (demo_platform 0)) plain_states" by (simp add: demo_platform_def plain_exhausted)
qed

theorem read_chunk_never_returns_witness:
  "\<forall>st w'. read_chunk (demo_platform 0) RuntimeState demo_pipe \<noteq> Some (Val st, w')"
  by (intro allI read_chunk_never_returns) (simp add: demo_pipe_def)

text \<open>The first request, up from the read of a new chunk source.\<close>

lemma first_request:
  assumes "\<not> has_source w"
  shows "read_chunk pf state (create_chunk_source w) = Some (Undef u, w') \<Longrightarrow>
      driver_process pf [True] state w = Some (Undef u, w')"
    "read_chunk pf state (create_chunk_source w) = None \<Longrightarrow> driver_process pf [True] state w = None"
proof -
  have up: "driver_process pf [True] state w =
      obind (pickup_morsel pf state) (\<lambda>_. total (undef Missing_Return)) w"
    if "pickup_morsel pf state w = None \<or> (\<exists>u w'. pickup_morsel pf state w = Some (Undef u, w'))"
    using that assms
    by (auto simp: driver_process_def source_scan_operator_def pull_chunk_def try_to_trigger_next_scan_def
        obind_def after_def)
  have pick: "pickup_morsel pf state w =
      obind (trigger_next_scan pf state) (\<lambda>_. total (ret OK)) (create_chunk_source w)"
    by (simp add: pickup_morsel_def chunk_source_prepare_def run_simps)
  have buffer: "buffer_next_batch_chunks_blocking pf state kIOTaskBatchSize (create_chunk_source w) = x"
    if "read_chunk pf state (create_chunk_source w) = x" "x = None \<or> (\<exists>u w'. x = Some (Undef u, w'))" for x
    using that by (auto simp: buffer_next_batch_chunks_blocking_def kIOTaskBatchSize_def numeral_eq_Suc
        obind_def after_def create_chunk_source_def)
  show "read_chunk pf state (create_chunk_source w) = Some (Undef u, w') \<Longrightarrow>
      driver_process pf [True] state w = Some (Undef u, w')"
    using buffer by (simp add: up pick trigger_next_scan_def obind_Undef)
  show "read_chunk pf state (create_chunk_source w) = None \<Longrightarrow> driver_process pf [True] state w = None"
    using buffer by (simp add: up pick trigger_next_scan_def obind_None)
qed

text \<open>C14. The whole program: after the driver manager has started, the pipeline dereferences the null
  descriptor table of the query state, before any driver is looked up or the machine is touched;
  otherwise the program ends as the start of the manager did. It never returns an exit code.\<close>

theorem main_outcome:
  assumes "\<not> has_source w"
  shows "main pf w =
    (case init_manager (p_falls pf) (p_env pf) main_driver_dir (drivers_mgr w) of
       (Val _, m) \<Rightarrow> Some (Undef Null_Deref, create_chunk_source (w\<lparr>drivers_mgr := m\<rparr>))
     | (Exn e, m) \<Rightarrow> Some (Exn e, w\<lparr>drivers_mgr := m\<rparr>)
     | (Check_Failed c, m) \<Rightarrow> Some (Check_Failed c, w\<lparr>drivers_mgr := m\<rparr>)
     | (Undef u, m) \<Rightarrow> Some (Undef u, w\<lparr>drivers_mgr := m\<rparr>))"
proof -
  obtain r m where i: "init_manager (p_falls pf) (p_env pf) main_driver_dir (drivers_mgr w) = (r, m)" by fastforce
  let ?w1 = "w\<lparr>drivers_mgr := m\<rparr>"
  let ?w2 = "create_chunk_source ?w1"
  have start: "total (on_mgr (init_manager (p_falls pf) (p_env pf) main_driver_dir)) w = Some (r, ?w1)"
    by (simp add: total_def on_mgr_def zoom_def i)
  show ?thesis
  proof (cases r)
    case (Val st)
    have "data_source_open pf RuntimeState ?w2 = (Undef Null_Deref, ?w2)"
      by (simp add: data_source_open_def desc_tbl_ref_def RuntimeState_def)
    then have "read_chunk pf RuntimeState ?w2 = Some (Undef Null_Deref, ?w2)"
      by (simp add: read_chunk_def obind_def total_def after_def create_chunk_source_def)
    then have "driver_process pf [True] RuntimeState ?w1 = Some (Undef Null_Deref, ?w2)"
      using assms by (intro first_request) simp_all
    then show ?thesis
      using start i Val by (simp add: main_def obind_def total_def after_def driver_prepare_def run_simps)
  qed (use start i in \<open>simp_all add: main_def obind_def after_def\<close>)
qed

theorem main_outcome_witness:
  "fst (the (main (demo_platform 0) (demo_pipe\<lparr>has_source := False,
      drivers_mgr := JDBCDriverManager [(main_driver_dir, Directory)]\<rparr>))) = Undef Null_Deref"
proof -
  have "is_Val (fst (init_manager True roomy_os main_driver_dir (JDBCDriverManager [(main_driver_dir, Directory)])))"
    by code_simp
  then obtain st m where "init_manager True roomy_os main_driver_dir (JDBCDriverManager [(main_driver_dir, Directory)]) = (Val st, m)"
    by (auto simp: is_Val_iff) (metis prod.collapse)
  then show ?thesis by (subst main_outcome) (simp_all add: demo_platform_def demo_pipe_def)
qed

section \<open>The driver of the program\<close>

text \<open>What a data source that opens has done: fetched the driver, made a scanner and opened it.\<close>

lemma data_source_open_steps:
  assumes "mgr_ok (drivers_mgr w)" "desc_tbl state = Some t" "data_source_open pf state w = (Val st, w')"
  obtains loc s tuple o1 v where "st = OK" "mgr_ok (drivers_mgr w')"
    "cache_of (drivers_mgr w') driver_name = Some (driver_checksum, loc)"
    "get_tuple_descriptor t 123 = Some tuple" "scan_ctx s = scan_context_for loc" "slot_descs s = slots tuple"
    "scanner_open (p_jni pf) \<lparr>jw = vm w, sc = s\<rparr> = (Val o1, v)" "vm w' = jw v" "src_scanner w' = Some (sc v)"
    "scan_ctx (sc v) = scan_ctx s" "slot_descs (sc v) = slot_descs s"
proof -
  let ?w = "w\<lparr>src_tuple_desc := get_tuple_descriptor t 123\<rparr>"
  let ?now = "p_clock pf (ticks w)"
  obtain st1 loc m where g: "get_driver_location (p_ext pf) (p_env pf) ?now driver_name driver_url
      driver_checksum (drivers_mgr w) = ((st1, loc), m)" by (metis prod.collapse)
  from get_driver_location_refines[OF assms(1) g] have m: "st1 = OK" "mgr_ok m"
    and c: "cache_of m driver_name = Some (driver_checksum, loc)" by (auto dest: cache_get_holds)
  let ?w1 = "?w\<lparr>drivers_mgr := m, ticks := Suc (ticks w)\<rparr>"
  from assms(2,3) obtain st2 where st: "st = OK" and r: "create_scanner pf ?w = (Val st2, w')"
    by (auto simp: data_source_open_def desc_tbl_ref_def bind_eq_Val run_simps)
  from r g m(1) obtain s where s: "JDBCScanner (scan_context_for loc) (get_tuple_descriptor t 123) = Val s"
    and run: "bind (with_scanner (scanner_open (p_jni pf))) (\<lambda>_. ret OK) (?w1\<lparr>src_scanner := Some s\<rparr>) = (Val st2, w')"
    by (auto simp: create_scanner_def Let_def split: res.splits)
  from s obtain tuple where tuple: "get_tuple_descriptor t 123 = Some tuple" "scan_ctx s = scan_context_for loc"
    "slot_descs s = slots tuple" by (auto simp: JDBCScanner_def split: option.splits)
  from run obtain o1 v where v: "scanner_open (p_jni pf) \<lparr>jw = vm w, sc = s\<rparr> = (Val o1, v)"
    "w' = ?w1\<lparr>vm := jw v, src_scanner := Some (sc v)\<rparr>"
    by (auto simp: bind_eq_Val run_simps with_scanner_Val)
  from ctx_safe_open v(1) have "scan_ctx (sc v) = scan_ctx s" "slot_descs (sc v) = slot_descs s"
    unfolding ctx_safe_def by fastforce+
  with v tuple c m(2) st show thesis by (intro that[of loc tuple s o1 v]) simp_all
qed

text \<open>Opening the data source on a consistent cache: when it returns it says OK, the cache then
  holds the program's driver with its checksum, and the scanner was given the cached location as
  the place of its driver and the slots of tuple 123 as its columns.\<close>

theorem open_uses_cached_driver:
  assumes "mgr_ok (drivers_mgr w)" "desc_tbl state = Some t" "data_source_open pf state w = (Val st, w')"
  shows "st = OK \<and> mgr_ok (drivers_mgr w') \<and>
    (\<exists>loc s tuple. cache_of (drivers_mgr w') driver_name = Some (driver_checksum, loc) \<and>
       src_scanner w' = Some s \<and> scan_ctx s = scan_context_for loc \<and>
       get_tuple_descriptor t 123 = Some tuple \<and> slot_descs s = slots tuple)"
  by (rule data_source_open_steps[OF assms]) auto

definition demo_slots :: "slot_descriptor list" where
  "demo_slots = [fst (SlotDescriptor [] 1 (TypeDescriptor_of TYPE_INT) 123 ''SampleID'' 0 4 True)]"

definition demo_state :: runtime_state where
  "demo_state = RuntimeState\<lparr>desc_tbl := Some (DescriptorTbl\<lparr>tuple_desc_map :=
     [(123, (TupleDescriptor 123 None 4)\<lparr>slots := demo_slots, decoded_slots := demo_slots\<rparr>)]\<rparr>)\<rparr>"

theorem open_uses_cached_driver_witness:
  "\<exists>w'. data_source_open (demo_platform 0) demo_state demo_pipe = (Val OK, w') \<and>
     (\<exists>loc. cache_of (drivers_mgr w') driver_name = Some (driver_checksum, loc))"
proof -
  have "is_Val (fst (data_source_open (demo_platform 0) demo_state demo_pipe))" by code_simp
  then obtain st w' where r: "data_source_open (demo_platform 0) demo_state demo_pipe = (Val st, w')"
    by (auto simp: is_Val_iff) (metis prod.collapse)
  have "mgr_ok (drivers_mgr demo_pipe)" by (simp add: demo_pipe_def)
  moreover obtain t where "desc_tbl demo_state = Some t" by (simp add: demo_state_def RuntimeState_def)
  ultimately show ?thesis using open_uses_cached_driver[OF _ _ r] r by blast
qed

text \<open>The driver the program asks for has no underscore in its name, so the file it is stored in is
  one the next start cannot load and sweeps away: after a restart that succeeds the file is gone
  and the driver has to be downloaded again.\<close>

theorem program_driver_is_redownloaded:
  assumes "is_int64 ts" "entry_map m = (\<lambda>_. None)" "init_manager falls env dir m = (Val st, m')"
  shows "parse_from_file_name (driver_file driver_name driver_checksum ts) = Val None \<and>
    \<not> fs_exists (files m') (dir @ CHR ''/'' # driver_file driver_name driver_checksum ts) \<and>
    cache_of m' driver_name = None"
proof -
  have "CHR ''_'' \<notin> set driver_checksum" "CHR ''_'' \<notin> set driver_name"
    by (simp_all add: driver_checksum_def driver_name_def)
  with parse_driver_file[OF _ assms(1), of driver_checksum driver_name]
  have p: "parse_from_file_name (driver_file driver_name driver_checksum ts) = Val None" by simp
  have "CHR ''/'' \<notin> set (driver_file driver_name driver_checksum ts)"
    using to_string_chars(2) by (auto simp: driver_file_def driver_name_def driver_checksum_def)
  moreover have "ends_with (driver_file driver_name driver_checksum ts) ''.jar''"
    using ends_with_append[of "driver_name @ CHR ''_'' # driver_checksum @ CHR ''_'' # to_string ts" "''.jar''"]
    by (simp add: driver_file_def)
  moreover have "driver_file driver_name driver_checksum ts \<noteq> []" by (simp add: driver_file_def)
  ultimately show ?thesis
    using p restart_effect[OF assms(2,3)] by (simp add: cache_of_def current_def)
qed

theorem program_driver_is_redownloaded_witness:
  "\<exists>m'. init_manager True roomy_os ''/l'' (JDBCDriverManager old_disk) = (Val OK, m') \<and>
     cache_of m' driver_name = None"
proof -
  have "is_Val (fst (init_manager True roomy_os ''/l'' (JDBCDriverManager old_disk)))" by code_simp
  then obtain st m' where r: "init_manager True roomy_os ''/l'' (JDBCDriverManager old_disk) = (Val st, m')"
    by (auto simp: is_Val_iff) (metis prod.collapse)
  have "st = OK" using init_manager_Val[OF r] by blast
  moreover have "is_int64 0" by (simp add: is_int64_def INT64_MIN_def INT64_MAX_def)
  moreover have "entry_map (JDBCDriverManager old_disk) = (\<lambda>_. None)" by (simp add: JDBCDriverManager_def)
  ultimately show ?thesis using program_driver_is_redownloaded[OF _ _ r, of 0] r by blast
qed

end
