(* ===== verification/Java_Scanner.thy ===== *)
theory Java_Scanner
  imports Prelude "HOL-Library.Word"
begin

text \<open>
  The Java half of the scanner, under fe/src/main/java/com/starrocks/jdbcbridge: JDBCScanner,
  JDBCBridge, JDBCScanContext and DataSourceCache. The JDBC driver, the Hikari pool and the class
  loader are parameters. Methods are programs over a state that may throw. Column arrays are
  objects that live on in the list the scanner hands out, so they are in a store of arrays and
  the list holds their addresses.
\<close>

section \<open>Programs that may throw\<close>

datatype jexn =
    SQL_Exception string
  | Class_Cast_Exception
  | Array_Store_Exception
  | Array_Index_Out_Of_Bounds
  | Index_Out_Of_Bounds
  | Negative_Array_Size
  | Null_Pointer_Exception
  | Class_Not_Found string
  | Pool_Exception string

type_synonym ('s, 'a) java = "'s \<Rightarrow> (jexn + 'a) \<times> 's"

definition jret :: "'a \<Rightarrow> ('s, 'a) java" where "jret a s = (Inr a, s)"
definition jthrow :: "jexn \<Rightarrow> ('s, 'a) java" where "jthrow e s = (Inl e, s)"
definition jget :: "('s \<Rightarrow> 'a) \<Rightarrow> ('s, 'a) java" where "jget f s = (Inr (f s), s)"
definition jput :: "('s \<Rightarrow> 's) \<Rightarrow> ('s, unit) java" where "jput f s = (Inr (), f s)"

definition jbind :: "('s, 'a) java \<Rightarrow> ('a \<Rightarrow> ('s, 'b) java) \<Rightarrow> ('s, 'b) java" where
  "jbind m f s = (case m s of (Inl e, s') \<Rightarrow> (Inl e, s') | (Inr a, s') \<Rightarrow> f a s')"

text \<open>A field that must not be null.\<close>

definition jnonnull :: "'a option \<Rightarrow> ('s, 'a) java" where
  "jnonnull x = (case x of None \<Rightarrow> jthrow Null_Pointer_Exception | Some a \<Rightarrow> jret a)"

named_theorems java_simps \<open>rules that execute Java programs\<close>

lemma java_run [java_simps]:
  "jret a s = (Inr a, s)" "jthrow e s = (Inl e, s)" "jget f s = (Inr (f s), s)" "jput g s = (Inr (), g s)"
  by (simp_all add: jret_def jthrow_def jget_def jput_def)

lemma jbind_Inr [java_simps]: "m s = (Inr a, s') \<Longrightarrow> jbind m f s = f a s'"
  by (simp add: jbind_def)

lemma jbind_Inl [java_simps]: "m s = (Inl e, s') \<Longrightarrow> jbind m f s = (Inl e, s')"
  by (simp add: jbind_def)

lemma jnonnull_run [java_simps]:
  "jnonnull None = jthrow Null_Pointer_Exception" "jnonnull (Some a) = jret a"
  by (simp_all add: jnonnull_def)

lemma jbind_eq_Inr:
  "jbind m f s = (Inr b, t) \<longleftrightarrow> (\<exists>a s'. m s = (Inr a, s') \<and> f a s' = (Inr b, t))"
  by (auto simp: jbind_def split: prod.splits sum.splits)

section \<open>Values\<close>

text \<open>
  The subclasses of \<open>java.lang.Number\<close> a driver returns, and every other object as its class and
  what it is. A \<open>BigDecimal\<close> is its unscaled value and scale. Floating-point arithmetic is a
  parameter.
\<close>

datatype 'r jnum =
    J_Byte "8 word" | J_Short "16 word" | J_Integer "32 word" | J_Long "64 word"
  | J_Float 'r | J_Double 'r | J_BigInteger int | J_BigDecimal int int

datatype 'r jval = Num "'r jnum" | Obj string string

record 'r floating =
  float_value :: "'r jnum \<Rightarrow> 'r"
  double_value :: "'r jnum \<Rightarrow> 'r"
  to_int :: "'r \<Rightarrow> 32 word"       \<comment> \<open>the narrowing casts to \<open>int\<close> and \<open>long\<close>\<close>
  to_long :: "'r \<Rightarrow> 64 word"

text \<open>\<open>toBigInteger\<close> drops the fraction.\<close>

definition to_big_integer :: "int \<Rightarrow> int \<Rightarrow> int" where
  "to_big_integer u s = (if s \<le> 0 then u * 10 ^ nat (- s) else sgn u * (\<bar>u\<bar> div 10 ^ nat s))"

fun int_value :: "'r floating \<Rightarrow> 'r jnum \<Rightarrow> 32 word" where
  "int_value fp (J_Byte w) = scast w"
| "int_value fp (J_Short w) = scast w"
| "int_value fp (J_Integer w) = w"
| "int_value fp (J_Long w) = ucast w"
| "int_value fp (J_Float r) = to_int fp r"
| "int_value fp (J_Double r) = to_int fp r"
| "int_value fp (J_BigInteger i) = word_of_int i"
| "int_value fp (J_BigDecimal u s) = word_of_int (to_big_integer u s)"

fun long_value :: "'r floating \<Rightarrow> 'r jnum \<Rightarrow> 64 word" where
  "long_value fp (J_Byte w) = scast w"
| "long_value fp (J_Short w) = scast w"
| "long_value fp (J_Integer w) = scast w"
| "long_value fp (J_Long w) = w"
| "long_value fp (J_Float r) = to_long fp r"
| "long_value fp (J_Double r) = to_long fp r"
| "long_value fp (J_BigInteger i) = word_of_int i"
| "long_value fp (J_BigDecimal u s) = word_of_int (to_big_integer u s)"

definition short_value :: "'r floating \<Rightarrow> 'r jnum \<Rightarrow> 16 word" where
  "short_value fp n = ucast (int_value fp n)"

text \<open>The conversion of a value to the class of its column, lines 112 to 126.\<close>

definition convert :: "'r floating \<Rightarrow> string \<Rightarrow> 'r jval option \<Rightarrow> jexn + 'r jval option" where
  "convert fp clazz v =
     (case v of
        None \<Rightarrow> Inr None
      | Some x \<Rightarrow>
          let number = (\<lambda>f. case x of Num n \<Rightarrow> Inr (Some (Num (f n))) | Obj _ _ \<Rightarrow> Inl Class_Cast_Exception)
          in if clazz = ''java.lang.Short'' then number (\<lambda>n. J_Short (short_value fp n))
             else if clazz = ''java.lang.Integer'' then number (\<lambda>n. J_Integer (int_value fp n))
             else if clazz = ''java.lang.Long'' then number (\<lambda>n. J_Long (long_value fp n))
             else if clazz = ''java.lang.Float'' then number (\<lambda>n. J_Float (float_value fp n))
             else if clazz = ''java.lang.Double'' then number (\<lambda>n. J_Double (double_value fp n))
             else Inr v)"

text \<open>
  Whether an array of a class takes a value: the instances of the class, a parameter for what is
  not converted, and null.
\<close>

definition storable :: "('r jval \<Rightarrow> string \<Rightarrow> bool) \<Rightarrow> string \<Rightarrow> 'r jval option \<Rightarrow> bool" where
  "storable inst clazz v =
     (case v of
        None \<Rightarrow> True
      | Some x \<Rightarrow> clazz \<in> {''java.lang.Short'', ''java.lang.Integer'', ''java.lang.Long'',
                           ''java.lang.Float'', ''java.lang.Double''} \<or> inst x clazz)"

section \<open>Contexts, sources and the driver\<close>

record scan_ctx_java =
  driverClassName :: "string option"
  jdbcURL :: "string option"
  user :: "string option"
  password :: "string option"
  sql :: "string option"
  statementFetchSize :: int
  connectionPoolSize :: int
  minimumIdleConnections :: int
  connectionIdleTimeoutMs :: int

text \<open>The constructor without arguments, and the setters.\<close>

definition JDBCScanContext_new :: scan_ctx_java where
  "JDBCScanContext_new =
     \<lparr>driverClassName = None, jdbcURL = None, user = None, password = None, sql = None, statementFetchSize = 0,
      connectionPoolSize = 0, minimumIdleConnections = 0, connectionIdleTimeoutMs = 0\<rparr>"

definition setDriverClassName :: "string option \<Rightarrow> scan_ctx_java \<Rightarrow> scan_ctx_java" where
  "setDriverClassName x c = c\<lparr>driverClassName := x\<rparr>"
definition setJdbcURL :: "string option \<Rightarrow> scan_ctx_java \<Rightarrow> scan_ctx_java" where
  "setJdbcURL x c = c\<lparr>jdbcURL := x\<rparr>"
definition setUser :: "string option \<Rightarrow> scan_ctx_java \<Rightarrow> scan_ctx_java" where
  "setUser x c = c\<lparr>user := x\<rparr>"
definition setPassword :: "string option \<Rightarrow> scan_ctx_java \<Rightarrow> scan_ctx_java" where
  "setPassword x c = c\<lparr>password := x\<rparr>"
definition setSql :: "string option \<Rightarrow> scan_ctx_java \<Rightarrow> scan_ctx_java" where
  "setSql x c = c\<lparr>sql := x\<rparr>"
definition setStatementFetchSize :: "int \<Rightarrow> scan_ctx_java \<Rightarrow> scan_ctx_java" where
  "setStatementFetchSize x c = c\<lparr>statementFetchSize := x\<rparr>"

record hikari_config =
  h_driver_class :: "string option"
  h_url :: "string option"
  h_user :: "string option"
  h_password :: "string option"
  h_pool_size :: int
  h_idle_timeout :: int

text \<open>
  The driver and the pool behind it. A data source is its configuration, which the pool seals;
  connections, statements and result sets are numbers. \<open>known_class\<close> and \<open>instance_of\<close> are the
  class loader's.
\<close>

record ('w, 'r) jdbc =
  new_source :: "hikari_config \<Rightarrow> ('w, unit) java"
  get_connection :: "hikari_config \<Rightarrow> ('w, nat) java"
  create_statement :: "nat \<Rightarrow> ('w, nat) java"
  set_fetch_size :: "nat \<Rightarrow> int \<Rightarrow> ('w, unit) java"
  execute_sql :: "nat \<Rightarrow> string option \<Rightarrow> ('w, unit) java"
  get_result_set :: "nat \<Rightarrow> ('w, nat option) java"
  column_classes :: "nat \<Rightarrow> ('w, string list) java"
  rs_next :: "nat \<Rightarrow> ('w, bool) java"
  get_object :: "nat \<Rightarrow> nat \<Rightarrow> ('w, 'r jval option) java"
  close_handle :: "nat \<Rightarrow> ('w, unit) java"
  known_class :: "string \<Rightarrow> bool"
  instance_of :: "'r jval \<Rightarrow> string \<Rightarrow> bool"
  fp_arith :: "'r floating"

section \<open>The scanner\<close>

record jscanner =
  driverLocation :: "string option"
  scanContext :: "scan_ctx_java option"
  dataSource :: "hikari_config option"
  connection :: "nat option"
  statement :: "nat option"
  resultSet :: "nat option"
  resultSetMetaData :: "string list option"
  resultColumnClassNames :: "string list option"
  resultChunk :: "nat list option"             \<comment> \<open>the addresses of the column arrays\<close>
  resultNumRows :: int

text \<open>The driver's world, the source cache, the arrays with their classes, and the object.\<close>

record ('w, 'r) jmach =
  db :: 'w
  sources :: "string \<Rightarrow> hikari_config option"
  arrays :: "(string \<times> 'r jval option list) list"
  me :: jscanner

definition JDBCScanner_new :: "string option \<Rightarrow> scan_ctx_java option \<Rightarrow> jscanner" where
  "JDBCScanner_new loc ctx =
     \<lparr>driverLocation = loc, scanContext = ctx, dataSource = None, connection = None, statement = None,
      resultSet = None, resultSetMetaData = None, resultColumnClassNames = None, resultChunk = None,
      resultNumRows = 0\<rparr>"

text \<open>
  The bridge: whether the location makes a URL, and what loads classes from it, are the library's;
  the scanner it builds gets the location set last.
\<close>

definition setClassLoader :: "(string \<Rightarrow> jexn option) \<Rightarrow> string \<Rightarrow> (string option, unit) java" where
  "setClassLoader to_url location =
     (case to_url location of Some e \<Rightarrow> jthrow e | None \<Rightarrow> jput (\<lambda>_. Some location))"

definition getScanner :: "scan_ctx_java option \<Rightarrow> (string option, jscanner) java" where
  "getScanner ctx = jget (\<lambda>location. JDBCScanner_new location ctx)"

definition on_db :: "('w, 'a) java \<Rightarrow> (('w, 'r) jmach, 'a) java" where
  "on_db p s = (case p (db s) of (r, w) \<Rightarrow> (r, s\<lparr>db := w\<rparr>))"

definition set_me :: "(jscanner \<Rightarrow> jscanner) \<Rightarrow> (('w, 'r) jmach, unit) java" where
  "set_me f = jput (\<lambda>s. s\<lparr>me := f (me s)\<rparr>)"

definition the_field :: "(jscanner \<Rightarrow> 'a option) \<Rightarrow> (('w, 'r) jmach, 'a) java" where
  "the_field f = jbind (jget (f \<circ> me)) jnonnull"

text \<open>The concatenation of a string that may be null.\<close>

definition show_ref :: "string option \<Rightarrow> string" where
  "show_ref s = (case s of None \<Rightarrow> ''null'' | Some x \<Rightarrow> x)"

definition source_key :: "scan_ctx_java \<Rightarrow> string" where
  "source_key ctx = show_ref (user ctx) @ ''/'' @ show_ref (jdbcURL ctx)"

definition config_for :: "scan_ctx_java \<Rightarrow> hikari_config" where
  "config_for ctx =
     \<lparr>h_driver_class = driverClassName ctx, h_url = jdbcURL ctx, h_user = user ctx, h_password = password ctx,
      h_pool_size = connectionPoolSize ctx, h_idle_timeout = connectionIdleTimeoutMs ctx\<rparr>"

text \<open>\<open>computeIfAbsent\<close>: a provider that throws leaves the map alone.\<close>

definition get_source ::
    "string \<Rightarrow> (('w, 'r) jmach, hikari_config) java \<Rightarrow> (('w, 'r) jmach, hikari_config) java" where
  "get_source key provider =
     jbind (jget (\<lambda>s. sources s key)) (\<lambda>found. case found of
       Some c \<Rightarrow> jret c
     | None \<Rightarrow> jbind provider (\<lambda>c. jbind (jput (\<lambda>s. s\<lparr>sources := (sources s)(key \<mapsto> c)\<rparr>)) (\<lambda>_. jret c)))"

definition source_provider :: "('w, 'r) jdbc \<Rightarrow> scan_ctx_java \<Rightarrow> (('w, 'r) jmach, hikari_config) java" where
  "source_provider drv ctx =
     jbind (on_db (new_source drv (config_for ctx))) (\<lambda>_.
     jbind (set_me (\<lambda>m. m\<lparr>dataSource := Some (config_for ctx)\<rparr>)) (\<lambda>_. jret (config_for ctx)))"

text \<open>The arrays of the columns, lines 75 to 79: each class is loaded before its array is made.\<close>

fun make_columns :: "('w, 'r) jdbc \<Rightarrow> int \<Rightarrow> string list \<Rightarrow> (('w, 'r) jmach, unit) java" where
  "make_columns drv n [] = jret ()"
| "make_columns drv n (clazz # rest) =
     jbind (the_field resultColumnClassNames) (\<lambda>names.
     jbind (set_me (\<lambda>m. m\<lparr>resultColumnClassNames := Some (names @ [clazz])\<rparr>)) (\<lambda>_.
     if \<not> known_class drv clazz then jthrow (Class_Not_Found clazz)
     else if n < 0 then jthrow Negative_Array_Size
     else
       jbind (jget (\<lambda>s. length (arrays s))) (\<lambda>a.
       jbind (jput (\<lambda>s. s\<lparr>arrays := arrays s @ [(clazz, replicate (nat n) None)]\<rparr>)) (\<lambda>_.
       jbind (the_field resultChunk) (\<lambda>chunk.
       jbind (set_me (\<lambda>m. m\<lparr>resultChunk := Some (chunk @ [a])\<rparr>)) (\<lambda>_.
         make_columns drv n rest))))))"

text \<open>The \<open>catch\<close> block logs and throws the exception again.\<close>

definition jopen :: "('w, 'r) jdbc \<Rightarrow> (('w, 'r) jmach, unit) java" where
  "jopen drv =
     jbind (the_field scanContext) (\<lambda>ctx.
     jbind (get_source (source_key ctx) (source_provider drv ctx)) (\<lambda>source.
     jbind (set_me (\<lambda>m. m\<lparr>dataSource := Some source\<rparr>)) (\<lambda>_.
     jbind (on_db (get_connection drv source)) (\<lambda>c.
     jbind (set_me (\<lambda>m. m\<lparr>connection := Some c\<rparr>)) (\<lambda>_.
     jbind (on_db (create_statement drv c)) (\<lambda>st.
     jbind (set_me (\<lambda>m. m\<lparr>statement := Some st\<rparr>)) (\<lambda>_.
     jbind (on_db (set_fetch_size drv st (statementFetchSize ctx))) (\<lambda>_.
     jbind (on_db (execute_sql drv st (sql ctx))) (\<lambda>_.
     jbind (on_db (get_result_set drv st)) (\<lambda>rs.
     jbind (set_me (\<lambda>m. m\<lparr>resultSet := rs\<rparr>)) (\<lambda>_.
     jbind (jnonnull rs) (\<lambda>r.
     jbind (on_db (column_classes drv r)) (\<lambda>classes.
     jbind (set_me (\<lambda>m. m\<lparr>resultSetMetaData := Some classes, resultColumnClassNames := Some [],
                          resultChunk := Some []\<rparr>)) (\<lambda>_.
       make_columns drv (statementFetchSize ctx) classes))))))))))))))"

definition hasNext :: "('w, 'r) jdbc \<Rightarrow> (('w, 'r) jmach, bool) java" where
  "hasNext drv = jbind (the_field resultSet) (\<lambda>r. on_db (rs_next drv r))"

text \<open>
  One store into a column array: the conversion comes first, then the check of the index, then
  that of the class.
\<close>

definition store_value :: "('w, 'r) jdbc \<Rightarrow> nat \<Rightarrow> int \<Rightarrow> 'r jval option \<Rightarrow> (('w, 'r) jmach, unit) java" where
  "store_value drv a row v =
     jbind (jget (\<lambda>s. arrays s ! a)) (\<lambda>(clazz, xs).
       case convert (fp_arith drv) clazz v of
         Inl e \<Rightarrow> jthrow e
       | Inr x \<Rightarrow>
           if row < 0 \<or> int (length xs) \<le> row then jthrow Array_Index_Out_Of_Bounds
           else if \<not> storable (instance_of drv) clazz x then jthrow Array_Store_Exception
           else jput (\<lambda>s. s\<lparr>arrays := (arrays s)[a := (clazz, xs[nat row := x])]\<rparr>))"

text \<open>The columns of one row, from column \<open>i\<close> on; \<open>k\<close> of them are left.\<close>

fun store_row :: "('w, 'r) jdbc \<Rightarrow> nat \<Rightarrow> nat \<Rightarrow> (('w, 'r) jmach, unit) java" where
  "store_row drv i 0 = jret ()"
| "store_row drv i (Suc k) =
     jbind (the_field resultChunk) (\<lambda>chunk.
       if length chunk \<le> i then jthrow Index_Out_Of_Bounds
       else
         jbind (the_field resultSet) (\<lambda>r.
         jbind (on_db (get_object drv r (i + 1))) (\<lambda>v.
         jbind (jget (resultNumRows \<circ> me)) (\<lambda>row.
         jbind (store_value drv (chunk ! i) row v) (\<lambda>_. store_row drv (i + 1) k)))))"

text \<open>
  The \<open>do\<close> loop. It ends because every round counts a row and \<open>chunkSize\<close> bounds them; the rounds
  left are the first argument, and \<open>0\<close> of them is never reached from \<open>getNextChunk\<close>.
\<close>

fun chunk_loop :: "nat \<Rightarrow> ('w, 'r) jdbc \<Rightarrow> int \<Rightarrow> nat \<Rightarrow> (('w, 'r) jmach, unit) java" where
  "chunk_loop 0 drv chunkSize columnCount = jret ()"
| "chunk_loop (Suc k) drv chunkSize columnCount =
     jbind (store_row drv 0 columnCount) (\<lambda>_.
     jbind (set_me (\<lambda>m. m\<lparr>resultNumRows := resultNumRows m + 1\<rparr>)) (\<lambda>_.
     jbind (jget (resultNumRows \<circ> me)) (\<lambda>n.
       if n < chunkSize then
         jbind (the_field resultSet) (\<lambda>r.
         jbind (on_db (rs_next drv r)) (\<lambda>more.
           if more then chunk_loop k drv chunkSize columnCount else jret ()))
       else jret ())))"

definition getNextChunk :: "('w, 'r) jdbc \<Rightarrow> (('w, 'r) jmach, nat list option) java" where
  "getNextChunk drv =
     jbind (the_field scanContext) (\<lambda>ctx.
     jbind (the_field resultSetMetaData) (\<lambda>classes.
     jbind (set_me (\<lambda>m. m\<lparr>resultNumRows := 0\<rparr>)) (\<lambda>_.
     jbind (chunk_loop (max 1 (nat (statementFetchSize ctx))) drv (statementFetchSize ctx) (length classes)) (\<lambda>_.
       jget (resultChunk \<circ> me)))))"

definition getResultNumRows :: "(('w, 'r) jmach, int) java" where
  "getResultNumRows = jget (resultNumRows \<circ> me)"

definition getResultColumnClassNames :: "(('w, 'r) jmach, string list option) java" where
  "getResultColumnClassNames = jget (resultColumnClassNames \<circ> me)"

definition close_if :: "('w, 'r) jdbc \<Rightarrow> (jscanner \<Rightarrow> nat option) \<Rightarrow> (('w, 'r) jmach, unit) java" where
  "close_if drv field =
     jbind (jget (field \<circ> me)) (\<lambda>h. case h of None \<Rightarrow> jret () | Some x \<Rightarrow> on_db (close_handle drv x))"

definition jclose :: "('w, 'r) jdbc \<Rightarrow> (('w, 'r) jmach, unit) java" where
  "jclose drv = jbind (close_if drv resultSet) (\<lambda>_. jbind (close_if drv statement) (\<lambda>_. close_if drv connection))"

section \<open>Result sets and open scanners\<close>

text \<open>
  What the driver documents of a result set: \<open>next\<close> goes from row to row and answers false after
  the last one, reading a column does not move it.
\<close>

definition on_row :: "('w, 'r) jdbc \<Rightarrow> nat \<Rightarrow> 'r jval option list \<Rightarrow> 'w \<Rightarrow> bool" where
  "on_row drv r row w \<longleftrightarrow> (\<forall>i < length row. get_object drv r (i + 1) w = (Inr (row ! i), w))"

fun rs_delivers :: "('w, 'r) jdbc \<Rightarrow> nat \<Rightarrow> 'r jval option list list \<Rightarrow> 'w \<Rightarrow> bool" where
  "rs_delivers drv r [] w \<longleftrightarrow> rs_next drv r w = (Inr False, w)"
| "rs_delivers drv r (row # rows) w \<longleftrightarrow>
     (\<exists>w'. rs_next drv r w = (Inr True, w') \<and> on_row drv r row w' \<and> rs_delivers drv r rows w')"

text \<open>A row that fits the columns, and what is stored of it.\<close>

definition fits :: "('w, 'r) jdbc \<Rightarrow> string list \<Rightarrow> 'r jval option list \<Rightarrow> bool" where
  "fits drv classes row \<longleftrightarrow> length row = length classes \<and>
     (\<forall>i < length classes. \<exists>x. convert (fp_arith drv) (classes ! i) (row ! i) = Inr x \<and>
        storable (instance_of drv) (classes ! i) x)"

definition stored_row :: "('w, 'r) jdbc \<Rightarrow> string list \<Rightarrow> 'r jval option list \<Rightarrow> 'r jval option list" where
  "stored_row drv classes row = map2 (\<lambda>c v. projr (convert (fp_arith drv) c v)) classes row"

text \<open>
  An open scanner: its result set \<open>r\<close>, its columns with their arrays, which are distinct objects
  of the class of their column and as long as the fetch size.
\<close>

definition scanning ::
    "int \<Rightarrow> nat \<Rightarrow> string list \<Rightarrow> nat list \<Rightarrow> ('w, 'r) jmach \<Rightarrow> bool" where
  "scanning F r classes as s \<longleftrightarrow>
     map_option statementFetchSize (scanContext (me s)) = Some F \<and> resultSet (me s) = Some r \<and>
     resultSetMetaData (me s) = Some classes \<and> resultChunk (me s) = Some as \<and>
     length as = length classes \<and> distinct as \<and>
     (\<forall>i < length as. as ! i < length (arrays s) \<and> fst (arrays s ! (as ! i)) = classes ! i \<and>
        length (snd (arrays s ! (as ! i))) = nat F)"

text \<open>The first \<open>k\<close> rows as a reader of a chunk sees them in the arrays.\<close>

definition rows_in :: "nat list \<Rightarrow> nat \<Rightarrow> ('w, 'r) jmach \<Rightarrow> 'r jval option list list" where
  "rows_in as k s = map (\<lambda>j. map (\<lambda>a. snd (arrays s ! a) ! j) as) [0..<k]"

definition put_cell :: "nat \<Rightarrow> nat \<Rightarrow> 'x \<Rightarrow> (string \<times> 'x list) list \<Rightarrow> (string \<times> 'x list) list" where
  "put_cell a k x A = A[a := (fst (A ! a), (snd (A ! a))[k := x])]"

lemma put_cell_shape [simp]:
  "length (put_cell a k x A) = length A"
  "fst (put_cell a k x A ! b) = fst (A ! b)"
  "length (snd (put_cell a k x A ! b)) = length (snd (A ! b))"
proof -
  have "fst (put_cell a k x A ! b) = fst (A ! b) \<and> length (snd (put_cell a k x A ! b)) = length (snd (A ! b))"
    by (cases "a < length A"; cases "a = b") (simp_all add: put_cell_def list_update_beyond)
  then show "length (put_cell a k x A) = length A" "fst (put_cell a k x A ! b) = fst (A ! b)"
    "length (snd (put_cell a k x A ! b)) = length (snd (A ! b))"
    by (simp_all add: put_cell_def)
qed

lemma scanning_put_cell [simp]:
  "scanning F r classes as (s\<lparr>arrays := put_cell a k x (arrays s)\<rparr>) = scanning F r classes as s"
  by (simp add: scanning_def)

lemma scanning_put_other [simp]:
  "scanning F r classes as (s\<lparr>db := w\<rparr>) = scanning F r classes as s"
  "scanning F r classes as (s\<lparr>me := (me s)\<lparr>resultNumRows := n\<rparr>\<rparr>) = scanning F r classes as s"
  by (simp_all add: scanning_def)

lemma java_fields [java_simps]:
  "the_field f s = (case f (me s) of None \<Rightarrow> Inl Null_Pointer_Exception | Some a \<Rightarrow> Inr a, s)"
  "set_me g s = (Inr (), s\<lparr>me := g (me s)\<rparr>)"
  by (auto simp: the_field_def set_me_def jbind_def jget_def jput_def jnonnull_def jret_def jthrow_def split: option.splits)

lemma on_db_run [java_simps]: "p (db s) = (x, w) \<Longrightarrow> on_db p s = (x, s\<lparr>db := w\<rparr>)"
  by (simp add: on_db_def)

section \<open>Storing a row\<close>

lemma store_value_fits:
  assumes "scanning F r classes as s" "i < length as" "k < nat F"
    and "convert (fp_arith drv) (classes ! i) v = Inr x" "storable (instance_of drv) (classes ! i) x"
  shows "store_value drv (as ! i) (int k) v s = (Inr (), s\<lparr>arrays := put_cell (as ! i) k x (arrays s)\<rparr>)"
proof -
  obtain xs where xs: "arrays s ! (as ! i) = (classes ! i, xs)" "length xs = nat F"
    using assms(1,2) by (cases "arrays s ! (as ! i)") (auto simp: scanning_def)
  with assms(3-5) show ?thesis
    by (simp add: store_value_def jbind_def java_simps put_cell_def)
qed

text \<open>Writing the cells of one row, from column \<open>i\<close> on.\<close>

fun put_cells :: "nat list \<Rightarrow> nat \<Rightarrow> 'x list \<Rightarrow> (string \<times> 'x list) list \<Rightarrow> (string \<times> 'x list) list" where
  "put_cells (a # as) k (x # xs) A = put_cells as k xs (put_cell a k x A)"
| "put_cells _ k _ A = A"

lemma put_cells_shape [simp]:
  "length (put_cells as k xs A) = length A"
  "fst (put_cells as k xs A ! b) = fst (A ! b)"
  "length (snd (put_cells as k xs A ! b)) = length (snd (A ! b))"
  by (induction as k xs A rule: put_cells.induct) simp_all

lemma scanning_put_cells [simp]:
  "scanning F r classes as (s\<lparr>arrays := put_cells bs k xs (arrays s)\<rparr>) = scanning F r classes as s"
  by (simp add: scanning_def)

lemma put_cells_other: "b \<notin> set as \<Longrightarrow> put_cells as k xs A ! b = A ! b"
  by (induction as k xs A rule: put_cells.induct) (simp_all add: put_cell_def)

lemma put_cells_nth:
  "distinct as \<Longrightarrow> length as = length xs \<Longrightarrow> i < length as \<Longrightarrow> as ! i < length A \<Longrightarrow>
   snd (put_cells as k xs A ! (as ! i)) = (snd (A ! (as ! i)))[k := xs ! i]"
proof (induction as k xs A arbitrary: i rule: put_cells.induct)
  case (1 a as k x xs A)
  show ?case
  proof (cases i)
    case 0
    with 1 show ?thesis by (simp add: put_cells_other) (simp add: put_cell_def)
  next
    case (Suc j)
    with 1 have "as ! j \<noteq> a" by auto
    with 1 Suc show ?thesis by (simp add: put_cell_def)
  qed
qed simp_all

lemma store_row_run:
  assumes "scanning F r classes as s" "resultNumRows (me s) = int k" "k < nat F"
    and "fits drv classes row" "on_row drv r row (db s)" "i + m = length as"
  shows "store_row drv i m s =
    (Inr (), s\<lparr>arrays := put_cells (drop i as) k (drop i (stored_row drv classes row)) (arrays s)\<rparr>)"
  using assms
proof (induction m arbitrary: i s)
  case (Suc m)
  have i: "i < length as" "length as = length classes" "length row = length classes"
    using Suc.prems by (auto simp: scanning_def fits_def)
  with Suc.prems(4) obtain x where x: "convert (fp_arith drv) (classes ! i) (row ! i) = Inr x"
    "storable (instance_of drv) (classes ! i) x" by (auto simp: fits_def)
  have obj: "get_object drv r (i + 1) (db s) = (Inr (row ! i), db s)"
    using Suc.prems(5) i by (simp add: on_row_def)
  let ?s = "s\<lparr>arrays := put_cell (as ! i) k x (arrays s)\<rparr>"
  have "drop i as = as ! i # drop (i + 1) as"
    "drop i (stored_row drv classes row) = x # drop (i + 1) (stored_row drv classes row)"
    using i x by (simp_all add: Cons_nth_drop_Suc[symmetric] stored_row_def)
  moreover have "store_row drv (i + 1) m ?s =
    (Inr (), ?s\<lparr>arrays := put_cells (drop (i + 1) as) k (drop (i + 1) (stored_row drv classes row)) (arrays ?s)\<rparr>)"
    using Suc.prems by (intro Suc.IH) simp_all
  moreover have "resultChunk (me s) = Some as" "resultSet (me s) = Some r"
    using Suc.prems(1) by (simp_all add: scanning_def)
  ultimately show ?case
    using i Suc.prems(2) store_value_fits[OF Suc.prems(1) i(1) Suc.prems(3) x]
    by (simp add: jbind_def java_simps on_db_def obj[simplified])
qed (simp add: java_simps)

lemma rows_in_stored:
  assumes "scanning F r classes as s" "k < nat F" "fits drv classes row"
  shows "rows_in as (Suc k) (s\<lparr>arrays := put_cells as k (stored_row drv classes row) (arrays s)\<rparr>) =
    rows_in as k s @ [stored_row drv classes row]"
proof -
  let ?A = "put_cells as k (stored_row drv classes row) (arrays s)"
  have n: "length as = length (stored_row drv classes row)" "distinct as"
    using assms by (simp_all add: scanning_def fits_def stored_row_def)
  have cell: "snd (?A ! (as ! i)) = (snd (arrays s ! (as ! i)))[k := stored_row drv classes row ! i]"
    "length (snd (arrays s ! (as ! i))) = nat F"
    if "i < length as" for i
    using that n assms(1) by (simp_all add: put_cells_nth scanning_def)
  have "map (\<lambda>a. snd (?A ! a) ! k) as = stored_row drv classes row"
    using n cell assms(2) by (intro nth_equalityI) simp_all
  moreover have "map (\<lambda>a. snd (?A ! a) ! j) as = map (\<lambda>a. snd (arrays s ! a) ! j) as" if "j < k" for j
    using cell that by (intro nth_equalityI) simp_all
  ultimately show ?thesis by (simp add: rows_in_def)
qed

section \<open>Reading a chunk\<close>

lemma scanning_fields:
  "scanning F r classes as s \<Longrightarrow> resultSet (me s) = Some r \<and> resultChunk (me s) = Some as \<and>
     resultSetMetaData (me s) = Some classes \<and> length as = length classes"
  by (simp add: scanning_def)

text \<open>One round of the loop: the row the cursor is on has become the next row of the chunk.\<close>

lemma round_run:
  assumes "scanning F r classes as s" "resultNumRows (me s) = int k" "k < nat F"
    and "fits drv classes row" "on_row drv r row (db s)"
  obtains s' where
    "chunk_loop (Suc m) drv F (length classes) s =
      (if int (Suc k) < F then
         jbind (on_db (rs_next drv r)) (\<lambda>more. if more then chunk_loop m drv F (length classes) else jret ()) s'
       else (Inr (), s'))"
    "scanning F r classes as s'" "resultNumRows (me s') = int (Suc k)" "db s' = db s"
    "rows_in as (Suc k) s' = rows_in as k s @ [stored_row drv classes row]"
proof -
  let ?s1 = "s\<lparr>arrays := put_cells as k (stored_row drv classes row) (arrays s)\<rparr>"
  let ?s2 = "?s1\<lparr>me := (me ?s1)\<lparr>resultNumRows := int (Suc k)\<rparr>\<rparr>"
  have n: "0 + length classes = length as" using assms(1) by (simp add: scanning_def)
  from store_row_run[OF assms n] assms(2)
  have "chunk_loop (Suc m) drv F (length classes) s =
      (if int (Suc k) < F then
         jbind (on_db (rs_next drv r)) (\<lambda>more. if more then chunk_loop m drv F (length classes) else jret ()) ?s2
       else (Inr (), ?s2))"
    using scanning_fields[OF assms(1)] by (simp add: jbind_def java_simps add.commute)
  moreover have "scanning F r classes as ?s2" using assms(1) by (simp add: scanning_def)
  moreover have "rows_in as (Suc k) ?s2 = rows_in as k s @ [stored_row drv classes row]"
    using rows_in_stored[OF assms(1,3,4)] by (simp add: rows_in_def)
  ultimately show thesis by (intro that) simp_all
qed

lemma chunk_loop_run:
  assumes "scanning F r classes as s" "resultNumRows (me s) = int k" "k < nat F" "nat F - k \<le> m"
    and "\<forall>x \<in> set (row # rows). fits drv classes x"
    and "on_row drv r row (db s)" "rs_delivers drv r rows (db s)"
  shows "\<exists>s' t. chunk_loop m drv F (length classes) s = (Inr (), s') \<and>
    t = min (nat F - k) (Suc (length rows)) \<and> scanning F r classes as s' \<and>
    resultNumRows (me s') = int (k + t) \<and>
    rows_in as (k + t) s' = rows_in as k s @ map (stored_row drv classes) (take t (row # rows)) \<and>
    rs_delivers drv r (drop t (row # rows)) (db s')"
  using assms
proof (induction m arbitrary: k s row rows)
  case (Suc m)
  from Suc.prems(5) have fit: "fits drv classes row" by simp
  obtain s1 where s1: "chunk_loop (Suc m) drv F (length classes) s =
      (if int (Suc k) < F then
         jbind (on_db (rs_next drv r)) (\<lambda>more. if more then chunk_loop m drv F (length classes) else jret ()) s1
       else (Inr (), s1))"
    "scanning F r classes as s1" "resultNumRows (me s1) = int (Suc k)" "db s1 = db s"
    "rows_in as (Suc k) s1 = rows_in as k s @ [stored_row drv classes row]"
    by (rule round_run[OF Suc.prems(1-3) fit Suc.prems(6), where m = m])
  show ?case
  proof (cases "int (Suc k) < F")
    case False
    with Suc.prems(3) have "nat F - k = 1" by linarith
    with False s1 Suc.prems(7) show ?thesis by (intro exI[of _ s1] exI[of _ 1]) simp
  next
    case more: True
    show ?thesis
    proof (cases rows)
      case Nil
      with Suc.prems(7) s1(4) have "rs_next drv r (db s1) = (Inr False, db s1)" by simp
      with more s1(1) have "chunk_loop (Suc m) drv F (length classes) s = (Inr (), s1\<lparr>db := db s1\<rparr>)"
        by (simp add: jbind_def on_db_def jret_def)
      with more s1 Nil Suc.prems(3,7) show ?thesis
        by (intro exI[of _ s1] exI[of _ 1]) simp
    next
      case (Cons row2 rows2)
      with Suc.prems(7) s1(4) obtain w where w: "rs_next drv r (db s1) = (Inr True, w)"
        "on_row drv r row2 w" "rs_delivers drv r rows2 w" by auto
      let ?s2 = "s1\<lparr>db := w\<rparr>"
      have "\<exists>s' t. chunk_loop m drv F (length classes) ?s2 = (Inr (), s') \<and>
        t = min (nat F - Suc k) (Suc (length rows2)) \<and> scanning F r classes as s' \<and>
        resultNumRows (me s') = int (Suc k + t) \<and>
        rows_in as (Suc k + t) s' = rows_in as (Suc k) ?s2 @ map (stored_row drv classes) (take t (row2 # rows2)) \<and>
        rs_delivers drv r (drop t (row2 # rows2)) (db s')"
        using s1(2,3) more Suc.prems(4,5) w Cons by (intro Suc.IH) auto
      then obtain s' t where s': "chunk_loop m drv F (length classes) ?s2 = (Inr (), s')"
        "t = min (nat F - Suc k) (Suc (length rows2))" "scanning F r classes as s'"
        "resultNumRows (me s') = int (Suc k + t)"
        "rows_in as (Suc k + t) s' = rows_in as (Suc k) ?s2 @ map (stored_row drv classes) (take t (row2 # rows2))"
        "rs_delivers drv r (drop t (row2 # rows2)) (db s')" by blast
      have "rows_in as (Suc k) ?s2 = rows_in as (Suc k) s1" by (simp add: rows_in_def)
      moreover have "chunk_loop (Suc m) drv F (length classes) s = (Inr (), s')"
        using more s1(1) s'(1) by (simp add: jbind_def on_db_def w(1))
      moreover have "Suc t = min (nat F - k) (Suc (length rows))"
        using s'(2) more Cons by (simp add: min_def) linarith
      moreover have "rows_in as (k + Suc t) s' =
          rows_in as k s @ map (stored_row drv classes) (take (Suc t) (row # rows))"
        using s'(5) s1(5) \<open>rows_in as (Suc k) ?s2 = rows_in as (Suc k) s1\<close> Cons by simp
      moreover have "resultNumRows (me s') = int (k + Suc t)" "rs_delivers drv r (drop (Suc t) (row # rows)) (db s')"
        using s'(4,6) Cons by simp_all
      ultimately show ?thesis using s'(3) by blast
    qed
  qed
qed simp

text \<open>
  \<open>getNextChunk\<close>, called on a row: the chunk holds this row and the following ones, as many as the
  fetch size allows, and the cursor stands before the rest.
\<close>

lemma getNextChunk_run:
  assumes "scanning F r classes as s" "0 < F" "\<forall>x \<in> set (row # rows). fits drv classes x"
    and "on_row drv r row (db s)" "rs_delivers drv r rows (db s)"
  obtains s' t where "getNextChunk drv s = (Inr (Some as), s')" "t = min (nat F) (Suc (length rows))"
    "scanning F r classes as s'" "resultNumRows (me s') = int t"
    "rows_in as t s' = map (stored_row drv classes) (take t (row # rows))"
    "rs_delivers drv r (drop t (row # rows)) (db s')"
proof -
  let ?s0 = "s\<lparr>me := (me s)\<lparr>resultNumRows := 0\<rparr>\<rparr>"
  obtain s' t where s': "chunk_loop (max 1 (nat F)) drv F (length classes) ?s0 = (Inr (), s')"
    "t = min (nat F) (Suc (length rows))" "scanning F r classes as s'" "resultNumRows (me s') = int t"
    "rows_in as t s' = map (stored_row drv classes) (take t (row # rows))"
    "rs_delivers drv r (drop t (row # rows)) (db s')"
    using chunk_loop_run[of F r classes as ?s0 0 "max 1 (nat F)" row rows drv] assms
    by (auto simp: rows_in_def)
  obtain ctx where ctx: "scanContext (me s) = Some ctx" "statementFetchSize ctx = F"
    using assms(1) by (auto simp: scanning_def)
  have "getNextChunk drv s = (Inr (Some as), s')"
    using s'(1,3) scanning_fields[OF assms(1)] ctx
    by (simp add: getNextChunk_def jbind_def java_simps) (simp add: scanning_def)
  with s' show thesis by (intro that)
qed

section \<open>Reading everything\<close>

text \<open>
  One batch by the protocol of the C++ side: ask, read a chunk, ask for its number of rows; and
  the whole result read that way by a consumer that copies each chunk before the next call.
\<close>

definition next_batch :: "('w, 'r) jdbc \<Rightarrow> (('w, 'r) jmach, (nat list option \<times> int) option) java" where
  "next_batch drv =
     jbind (hasNext drv) (\<lambda>more.
       if \<not> more then jret None
       else jbind (getNextChunk drv) (\<lambda>as. jbind getResultNumRows (\<lambda>k. jret (Some (as, k)))))"

fun read_all :: "nat \<Rightarrow> ('w, 'r) jdbc \<Rightarrow> (('w, 'r) jmach, 'r jval option list list list) java" where
  "read_all 0 drv = jret []"
| "read_all (Suc n) drv =
     jbind (next_batch drv) (\<lambda>b. case b of
       None \<Rightarrow> jret []
     | Some (None, k) \<Rightarrow> jthrow Null_Pointer_Exception
     | Some (Some as, k) \<Rightarrow>
         jbind (jget (rows_in as (nat k))) (\<lambda>c. jbind (read_all n drv) (\<lambda>cs. jret (c # cs))))"

lemma next_batch_end:
  assumes "scanning F r classes as s" "rs_delivers drv r [] (db s)"
  shows "next_batch drv s = (Inr None, s)"
  using assms scanning_fields[OF assms(1)] by (simp add: next_batch_def hasNext_def jbind_def java_simps on_db_def)

lemma next_batch_run:
  assumes "scanning F r classes as s" "0 < F" "\<forall>x \<in> set rows. fits drv classes x"
    and "rs_delivers drv r rows (db s)" "rows \<noteq> []"
  obtains s' t where "next_batch drv s = (Inr (Some (Some as, int t)), s')" "t = min (nat F) (length rows)"
    "scanning F r classes as s'" "rows_in as t s' = map (stored_row drv classes) (take t rows)"
    "rs_delivers drv r (drop t rows) (db s')"
proof -
  obtain row rest w where w: "rows = row # rest" "rs_next drv r (db s) = (Inr True, w)"
    "on_row drv r row w" "rs_delivers drv r rest w"
    using assms(4,5) by (cases rows) auto
  let ?s1 = "s\<lparr>db := w\<rparr>"
  have 1: "scanning F r classes as ?s1" using assms(1) by simp
  obtain s' t where s': "getNextChunk drv ?s1 = (Inr (Some as), s')" "t = min (nat F) (Suc (length rest))"
    "scanning F r classes as s'" "resultNumRows (me s') = int t"
    "rows_in as t s' = map (stored_row drv classes) (take t (row # rest))"
    "rs_delivers drv r (drop t (row # rest)) (db s')"
    by (rule getNextChunk_run[OF 1 assms(2), of row rest drv]) (use assms(3) w in auto)
  have "next_batch drv s = (Inr (Some (Some as, int t)), s')"
    using s'(1,4) w(2) scanning_fields[OF assms(1)]
    by (simp add: next_batch_def hasNext_def getResultNumRows_def jbind_def java_simps on_db_def)
  with s' w(1) show thesis by (intro that) simp_all
qed

lemma read_all_run:
  assumes "scanning F r classes as s" "0 < F" "\<forall>x \<in> set rows. fits drv classes x"
    and "rs_delivers drv r rows (db s)" "length rows < fuel"
  shows "\<exists>cs s'. read_all fuel drv s = (Inr cs, s') \<and> concat cs = map (stored_row drv classes) rows \<and>
    (\<forall>c \<in> set cs. c \<noteq> [] \<and> length c \<le> nat F) \<and> (\<forall>c \<in> set (butlast cs). length c = nat F)"
  using assms
proof (induction fuel arbitrary: s rows)
  case (Suc fuel)
  show ?case
  proof (cases "rows = []")
    case True
    with Suc.prems next_batch_end[of F r classes as s drv] show ?thesis
      by (simp add: jbind_def java_simps)
  next
    case False
    obtain s1 t where s1: "next_batch drv s = (Inr (Some (Some as, int t)), s1)" "t = min (nat F) (length rows)"
      "scanning F r classes as s1" "rows_in as t s1 = map (stored_row drv classes) (take t rows)"
      "rs_delivers drv r (drop t rows) (db s1)"
      by (rule next_batch_run[OF Suc.prems(1-4) False])
    have t: "0 < t" using s1(2) False Suc.prems(2) by simp
    have "\<forall>x \<in> set (drop t rows). fits drv classes x" using Suc.prems(3) by (meson in_set_dropD)
    moreover have "length (drop t rows) < fuel" using t Suc.prems(5) False by (cases rows) auto
    ultimately obtain cs s' where cs: "read_all fuel drv s1 = (Inr cs, s')"
      "concat cs = map (stored_row drv classes) (drop t rows)"
      "\<forall>c \<in> set cs. c \<noteq> [] \<and> length c \<le> nat F" "\<forall>c \<in> set (butlast cs). length c = nat F"
      using Suc.IH[OF s1(3) Suc.prems(2) _ s1(5)] by blast
    let ?c = "map (stored_row drv classes) (take t rows)"
    have "read_all (Suc fuel) drv s = (Inr (?c # cs), s')"
      using s1(1,4) cs(1) by (simp add: jbind_def java_simps)
    moreover have "concat (?c # cs) = map (stored_row drv classes) rows"
      using cs(2) by (metis append_take_drop_id concat.simps(2) map_append)
    moreover have "length ?c \<le> nat F" "?c \<noteq> []" using t s1(2) False by simp_all
    moreover have "cs \<noteq> [] \<longrightarrow> length ?c = nat F"
    proof
      assume "cs \<noteq> []"
      with cs(3) have "concat cs \<noteq> []" by (cases cs) auto
      with cs(2) have "t < length rows" by simp
      with s1(2) show "length ?c = nat F" by (simp add: min_def split: if_splits)
    qed
    ultimately show ?thesis using cs(3,4)
      by (intro exI[of _ "?c # cs"] exI[of _ s']) (auto split: if_splits)
  qed
qed simp

section \<open>Opening\<close>

lemma make_columns_run:
  assumes "resultColumnClassNames (me s) = Some names" "resultChunk (me s) = Some as"
    and "\<forall>c \<in> set todo. known_class drv c" "0 \<le> n"
  shows "make_columns drv n todo s =
    (Inr (), s\<lparr>arrays := arrays s @ map (\<lambda>c. (c, replicate (nat n) None)) todo,
       me := (me s)\<lparr>resultColumnClassNames := Some (names @ todo),
         resultChunk := Some (as @ [length (arrays s)..<length (arrays s) + length todo])\<rparr>\<rparr>)"
  using assms
proof (induction todo arbitrary: s names as)
  case (Cons c todo)
  let ?s = "s\<lparr>arrays := arrays s @ [(c, replicate (nat n) None)],
       me := (me s)\<lparr>resultColumnClassNames := Some (names @ [c]), resultChunk := Some (as @ [length (arrays s)])\<rparr>\<rparr>"
  have "make_columns drv n (c # todo) s = make_columns drv n todo ?s"
    using Cons.prems by (simp add: jbind_def java_simps)
  with Cons.IH[of ?s "names @ [c]" "as @ [length (arrays s)]"] Cons.prems show ?case
    by (simp add: upt_conv_Cons del: upt_Suc)
qed (simp add: java_simps)

lemma make_columns_known:
  "make_columns drv n todo s = (Inr (), s') \<Longrightarrow> (\<forall>c \<in> set todo. known_class drv c) \<and> (todo \<noteq> [] \<longrightarrow> 0 \<le> n)"
proof (induction todo arbitrary: s)
  case (Cons c todo)
  from Cons.prems have "known_class drv c \<and> 0 \<le> n \<and> (\<exists>s1. make_columns drv n todo s1 = (Inr (), s'))"
    by (auto simp: jbind_eq_Inr java_simps split: if_splits)
  with Cons.IH show ?case by auto
qed simp


text \<open>Runs that return, step by step.\<close>

lemma java_returns:
  "on_db p s = (Inr a, s') \<longleftrightarrow> (\<exists>w. p (db s) = (Inr a, w) \<and> s' = s\<lparr>db := w\<rparr>)"
  "the_field f s = (Inr b, s') \<longleftrightarrow> f (me s) = Some b \<and> s' = s"
  "set_me g s = (Inr (), s') \<longleftrightarrow> s' = s\<lparr>me := g (me s)\<rparr>"
  "jnonnull x s = (Inr c, s') \<longleftrightarrow> x = Some c \<and> s' = s"
  "jret d s = (Inr d', s') \<longleftrightarrow> d' = d \<and> s' = s"
  by (auto simp: on_db_def java_simps jnonnull_def jret_def jthrow_def split: prod.splits option.splits)

lemma get_source_returns:
  assumes "get_source (source_key ctx) (source_provider drv ctx) s = (Inr c, s')"
  shows "sources s' = (sources s)(source_key ctx \<mapsto> c) \<and> scanContext (me s') = scanContext (me s) \<and>
    (case sources s (source_key ctx) of Some d \<Rightarrow> c = d \<and> s' = s | None \<Rightarrow> c = config_for ctx)"
  using assms
  by (auto simp: get_source_def source_provider_def jbind_eq_Inr java_returns jget_def jput_def fun_upd_idem
      split: option.splits)

text \<open>An \<open>open\<close> that returns leaves a scanner ready to read, of the classes the driver reported.\<close>

lemma jopen_steps:
  assumes "jopen drv s = (Inr (), s')" "scanContext (me s) = Some ctx"
  obtains c s0 w h r classes s1 where
    "get_source (source_key ctx) (source_provider drv ctx) s = (Inr c, s0)"
    "get_connection drv c (db s0) = (Inr h, w)"
    "make_columns drv (statementFetchSize ctx) classes s1 = (Inr (), s')"
    "resultSet (me s1) = Some r" "resultSetMetaData (me s1) = Some classes"
    "resultColumnClassNames (me s1) = Some []" "resultChunk (me s1) = Some []"
    "scanContext (me s1) = Some ctx" "dataSource (me s1) = Some c" "sources s1 = sources s0"
    "connection (me s1) = Some h"
proof -
  from assms obtain c s0 where src: "get_source (source_key ctx) (source_provider drv ctx) s = (Inr c, s0)"
    and rest: "\<exists>h w st w1 w2 w3 r w4 classes w5.
       get_connection drv c (db s0) = (Inr h, w) \<and>
       create_statement drv h w = (Inr st, w1) \<and> set_fetch_size drv st (statementFetchSize ctx) w1 = (Inr (), w2) \<and>
       execute_sql drv st (sql ctx) w2 = (Inr (), w3) \<and> get_result_set drv st w3 = (Inr (Some r), w4) \<and>
       column_classes drv r w4 = (Inr classes, w5) \<and>
       make_columns drv (statementFetchSize ctx) classes
         (s0\<lparr>db := w5, me := (me s0)\<lparr>dataSource := Some c, connection := Some h, statement := Some st,
            resultSet := Some r, resultSetMetaData := Some classes, resultColumnClassNames := Some [],
            resultChunk := Some []\<rparr>\<rparr>) = (Inr (), s')"
    unfolding jopen_def by (auto simp: jbind_eq_Inr java_returns)
  have "scanContext (me s0) = Some ctx" using get_source_returns[OF src] assms(2) by simp
  with rest src show thesis by (elim exE conjE) (rule that, assumption+, simp_all)
qed

lemma jopen_scanning:
  assumes "jopen drv s = (Inr (), s')" "scanContext (me s) = Some ctx"
  shows "\<exists>r classes as. scanning (statementFetchSize ctx) r classes as s' \<and>
    resultColumnClassNames (me s') = Some classes \<and> (\<forall>c \<in> set classes. known_class drv c) \<and>
    (classes \<noteq> [] \<longrightarrow> 0 \<le> statementFetchSize ctx)"
proof -
  let ?F = "statementFetchSize ctx"
  obtain c s0 w h r classes s1 where
    m: "make_columns drv ?F classes s1 = (Inr (), s')" and
    me1: "resultSet (me s1) = Some r" "resultSetMetaData (me s1) = Some classes"
      "resultColumnClassNames (me s1) = Some []" "resultChunk (me s1) = Some []" and
    ctx: "scanContext (me s1) = Some ctx"
    by (rule jopen_steps[OF assms])
  from make_columns_known[OF m] have k: "\<forall>c \<in> set classes. known_class drv c" "classes \<noteq> [] \<longrightarrow> 0 \<le> ?F"
    by auto
  show ?thesis
  proof (cases "0 \<le> ?F")
    case True
    from make_columns_run[OF me1(3,4) k(1) True] m
    have "s' = s1\<lparr>arrays := arrays s1 @ map (\<lambda>c. (c, replicate (nat ?F) None)) classes,
       me := (me s1)\<lparr>resultColumnClassNames := Some classes,
         resultChunk := Some [length (arrays s1)..<length (arrays s1) + length classes]\<rparr>\<rparr>" by simp
    with me1 k ctx show ?thesis
      by (intro exI[of _ r] exI[of _ classes] exI[of _ "[length (arrays s1)..<length (arrays s1) + length classes]"])
         (simp add: scanning_def nth_append)
  next
    case False
    with k(2) m me1 ctx show ?thesis
      by (intro exI[of _ r] exI[of _ "[]"] exI[of _ "[]"]) (simp add: scanning_def java_simps)
  qed
qed

section \<open>The source cache\<close>

lemma make_columns_frame:
  assumes "make_columns drv n todo s = (Inr (), s')" "resultColumnClassNames (me s) = Some names"
    "resultChunk (me s) = Some as"
  shows "dataSource (me s') = dataSource (me s)" "connection (me s') = connection (me s)" "sources s' = sources s"
proof -
  from make_columns_known[OF assms(1)] have k: "\<forall>c \<in> set todo. known_class drv c" "todo \<noteq> [] \<longrightarrow> 0 \<le> n"
    by auto
  have "dataSource (me s') = dataSource (me s) \<and> connection (me s') = connection (me s) \<and> sources s' = sources s"
  proof (cases "todo = []")
    case False
    with make_columns_run[OF assms(2,3) k(1)] k(2) assms(1) show ?thesis by auto
  qed (use assms(1) in \<open>simp add: java_simps\<close>)
  then show "dataSource (me s') = dataSource (me s)" "connection (me s') = connection (me s)"
    "sources s' = sources s" by simp_all
qed

text \<open>No method takes a source out of the cache, whether it returns or throws.\<close>

definition keeps_sources :: "(('w, 'r) jmach, 'a) java \<Rightarrow> bool" where
  "keeps_sources p \<longleftrightarrow> (\<forall>s key c. sources s key = Some c \<longrightarrow> sources (snd (p s)) key = Some c)"

named_theorems keeps_sources_intros \<open>programs that keep the cached sources\<close>

lemma keeps_sources_bind [keeps_sources_intros]:
  "keeps_sources p \<Longrightarrow> (\<And>a. keeps_sources (f a)) \<Longrightarrow> keeps_sources (jbind p f)"
  unfolding keeps_sources_def jbind_def by (auto split: prod.splits sum.splits) (metis snd_conv)+

lemma keeps_sources_basic [keeps_sources_intros]:
  "keeps_sources (jret a)" "keeps_sources (jthrow e)" "keeps_sources (jget f)" "keeps_sources (on_db q)"
  "keeps_sources (the_field g)" "keeps_sources (set_me h)" "keeps_sources (jnonnull x)"
  by (auto simp: keeps_sources_def java_simps on_db_def jnonnull_def split: prod.splits option.splits)

lemma keeps_sources_cases [keeps_sources_intros]:
  "keeps_sources p \<Longrightarrow> keeps_sources q \<Longrightarrow> keeps_sources (if b then p else q)"
  by simp

lemma keeps_sources_arrays [keeps_sources_intros]:
  "(\<And>s. sources (f s) = sources s) \<Longrightarrow> keeps_sources (jput f)"
  by (simp add: keeps_sources_def java_simps)

lemma keeps_sources_columns [keeps_sources_intros]: "keeps_sources (make_columns drv n todo)"
  by (induction todo) (auto intro!: keeps_sources_intros)

lemma keeps_sources_get [keeps_sources_intros]:
  assumes "keeps_sources provider"
  shows "keeps_sources (get_source key provider)"
  unfolding keeps_sources_def
proof (intro allI impI)
  fix s :: "('a, 'b) jmach" and key' c
  assume c: "sources s key' = Some c"
  show "sources (snd (get_source key provider s)) key' = Some c"
  proof (cases "sources s key")
    case (Some d)
    with c show ?thesis by (simp add: get_source_def jbind_def java_simps)
  next
    case None
    then have "key' \<noteq> key" using c by auto
    moreover have "sources (snd (provider s)) key' = Some c" using assms c by (simp add: keeps_sources_def)
    ultimately show ?thesis
      using None by (auto simp: get_source_def jbind_def java_simps split: prod.splits sum.splits)
  qed
qed

lemma keeps_sources_open [keeps_sources_intros]: "keeps_sources (jopen drv)"
  unfolding jopen_def source_provider_def by (intro keeps_sources_intros)

text \<open>Scanners opened one after the other, each a new object; what becomes of each does not matter.\<close>

fun open_scans :: "('w, 'r) jdbc \<Rightarrow> (string option \<times> scan_ctx_java) list \<Rightarrow> ('w, 'r) jmach \<Rightarrow> ('w, 'r) jmach" where
  "open_scans drv [] s = s"
| "open_scans drv ((loc, ctx) # rest) s =
     open_scans drv rest (snd (jopen drv (s\<lparr>me := JDBCScanner_new loc (Some ctx)\<rparr>)))"

lemma open_scans_keep: "sources s key = Some c \<Longrightarrow> sources (open_scans drv l s) key = Some c"
proof (induction l arbitrary: s)
  case (Cons x l)
  have "sources (snd (jopen drv (s\<lparr>me := JDBCScanner_new (fst x) (Some (snd x))\<rparr>))) key = Some c"
    using keeps_sources_open[of drv] Cons.prems unfolding keeps_sources_def by fastforce
  with Cons.IH show ?case by (cases x) simp
qed simp

lemma jopen_source:
  assumes "jopen drv s = (Inr (), s')" "scanContext (me s) = Some ctx"
  shows "\<exists>c h w w'. dataSource (me s') = Some c \<and> sources s' (source_key ctx) = Some c \<and>
    get_connection drv c w = (Inr h, w') \<and> connection (me s') = Some h \<and>
    c = (case sources s (source_key ctx) of Some d \<Rightarrow> d | None \<Rightarrow> config_for ctx)"
proof -
  obtain c s0 w h classes s1 where st:
    "get_source (source_key ctx) (source_provider drv ctx) s = (Inr c, s0)"
    "get_connection drv c (db s0) = (Inr h, w)"
    "make_columns drv (statementFetchSize ctx) classes s1 = (Inr (), s')"
    "resultColumnClassNames (me s1) = Some []" "resultChunk (me s1) = Some []"
    "dataSource (me s1) = Some c" "sources s1 = sources s0" "connection (me s1) = Some h"
    by (rule jopen_steps[OF assms])
  with get_source_returns[OF st(1)] make_columns_frame[OF st(3,4,5)] show ?thesis
    by (intro exI[of _ c] exI[of _ h] exI[of _ "db s0"] exI[of _ w]) (auto split: option.splits)
qed

section \<open>A driver over a list of rows\<close>

text \<open>
  It instantiates the parameter: one connection, one statement, one result set, whose world is the
  rows still to come and the row the cursor is on.
\<close>

definition list_jdbc ::
    "string list \<Rightarrow> 'r jval option list list \<Rightarrow> 'r floating \<Rightarrow>
     ('r jval option list list \<times> 'r jval option list option, 'r) jdbc" where
  "list_jdbc classes rows fp =
     \<lparr>new_source = (\<lambda>_ w. (Inr (), w)), get_connection = (\<lambda>_ w. (Inr 1, w)), create_statement = (\<lambda>_ w. (Inr 2, w)),
      set_fetch_size = (\<lambda>_ _ w. (Inr (), w)), execute_sql = (\<lambda>_ _ _. (Inr (), (rows, None))),
      get_result_set = (\<lambda>_ w. (Inr (Some 3), w)), column_classes = (\<lambda>_ w. (Inr classes, w)),
      rs_next = (\<lambda>_ w. case fst w of [] \<Rightarrow> (Inr False, w) | row # rest \<Rightarrow> (Inr True, (rest, Some row))),
      get_object = (\<lambda>_ i w. case snd w of
          Some row \<Rightarrow> (if 0 < i \<and> i \<le> length row then (Inr (row ! (i - 1)), w) else (Inl (SQL_Exception ''column''), w))
        | None \<Rightarrow> (Inl (SQL_Exception ''no row''), w)),
      close_handle = (\<lambda>_ w. (Inr (), w)), known_class = (\<lambda>_. True),
      instance_of = (\<lambda>v c. case v of Obj d _ \<Rightarrow> c = d | Num _ \<Rightarrow> False), fp_arith = fp\<rparr>"

lemma list_jdbc_delivers: "rs_delivers (list_jdbc classes all fp) r rows (rows, cur)"
proof (induction rows arbitrary: cur)
  case (Cons row rows)
  then show ?case by (simp add: list_jdbc_def on_row_def)
qed (simp add: list_jdbc_def)

definition no_floats :: "unit floating" where
  "no_floats = \<lparr>float_value = (\<lambda>_. ()), double_value = (\<lambda>_. ()), to_int = (\<lambda>_. 0), to_long = (\<lambda>_. 0)\<rparr>"

definition demo_ctx :: scan_ctx_java where
  "demo_ctx = \<lparr>driverClassName = Some ''D'', jdbcURL = Some ''jdbc:x'', user = Some ''sa'', password = Some ''p'',
     sql = Some ''select'', statementFetchSize = 2, connectionPoolSize = 8, minimumIdleConnections = 1,
     connectionIdleTimeoutMs = 60000\<rparr>"

definition demo_classes :: "string list" where
  "demo_classes = [''java.lang.Integer'', ''java.lang.String'']"

definition demo_rows :: "unit jval option list list" where
  "demo_rows = [[Some (Num (J_Long 1)), Some (Obj ''java.lang.String'' ''a'')],
                [None, None], [Some (Num (J_BigDecimal 35 1)), Some (Obj ''java.lang.String'' ''c'')]]"

definition demo_jmach :: "(unit jval option list list \<times> unit jval option list option, unit) jmach" where
  "demo_jmach = \<lparr>db = ([], None), sources = (\<lambda>_. None), arrays = [],
     me = JDBCScanner_new (Some ''/d.jar'') (Some demo_ctx)\<rparr>"

definition demo_opened :: "(unit jval option list list \<times> unit jval option list option, unit) jmach" where
  "demo_opened = snd (jopen (list_jdbc demo_classes demo_rows no_floats) demo_jmach)"

lemma demo_open:
  "jopen (list_jdbc demo_classes demo_rows no_floats) demo_jmach = (Inr (), demo_opened)"
  "db demo_opened = (demo_rows, None)" "resultSet (me demo_opened) = Some 3"
  "resultSetMetaData (me demo_opened) = Some demo_classes"
  "resultChunk (me demo_opened) = Some [0, 1]"
  by (simp_all add: demo_opened_def demo_jmach_def demo_ctx_def demo_classes_def list_jdbc_def jopen_def jbind_def
      java_simps on_db_def get_source_def source_provider_def JDBCScanner_new_def)

lemma demo_fits: "\<forall>row \<in> set demo_rows. fits (list_jdbc demo_classes demo_rows no_floats) demo_classes row"
  by (simp add: demo_rows_def fits_def demo_classes_def list_jdbc_def convert_def storable_def All_less_Suc)

section \<open>What the scanner promises\<close>



text \<open>C30. The chunk handed out is one object for the life of the scanner: the next chunk is written
  into the same arrays, so a reader that still holds the list of the first one finds the rows of
  the second in it.\<close>

theorem chunk_is_overwritten:
  assumes "scanning F r classes as s" "0 < F" "\<forall>row \<in> set rows. fits drv classes row"
    and "rs_delivers drv r rows (db s)" "nat F < length rows"
  shows "\<exists>s1 s2 t. next_batch drv s = (Inr (Some (Some as, F)), s1) \<and>
    rows_in as (nat F) s1 = map (stored_row drv classes) (take (nat F) rows) \<and>
    next_batch drv s1 = (Inr (Some (Some as, int t)), s2) \<and> 0 < t \<and>
    rows_in as t s2 = map (stored_row drv classes) (take t (drop (nat F) rows))"
proof -
  have ne: "rows \<noteq> []" "drop (nat F) rows \<noteq> []" using assms(5) by auto
  obtain s1 t1 where s1: "next_batch drv s = (Inr (Some (Some as, int t1)), s1)" "t1 = min (nat F) (length rows)"
    "scanning F r classes as s1" "rows_in as t1 s1 = map (stored_row drv classes) (take t1 rows)"
    "rs_delivers drv r (drop t1 rows) (db s1)"
    by (rule next_batch_run[OF assms(1-4) ne(1)])
  have t1: "t1 = nat F" using s1(2) assms(5) by simp
  have "\<forall>row \<in> set (drop t1 rows). fits drv classes row" using assms(3) by (meson in_set_dropD)
  then obtain s2 t where s2: "next_batch drv s1 = (Inr (Some (Some as, int t)), s2)"
    "t = min (nat F) (length (drop t1 rows))"
    "rows_in as t s2 = map (stored_row drv classes) (take t (drop t1 rows))"
    using next_batch_run[OF s1(3) assms(2) _ s1(5)] ne(2) unfolding t1 by metis
  have "0 < t" using s2(2) ne(2) assms(2) unfolding t1 by simp
  with s1(1,4) s2(1,3) assms(2) t1 show ?thesis
    by (intro exI[of _ s1] exI[of _ s2] exI[of _ t]) simp
qed

theorem chunk_is_overwritten_witness:
  "\<exists>s1 s2. next_batch (list_jdbc demo_classes demo_rows no_floats) demo_opened = (Inr (Some (Some [0, 1], 2)), s1) \<and>
    fst (next_batch (list_jdbc demo_classes demo_rows no_floats) s1) = Inr (Some (Some [0, 1], 1)) \<and>
    rows_in [0, 1] 1 s1 = [[Some (Num (J_Integer 1)), Some (Obj ''java.lang.String'' ''a'')]] \<and>
    rows_in [0, 1] 1 (snd (next_batch (list_jdbc demo_classes demo_rows no_floats) s1)) =
      [[Some (Num (J_Integer 3)), Some (Obj ''java.lang.String'' ''c'')]]"
proof -
  let ?drv = "list_jdbc demo_classes demo_rows no_floats"
  have ctx: "scanContext (me demo_jmach) = Some demo_ctx" "statementFetchSize demo_ctx = 2"
    by (simp_all add: demo_jmach_def demo_ctx_def JDBCScanner_new_def)
  have sc: "scanning 2 3 demo_classes [0, 1] demo_opened"
    using jopen_scanning[OF demo_open(1) ctx(1)] demo_open(3-5) scanning_fields ctx(2) by (metis option.inject)
  have stored: "map (stored_row ?drv demo_classes) demo_rows =
      [[Some (Num (J_Integer 1)), Some (Obj ''java.lang.String'' ''a'')], [None, None],
       [Some (Num (J_Integer 3)), Some (Obj ''java.lang.String'' ''c'')]]" by code_simp
  have len: "length demo_rows = 3" by (simp add: demo_rows_def)
  obtain s1 s2 t where r: "next_batch ?drv demo_opened = (Inr (Some (Some [0, 1], 2)), s1)"
    "rows_in [0, 1] 2 s1 = take 2 (map (stored_row ?drv demo_classes) demo_rows)"
    "next_batch ?drv s1 = (Inr (Some (Some [0, 1], int t)), s2)" "0 < t"
    "rows_in [0, 1] t s2 = take t (drop 2 (map (stored_row ?drv demo_classes) demo_rows))"
    using chunk_is_overwritten[OF sc _ demo_fits] by (auto simp: demo_open(2) list_jdbc_delivers len take_map drop_map)
  have "length (rows_in [0, 1] t s2) = t" by (simp add: rows_in_def)
  with r(4,5) have "t = 1" unfolding stored by (cases t) auto
  moreover have "rows_in [0, 1] 1 s1 = take 1 (rows_in [0, 1] 2 s1)" by (simp add: rows_in_def numeral_2_eq_2)
  ultimately show ?thesis using r unfolding stored by (intro exI[of _ s1] exI[of _ s2]) simp
qed

text \<open>C33. The connection pool of the first scanner serves every later one with the same user and URL:
  its driver class, password and pool size are those of the first context, whatever the later
  context says and whatever scanners were opened, or failed to open, in between.\<close>

theorem first_source_is_kept:
  assumes "jopen drv s1 = (Inr (), s2)" "scanContext (me s1) = Some ctx1" "sources s1 (source_key ctx1) = None"
    and "source_key ctx2 = source_key ctx1"
    and "jopen drv ((open_scans drv others s2)\<lparr>me := JDBCScanner_new loc (Some ctx2)\<rparr>) = (Inr (), s3)"
  shows "dataSource (me s3) = Some (config_for ctx1) \<and>
    (\<exists>h w w'. get_connection drv (config_for ctx1) w = (Inr h, w') \<and> connection (me s3) = Some h)"
proof -
  have "sources s2 (source_key ctx1) = Some (config_for ctx1)"
    using jopen_source[OF assms(1,2)] assms(3) by auto
  from open_scans_keep[OF this] assms(4)
  have "sources (open_scans drv others s2) (source_key ctx2) = Some (config_for ctx1)" by simp
  with jopen_source[OF assms(5), of ctx2] show ?thesis by (auto simp: JDBCScanner_new_def)
qed

theorem first_source_is_kept_witness:
  "\<exists>s3. jopen (list_jdbc demo_classes demo_rows no_floats)
      (demo_opened\<lparr>me := JDBCScanner_new None (Some (demo_ctx\<lparr>password := Some ''wrong''\<rparr>))\<rparr>) = (Inr (), s3) \<and>
    map_option h_password (dataSource (me s3)) = Some (Some ''p'')"
proof -
  let ?drv = "list_jdbc demo_classes demo_rows no_floats"
  let ?ctx = "demo_ctx\<lparr>password := Some ''wrong''\<rparr>"
  have ctx: "scanContext (me demo_jmach) = Some demo_ctx" "sources demo_jmach (source_key demo_ctx) = None"
    "source_key ?ctx = source_key demo_ctx"
    by (simp_all add: demo_jmach_def demo_ctx_def JDBCScanner_new_def source_key_def)
  obtain s3 where s3: "jopen ?drv (demo_opened\<lparr>me := JDBCScanner_new None (Some ?ctx)\<rparr>) = (Inr (), s3)"
    by (simp add: demo_opened_def demo_jmach_def demo_ctx_def demo_classes_def list_jdbc_def jopen_def jbind_def
      java_simps on_db_def get_source_def source_provider_def JDBCScanner_new_def source_key_def)
  have "dataSource (me s3) = Some (config_for demo_ctx)"
    using first_source_is_kept[OF demo_open(1) ctx, where others = "[]" and loc = None] s3 by simp
  with s3 show ?thesis by (intro exI[of _ s3]) (simp add: config_for_def demo_ctx_def)
qed

text \<open>Two accounts may share a key: it does not separate the user from the URL unambiguously.\<close>

lemma source_key_collision:
  "source_key (demo_ctx\<lparr>user := Some (u @ ''/'' @ v), jdbcURL := Some w\<rparr>) =
   source_key (demo_ctx\<lparr>user := Some u, jdbcURL := Some (v @ ''/'' @ w)\<rparr>)"
  by (simp add: source_key_def show_ref_def)

text \<open>\<open>hasNext\<close> is not a question: each call moves the cursor, and a row asked for twice is lost.\<close>

lemma asking_twice_loses_a_row:
  assumes "scanning F r classes as s" "0 < F" "\<forall>x \<in> set rows. fits drv classes x"
    and "rs_delivers drv r (row # rows) (db s)" "length rows < fuel"
  shows "\<exists>cs s'. jbind (hasNext drv) (\<lambda>_. read_all fuel drv) s = (Inr cs, s') \<and>
    concat cs = map (stored_row drv classes) rows"
proof -
  obtain w where w: "rs_next drv r (db s) = (Inr True, w)" "rs_delivers drv r rows w" using assms(4) by auto
  have "hasNext drv s = (Inr True, s\<lparr>db := w\<rparr>)"
    using scanning_fields[OF assms(1)] w(1) by (simp add: hasNext_def jbind_def java_simps on_db_def)
  with read_all_run[of F r classes as "s\<lparr>db := w\<rparr>" rows drv fuel] assms w(2) show ?thesis
    by (auto simp: jbind_def)
qed

end
