(* ===== verification/Java_Triples.thy ===== *)
theory Java_Triples
  imports Java_Scanner
begin

text \<open>
  Triples over the methods of Java\_Scanner: what a method leaves behind when it returns and when it
  throws.
\<close>

section \<open>Triples\<close>

definition jtriple :: "('s \<Rightarrow> bool) \<Rightarrow> ('s, 'a) java \<Rightarrow> ('a \<Rightarrow> 's \<Rightarrow> bool) \<Rightarrow> ('s \<Rightarrow> bool) \<Rightarrow> bool" where
  "jtriple P p Q E \<longleftrightarrow> (\<forall>s. P s \<longrightarrow> (case p s of (Inr a, t) \<Rightarrow> Q a t | (Inl e, t) \<Rightarrow> E t))"

named_theorems jtriple_intros \<open>triples of the steps of a Java method\<close>

lemma jtriple_run:
  assumes "jtriple P p Q E" "P s" "p s = (r, t)"
  shows "case r of Inr a \<Rightarrow> Q a t | Inl e \<Rightarrow> E t"
proof -
  have "P s \<longrightarrow> (case p s of (Inr a, t) \<Rightarrow> Q a t | (Inl e, t) \<Rightarrow> E t)"
    using assms(1) unfolding jtriple_def by (rule spec)
  with assms(2,3) show ?thesis by (cases r) simp_all
qed

lemma jtriple_bind [jtriple_intros]:
  assumes "jtriple P p Q E" "\<And>a. jtriple (Q a) (f a) R E"
  shows "jtriple P (jbind p f) R E"
  unfolding jtriple_def
proof (intro allI impI)
  fix s assume "P s"
  obtain r t where p: "p s = (r, t)" by fastforce
  note t = jtriple_run[OF assms(1) \<open>P s\<close> p]
  show "case jbind p f s of (Inr a, t) \<Rightarrow> R a t | (Inl e, t) \<Rightarrow> E t"
  proof (cases r)
    case (Inl e)
    with p t show ?thesis by (simp add: jbind_def)
  next
    case (Inr a)
    with p t assms(2)[of a] show ?thesis by (simp add: jbind_def jtriple_def)
  qed
qed

lemma jtriple_weaken:
  assumes "jtriple P p Q E" "\<And>s. P' s \<Longrightarrow> P s" "\<And>a s. Q a s \<Longrightarrow> Q' a s" "\<And>s. E s \<Longrightarrow> E' s"
  shows "jtriple P' p Q' E'"
  unfolding jtriple_def
proof (intro allI impI)
  fix s assume "P' s"
  obtain r t where p: "p s = (r, t)" by fastforce
  with jtriple_run[OF assms(1) assms(2)[OF \<open>P' s\<close>] p] assms(3,4)
  show "case p s of (Inr a, t) \<Rightarrow> Q' a t | (Inl e, t) \<Rightarrow> E' t" by (cases r) simp_all
qed

text \<open>Steps that keep an invariant, whether they return or throw.\<close>

lemma jtriple_keep [jtriple_intros]:
  "jtriple I (jret a) (\<lambda>_. I) I" "jtriple I (jthrow e) Q I" "jtriple I (jget f) (\<lambda>_. I) I"
  "jtriple I (the_field g) (\<lambda>_. I) I" "jtriple I (jnonnull x) (\<lambda>_. I) I"
  by (auto simp: jtriple_def java_simps jnonnull_def split: option.splits)

lemma jtriple_put:
  "(\<And>s. P s \<Longrightarrow> Q (f s)) \<Longrightarrow> jtriple P (jput f) (\<lambda>_. Q) E"
  "(\<And>s. P s \<Longrightarrow> Q (s\<lparr>me := g (me s)\<rparr>)) \<Longrightarrow> jtriple P (set_me g) (\<lambda>_. Q) E"
  by (auto simp: jtriple_def java_simps)

lemma jtriple_on_db:
  "(\<And>s a w. P s \<Longrightarrow> p (db s) = (Inr a, w) \<Longrightarrow> Q a (s\<lparr>db := w\<rparr>)) \<Longrightarrow>
   (\<And>s e w. P s \<Longrightarrow> p (db s) = (Inl e, w) \<Longrightarrow> E (s\<lparr>db := w\<rparr>)) \<Longrightarrow> jtriple P (on_db p) Q E"
  unfolding jtriple_def on_db_def by (auto split: prod.splits sum.splits)

end
