(* ===== verification/Java_Connections.thy ===== *)
theory Java_Connections
  imports Java_Triples
begin

text \<open>
  The connections of the Java scanner: what \<open>open\<close> takes from the pool and what \<open>close\<close> gives back.
\<close>

section \<open>The pool\<close>

text \<open>
  What the pool of a configuration documents: \<open>out\<close> are its connections in use, \<open>C\<close> the handles of
  its connections. Getting one takes it out, closing it puts it back, and nothing else does either.
\<close>

definition quiet :: "('w \<Rightarrow> nat set) \<Rightarrow> ('w, 'a) java \<Rightarrow> bool" where
  "quiet out p \<longleftrightarrow> (\<forall>w r w'. p w = (r, w') \<longrightarrow> out w' = out w)"

definition pools :: "('w, 'r) jdbc \<Rightarrow> hikari_config \<Rightarrow> ('w \<Rightarrow> nat set) \<Rightarrow> nat set \<Rightarrow> bool" where
  "pools drv cfg out C \<longleftrightarrow>
     (\<forall>w h w'. get_connection drv cfg w = (Inr h, w') \<longrightarrow>
        h \<in> C \<and> h \<notin> out w \<and> out w' = insert h (out w) \<and> card (out w) < nat (h_pool_size cfg)) \<and>
     (\<forall>w e w'. get_connection drv cfg w = (Inl e, w') \<longrightarrow> out w' = out w) \<and>
     (\<forall>c w r w'. get_connection drv c w = (r, w') \<and> c \<noteq> cfg \<longrightarrow> out w' = out w \<and> (\<forall>h. r = Inr h \<longrightarrow> h \<notin> C)) \<and>
     (\<forall>c. quiet out (new_source drv c)) \<and> (\<forall>h. quiet out (create_statement drv h)) \<and>
     (\<forall>h n. quiet out (set_fetch_size drv h n)) \<and> (\<forall>h q. quiet out (execute_sql drv h q)) \<and>
     (\<forall>h. quiet out (get_result_set drv h)) \<and> (\<forall>h. quiet out (column_classes drv h)) \<and>
     (\<forall>h w st w'. create_statement drv h w = (Inr st, w') \<longrightarrow> st \<notin> C) \<and>
     (\<forall>h w rs w'. get_result_set drv h w = (Inr (Some rs), w') \<longrightarrow> rs \<notin> C) \<and>
     (\<forall>h w w'. h \<in> C \<and> close_handle drv h w = (Inr (), w') \<longrightarrow> out w' = out w - {h}) \<and>
     (\<forall>h w e w'. close_handle drv h w = (Inl e, w') \<longrightarrow> out w' = out w) \<and>
     (\<forall>h. h \<notin> C \<longrightarrow> quiet out (close_handle drv h))"

lemma pools_quiet:
  assumes "pools drv cfg out C"
  shows "quiet out (new_source drv c)" "quiet out (create_statement drv h)" "quiet out (set_fetch_size drv h n)"
    "quiet out (execute_sql drv h q)" "quiet out (get_result_set drv h)" "quiet out (column_classes drv h)"
    "h \<notin> C \<Longrightarrow> quiet out (close_handle drv h)"
  using assms unfolding pools_def by simp_all

lemma pools_handles:
  assumes "pools drv cfg out C"
  shows "create_statement drv h w = (Inr st, w') \<Longrightarrow> st \<notin> C"
    "get_result_set drv h w = (Inr rs, w') \<Longrightarrow> set_option rs \<inter> C = {}"
proof -
  have "\<forall>h w st w'. create_statement drv h w = (Inr st, w') \<longrightarrow> st \<notin> C"
    "\<forall>h w rs w'. get_result_set drv h w = (Inr (Some rs), w') \<longrightarrow> rs \<notin> C"
    using assms unfolding pools_def by simp_all
  then show "create_statement drv h w = (Inr st, w') \<Longrightarrow> st \<notin> C"
    "get_result_set drv h w = (Inr rs, w') \<Longrightarrow> set_option rs \<inter> C = {}"
    by (blast, cases rs) (simp, fastforce)
qed

text \<open>A connection that is got is new and of the pool, or of another pool; one that is closed is back.\<close>

lemma pools_get:
  assumes "pools drv cfg out C" "get_connection drv c w = (r, w')"
  shows "case r of Inl _ \<Rightarrow> out w' = out w
    | Inr h \<Rightarrow> out w' = out w \<union> ({h} \<inter> C) \<and> {h} \<inter> C \<inter> out w = {} \<and>
        (c = cfg \<longrightarrow> h \<in> C \<and> card (out w) < nat (h_pool_size cfg))"
proof (cases "c = cfg")
  case True
  show ?thesis
  proof (cases r)
    case (Inl e)
    with True assms show ?thesis unfolding pools_def by simp
  next
    case (Inr h)
    have "h \<in> C \<and> h \<notin> out w \<and> out w' = insert h (out w) \<and> card (out w) < nat (h_pool_size cfg)"
      using True Inr assms unfolding pools_def by simp
    with Inr show ?thesis by auto
  qed
next
  case False
  have "\<forall>c w r w'. get_connection drv c w = (r, w') \<and> c \<noteq> cfg \<longrightarrow> out w' = out w \<and> (\<forall>h. r = Inr h \<longrightarrow> h \<notin> C)"
    using assms(1) unfolding pools_def by simp
  with False assms(2) have "out w' = out w \<and> (\<forall>h. r = Inr h \<longrightarrow> h \<notin> C)" by blast
  with False show ?thesis by (cases r) auto
qed

lemma pools_close:
  assumes "pools drv cfg out C" "close_handle drv h w = (r, w')"
  shows "case r of Inl _ \<Rightarrow> out w' = out w | Inr _ \<Rightarrow> out w' = out w - ({h} \<inter> C)"
proof (cases r)
  case (Inl e)
  with assms show ?thesis unfolding pools_def by simp
next
  case (Inr x)
  show ?thesis
  proof (cases "h \<in> C")
    case True
    with Inr assms show ?thesis unfolding pools_def by simp
  next
    case False
    with assms(2) pools_quiet(7)[OF assms(1) False] Inr show ?thesis by (simp add: quiet_def)
  qed
qed

section \<open>Opening takes at most one\<close>

text \<open>
  The pool lends what it had lent before, and the connection of the scanner, of which \<open>good\<close> is
  known.
\<close>

definition lends ::
    "('w \<Rightarrow> nat set) \<Rightarrow> nat set \<Rightarrow> nat set \<Rightarrow> (nat \<Rightarrow> bool) \<Rightarrow> nat option \<Rightarrow> ('w, 'r) jmach \<Rightarrow> bool" where
  "lends out C base good c s \<longleftrightarrow>
     out (db s) = base \<union> (set_option c \<inter> C) \<and> set_option c \<inter> C \<inter> base = {} \<and> (\<forall>h \<in> set_option c. good h) \<and>
     set_option (statement (me s)) \<inter> C = {} \<and> set_option (resultSet (me s)) \<inter> C = {}"

definition owes :: "('w \<Rightarrow> nat set) \<Rightarrow> nat set \<Rightarrow> nat set \<Rightarrow> (nat \<Rightarrow> bool) \<Rightarrow> ('w, 'r) jmach \<Rightarrow> bool" where
  "owes out C base good s \<longleftrightarrow> lends out C base good (connection (me s)) s"

text \<open>Before the connection is asked for.\<close>

definition unopened :: "('w \<Rightarrow> nat set) \<Rightarrow> nat set \<Rightarrow> nat set \<Rightarrow> ('w, 'r) jmach \<Rightarrow> bool" where
  "unopened out C base s \<longleftrightarrow> lends out C base (\<lambda>_. False) None s \<and> connection (me s) = None"

lemma unopened_owes: "unopened out C base s \<Longrightarrow> owes out C base good s"
  by (simp add: unopened_def owes_def lends_def)

lemma quiet_step:
  assumes "quiet out p"
  shows "jtriple (owes out C base good) (on_db p) (\<lambda>_. owes out C base good) (owes out C base good)"
  using assms by (intro jtriple_on_db) (auto simp: quiet_def owes_def lends_def)

lemma set_me_owes:
  "(\<And>m. connection (f m) = connection m \<and> statement (f m) = statement m \<and> resultSet (f m) = resultSet m) \<Longrightarrow>
   jtriple (owes out C base good) (set_me f) (\<lambda>_. owes out C base good) E"
  by (intro jtriple_put) (simp add: owes_def lends_def)

lemma make_columns_owes:
  "jtriple (owes out C base good) (make_columns drv n todo) (\<lambda>_. owes out C base good) (owes out C base good)"
proof (induction todo)
  case (Cons c todo)
  then show ?case
    by (auto intro!: jtriple_intros set_me_owes) (auto intro!: jtriple_put simp: owes_def lends_def)
qed (simp add: jtriple_intros)

text \<open>The source comes from the cache, when it is there.\<close>

lemma get_source_unopened:
  fixes drv :: "('w, 'r) jdbc"
  assumes "pools drv cfg out C"
  shows "jtriple (\<lambda>s. unopened out C base s \<and> sources s key = v) (get_source key (source_provider drv ctx))
    (\<lambda>c s. (\<forall>d. v = Some d \<longrightarrow> c = d) \<and> unopened out C base s) (owes out C base good)"
proof -
  let ?U = "unopened out C base :: ('w, 'r) jmach \<Rightarrow> bool"
  have new: "jtriple ?U (on_db (new_source drv c)) (\<lambda>_. ?U) ?U" for c
    using pools_quiet(1)[OF assms] by (intro jtriple_on_db) (auto simp: quiet_def unopened_def lends_def)
  have put: "jtriple ?U (set_me (\<lambda>m. m\<lparr>dataSource := x\<rparr>)) (\<lambda>_. ?U) ?U"
    "jtriple ?U (jput (\<lambda>s. s\<lparr>sources := f s\<rparr>)) (\<lambda>_. ?U) ?U" for x f
    by (intro jtriple_put; simp add: unopened_def lends_def)+
  have made: "jtriple ?U (jbind (source_provider drv ctx) (\<lambda>c.
      jbind (jput (\<lambda>s. s\<lparr>sources := (sources s)(key \<mapsto> c)\<rparr>)) (\<lambda>_. jret c))) (\<lambda>_. ?U) ?U"
    unfolding source_provider_def
    by (rule jtriple_bind, rule jtriple_bind, rule new, rule jtriple_bind, rule put(1), rule jtriple_keep(1),
        rule jtriple_bind, rule put(2), rule jtriple_keep(1))
  have get: "jtriple (\<lambda>s. ?U s \<and> sources s key = v) (jget (\<lambda>s. sources s key)) (\<lambda>a s. a = v \<and> ?U s) E" for E
    by (simp add: jtriple_def java_simps)
  show ?thesis unfolding get_source_def
  proof (rule jtriple_bind[OF get])
    fix a
    show "jtriple (\<lambda>s. a = v \<and> ?U s) (case a of Some c \<Rightarrow> jret c
        | None \<Rightarrow> jbind (source_provider drv ctx) (\<lambda>c.
            jbind (jput (\<lambda>s. s\<lparr>sources := (sources s)(key \<mapsto> c)\<rparr>)) (\<lambda>_. jret c)))
      (\<lambda>c s. (\<forall>d. v = Some d \<longrightarrow> c = d) \<and> ?U s) (owes out C base good)"
    proof (cases "a = v \<and> v = None")
      case True
      then show ?thesis by (auto intro!: jtriple_weaken[OF made] simp: unopened_owes)
    next
      case False
      then show ?thesis by (cases a) (auto simp: jtriple_def java_simps)
    qed
  qed
qed

lemma take_connection:
  fixes drv :: "('w, 'r) jdbc"
  assumes "pools drv cfg out C"
    and "\<And>h w w'. A \<Longrightarrow> get_connection drv c w = (Inr h, w') \<Longrightarrow> out w = base \<Longrightarrow> good h"
  shows "jtriple (\<lambda>s :: ('w, 'r) jmach. A \<and> unopened out C base s) (on_db (get_connection drv c))
    (\<lambda>h. lends out C base good (Some h)) (owes out C base good)"
proof (rule jtriple_on_db)
  fix s :: "('w, 'r) jmach" and h w
  assume P: "A \<and> unopened out C base s" and g: "get_connection drv c (db s) = (Inr h, w)"
  from P have "out (db s) = base" by (simp add: unopened_def lends_def)
  with P assms(2)[OF _ g] pools_get[OF assms(1) g] show "lends out C base good (Some h) (s\<lparr>db := w\<rparr>)"
    by (auto simp: unopened_def lends_def)
next
  fix s :: "('w, 'r) jmach" and e w
  assume P: "A \<and> unopened out C base s" and g: "get_connection drv c (db s) = (Inl e, w)"
  from P pools_get[OF assms(1) g] show "owes out C base good (s\<lparr>db := w\<rparr>)" by (simp add: unopened_def owes_def lends_def)
qed

text \<open>The whole of \<open>open\<close>, whether it returns or throws.\<close>

lemma jopen_owes:
  fixes drv :: "('w, 'r) jdbc"
  assumes "pools drv cfg out C"
    and "\<And>c h w w'. \<forall>d. v = Some d \<longrightarrow> c = d \<Longrightarrow> get_connection drv c w = (Inr h, w') \<Longrightarrow> out w = base \<Longrightarrow> good h"
  shows "jtriple (\<lambda>s. scanContext (me s) = Some ctx \<and> unopened out C base s \<and> sources s (source_key ctx) = v) (jopen drv)
    (\<lambda>_. owes out C base good) (owes out C base good)"
proof -
  let ?O = "owes out C base good :: ('w, 'r) jmach \<Rightarrow> bool" and ?U = "unopened out C base :: ('w, 'r) jmach \<Rightarrow> bool"
  let ?A = "\<lambda>c. \<forall>d. v = Some d \<longrightarrow> c = d"
  note q = pools_quiet[OF assms(1)]
  have st: "jtriple ?O (on_db (create_statement drv h)) (\<lambda>st s. ?O s \<and> st \<notin> C) ?O" for h
    using q(2) pools_handles(1)[OF assms(1)] by (intro jtriple_on_db) (auto simp: quiet_def owes_def lends_def)
  have rs: "jtriple ?O (on_db (get_result_set drv h)) (\<lambda>rs s. ?O s \<and> set_option rs \<inter> C = {}) ?O" for h
    using q(5) pools_handles(2)[OF assms(1)] by (intro jtriple_on_db) (auto simp: quiet_def owes_def lends_def)
  have put: "jtriple (lends out C base good (Some h) :: ('w, 'r) jmach \<Rightarrow> bool) (set_me (\<lambda>m. m\<lparr>connection := Some h\<rparr>)) (\<lambda>_. ?O) ?O"
    "jtriple (\<lambda>s. ?O s \<and> h \<notin> C) (set_me (\<lambda>m. m\<lparr>statement := Some h\<rparr>)) (\<lambda>_. ?O) ?O"
    "jtriple (\<lambda>s. ?O s \<and> set_option x \<inter> C = {}) (set_me (\<lambda>m. m\<lparr>resultSet := x\<rparr>)) (\<lambda>_. ?O) ?O"
    "jtriple (\<lambda>s. ?A c \<and> ?U s) (set_me (\<lambda>m. m\<lparr>dataSource := y\<rparr>)) (\<lambda>_ s. ?A c \<and> ?U s) ?O" for h x c y
    by (intro jtriple_put; simp add: owes_def lends_def unopened_def)+
  have taken: "jtriple (\<lambda>s. ?U s \<and> sources s (source_key ctx) = v)
    (jbind (get_source (source_key ctx) (source_provider drv ctx)) (\<lambda>source.
     jbind (set_me (\<lambda>m. m\<lparr>dataSource := Some source\<rparr>)) (\<lambda>_.
     jbind (on_db (get_connection drv source)) (\<lambda>c.
     jbind (set_me (\<lambda>m. m\<lparr>connection := Some c\<rparr>)) (\<lambda>_. tail c))))) (\<lambda>_. ?O) ?O"
    if "\<And>c. jtriple ?O (tail c) (\<lambda>_. ?O) ?O" for tail :: "nat \<Rightarrow> (('w, 'r) jmach, unit) java"
    by (rule jtriple_bind, rule get_source_unopened[OF assms(1)], rule jtriple_bind, rule put(4),
        rule jtriple_bind, rule take_connection[OF assms], assumption+, rule jtriple_bind, rule put(1), rule that)
  have ctx: "jtriple (\<lambda>s. scanContext (me s) = Some ctx \<and> P s) (jbind (the_field scanContext) f) (\<lambda>_. ?O) ?O"
    if "jtriple P (f ctx) (\<lambda>_. ?O) ?O" for P and f :: "scan_ctx_java \<Rightarrow> (('w, 'r) jmach, unit) java"
    using that by (simp add: jtriple_def jbind_def java_simps)
  show ?thesis unfolding jopen_def
    by (rule ctx, rule taken, rule jtriple_bind, rule st, rule jtriple_bind, rule put(2),
        rule jtriple_bind, rule quiet_step[OF q(3)], rule jtriple_bind, rule quiet_step[OF q(4)],
        rule jtriple_bind, rule rs, rule jtriple_bind, rule put(3), rule jtriple_bind, rule jtriple_keep(5),
        rule jtriple_bind, rule quiet_step[OF q(6)], rule jtriple_bind, rule set_me_owes, simp, rule make_columns_owes)
qed

text \<open>Closing what is there gives the connection back.\<close>

lemma jclose_returns:
  fixes drv :: "('w, 'r) jdbc"
  assumes "pools drv cfg out C"
  shows "jtriple (\<lambda>s :: ('w, 'r) jmach. owes out C base good s \<and> me s = m) (jclose drv) (\<lambda>_ s. out (db s) = base)
    (\<lambda>s. owes out C base good s \<and> me s = m)"
proof -
  let ?I = "\<lambda>s :: ('w, 'r) jmach. owes out C base good s \<and> me s = m"
  have other: "jtriple ?I (close_if drv field) (\<lambda>_. ?I) ?I"
    if "field = resultSet \<or> field = statement" for field
    unfolding jtriple_def
  proof (intro allI impI)
    fix s :: "('w, 'r) jmach" assume s: "?I s"
    show "case close_if drv field s of (Inr a, t) \<Rightarrow> ?I t | (Inl e, t) \<Rightarrow> ?I t"
    proof (cases "field (me s)")
      case None
      with s show ?thesis by (simp add: close_if_def jbind_def java_simps)
    next
      case (Some h)
      obtain r w where w: "close_handle drv h (db s) = (r, w)" by fastforce
      have "h \<notin> C" using s Some that by (auto simp: owes_def lends_def)
      with pools_quiet(7)[OF assms] w have "out w = out (db s)" by (simp add: quiet_def)
      with s Some w show ?thesis by (cases r) (auto simp: close_if_def jbind_def java_simps owes_def lends_def on_db_def)
    qed
  qed
  have conn: "jtriple ?I (close_if drv connection) (\<lambda>_ s. out (db s) = base) ?I"
    unfolding jtriple_def
  proof (intro allI impI)
    fix s :: "('w, 'r) jmach" assume s: "?I s"
    show "case close_if drv connection s of (Inr a, t) \<Rightarrow> out (db t) = base | (Inl e, t) \<Rightarrow> ?I t"
    proof (cases "connection (me s)")
      case None
      with s show ?thesis by (simp add: close_if_def jbind_def java_simps owes_def lends_def)
    next
      case (Some h)
      obtain r w where w: "close_handle drv h (db s) = (r, w)" by fastforce
      with pools_close[OF assms w] s Some show ?thesis
        by (cases r) (auto simp: close_if_def jbind_def java_simps owes_def lends_def on_db_def)
    qed
  qed
  show ?thesis unfolding jclose_def
    by (intro jtriple_bind[OF other] conn disjI1 disjI2 refl)
qed

lemma fresh_unopened:
  "out (db s) = base \<Longrightarrow> me s = JDBCScanner_new loc ctx \<Longrightarrow> unopened out C base s"
  by (simp add: unopened_def lends_def JDBCScanner_new_def)

section \<open>What becomes of the connections\<close>


text \<open>How many of a row of scanners got a connection, each opened and none closed.\<close>

fun connected :: "('w, 'r) jdbc \<Rightarrow> (string option \<times> scan_ctx_java) list \<Rightarrow> ('w, 'r) jmach \<Rightarrow> nat" where
  "connected drv [] s = 0"
| "connected drv ((loc, ctx) # rest) s =
     (case jopen drv (s\<lparr>me := JDBCScanner_new loc (Some ctx)\<rparr>) of
        (_, s1) \<Rightarrow> (if connection (me s1) = None then 0 else 1) + connected drv rest s1)"

lemma jopen_lends:
  fixes drv :: "('w, 'r) jdbc"
  assumes "pools drv cfg out C" "me s = JDBCScanner_new loc (Some ctx)" "sources s (source_key ctx) = Some cfg"
    and "finite (out (db s))" "card (out (db s)) \<le> nat (h_pool_size cfg)" "jopen drv s = (res, s1)"
  shows "finite (out (db s1)) \<and> card (out (db s1)) \<le> nat (h_pool_size cfg) \<and>
    card (out (db s1)) = card (out (db s)) + (if connection (me s1) = None then 0 else 1)"
proof -
  let ?good = "\<lambda>h. h \<in> C \<and> card (out (db s)) < nat (h_pool_size cfg)"
  have good: "?good h" if "\<forall>d. Some cfg = Some d \<longrightarrow> c = d" "get_connection drv c w = (Inr h, w')" "out w = out (db s)" for c h w w'
    using pools_get[OF assms(1) that(2)] that(1,3) by simp
  have "scanContext (me s) = Some ctx \<and> unopened out C (out (db s)) s \<and> sources s (source_key ctx) = Some cfg"
    using fresh_unopened[of out s, OF refl assms(2)] assms(2,3) by (simp add: JDBCScanner_new_def)
  from jtriple_run[OF jopen_owes[where good = ?good, OF assms(1) good] this assms(6)]
  have "owes out C (out (db s)) ?good s1" by (cases res) simp_all
  with assms(4,5) show ?thesis
    by (cases "connection (me s1)") (auto simp: owes_def lends_def)
qed


section \<open>A driver with a pool\<close>

text \<open>Its world is the connections in use. A new one is a number above all of them.\<close>

definition pool_jdbc :: "hikari_config \<Rightarrow> (nat list, unit) jdbc" where
  "pool_jdbc cfg =
     \<lparr>new_source = (\<lambda>_ w. (Inr (), w)),
      get_connection = (\<lambda>c w.
        if c = cfg \<and> card (set w) < nat (h_pool_size cfg) then (Inr (10 + sum_list w), (10 + sum_list w) # w)
        else (Inl (Pool_Exception ''timeout''), w)),
      create_statement = (\<lambda>_ w. (Inr 2, w)), set_fetch_size = (\<lambda>_ _ w. (Inr (), w)),
      execute_sql = (\<lambda>_ q w. if q = None then (Inl (SQL_Exception ''syntax''), w) else (Inr (), w)),
      get_result_set = (\<lambda>_ w. (Inr (Some 3), w)), column_classes = (\<lambda>_ w. (Inr [''java.lang.Integer''], w)),
      rs_next = (\<lambda>_ w. (Inr False, w)), get_object = (\<lambda>_ _ w. (Inr None, w)),
      close_handle = (\<lambda>h w. (Inr (), if 10 \<le> h then filter (\<lambda>x. x \<noteq> h) w else w)),
      known_class = (\<lambda>_. True), instance_of = (\<lambda>_ _. False), fp_arith = no_floats\<rparr>"

lemma pool_jdbc_pools: "pools (pool_jdbc cfg) cfg set {h. 10 \<le> h}"
proof -
  have "10 + sum_list w \<notin> set w" for w :: "nat list"
    using member_le_sum_list[of "10 + sum_list w" w] by fastforce
  then show ?thesis by (auto simp: pools_def pool_jdbc_def quiet_def split: if_splits)
qed

definition pool_ctx :: scan_ctx_java where
  "pool_ctx = demo_ctx\<lparr>connectionPoolSize := 2\<rparr>"

definition pool_jmach :: "string option \<Rightarrow> (nat list, unit) jmach" where
  "pool_jmach q = \<lparr>db = [], sources = [source_key pool_ctx \<mapsto> config_for pool_ctx], arrays = [],
     me = JDBCScanner_new None (Some (pool_ctx\<lparr>sql := q\<rparr>))\<rparr>"



end
