(* ===== verification/Java_Typing.thy ===== *)
theory Java_Typing
  imports Java_Triples
begin

text \<open>
  The arrays of the Java scanner are typed: whatever the driver returns and in whatever order the
  methods are called, an array holds nulls and instances of its class only. Conformance is stated
  of values, of arrays, of the heap and of the scanner that refers to it.
\<close>

section \<open>Conformance\<close>

text \<open>The class of a boxed number; of other objects the class loader knows.\<close>

definition is_instance :: "('w, 'r) jdbc \<Rightarrow> 'r jval \<Rightarrow> string \<Rightarrow> bool" where
  "is_instance drv x clazz =
     (if clazz = ''java.lang.Short'' then (case x of Num (J_Short _) \<Rightarrow> True | _ \<Rightarrow> False)
      else if clazz = ''java.lang.Integer'' then (case x of Num (J_Integer _) \<Rightarrow> True | _ \<Rightarrow> False)
      else if clazz = ''java.lang.Long'' then (case x of Num (J_Long _) \<Rightarrow> True | _ \<Rightarrow> False)
      else if clazz = ''java.lang.Float'' then (case x of Num (J_Float _) \<Rightarrow> True | _ \<Rightarrow> False)
      else if clazz = ''java.lang.Double'' then (case x of Num (J_Double _) \<Rightarrow> True | _ \<Rightarrow> False)
      else instance_of drv x clazz)"

definition cell_ok :: "('w, 'r) jdbc \<Rightarrow> string \<Rightarrow> 'r jval option \<Rightarrow> bool" where
  "cell_ok drv clazz v = (case v of None \<Rightarrow> True | Some x \<Rightarrow> is_instance drv x clazz)"

definition heap_ok :: "('w, 'r) jdbc \<Rightarrow> ('w, 'r) jmach \<Rightarrow> bool" where
  "heap_ok drv s \<longleftrightarrow> (\<forall>(clazz, xs) \<in> set (arrays s). \<forall>v \<in> set xs. cell_ok drv clazz v)"

text \<open>
  The chunk of a scanner with fetch size \<open>F\<close>: distinct arrays, each of the class of its column and
  \<open>F\<close> long; and its rows fit in them, but for the one row of a chunk without columns.
\<close>

definition chunk_ok :: "int \<Rightarrow> string list \<Rightarrow> nat list \<Rightarrow> ('w, 'r) jmach \<Rightarrow> bool" where
  "chunk_ok F names as s \<longleftrightarrow> distinct as \<and> length as \<le> length names \<and>
     (\<forall>i < length as. as ! i < length (arrays s) \<and> fst (arrays s ! (as ! i)) = names ! i \<and>
        length (snd (arrays s ! (as ! i))) = nat F)"

definition scanner_ok :: "int \<Rightarrow> ('w, 'r) jmach \<Rightarrow> bool" where
  "scanner_ok F s \<longleftrightarrow>
     map_option statementFetchSize (scanContext (me s)) = Some F \<and>
     0 \<le> resultNumRows (me s) \<and> resultNumRows (me s) \<le> max 1 F \<and>
     (case resultChunk (me s) of None \<Rightarrow> True
      | Some as \<Rightarrow> (case resultColumnClassNames (me s) of None \<Rightarrow> False | Some names \<Rightarrow> chunk_ok F names as s))"

definition typed :: "('w, 'r) jdbc \<Rightarrow> int \<Rightarrow> ('w, 'r) jmach \<Rightarrow> bool" where
  "typed drv F s \<longleftrightarrow> heap_ok drv s \<and> scanner_ok F s"

section \<open>Values\<close>

text \<open>What the conversion returns and the array accepts conforms to the class of the array.\<close>

lemma convert_storable_ok:
  "convert fp clazz v = Inr x \<Longrightarrow> storable (instance_of drv) clazz x \<Longrightarrow> cell_ok drv clazz x"
  by (auto simp: convert_def storable_def cell_ok_def is_instance_def Let_def split: option.splits jval.splits if_splits)

lemma typed_cong:
  assumes "arrays s' = arrays s" "scanContext (me s') = scanContext (me s)" "resultNumRows (me s') = resultNumRows (me s)"
    "resultChunk (me s') = resultChunk (me s)" "resultColumnClassNames (me s') = resultColumnClassNames (me s)"
  shows "typed drv F s' = typed drv F s"
  using assms by (simp add: typed_def heap_ok_def scanner_ok_def chunk_ok_def split: option.split)

lemma heap_ok_store:
  assumes "heap_ok drv s" "\<forall>v \<in> set ys. cell_ok drv clazz v"
  shows "heap_ok drv (s\<lparr>arrays := (arrays s)[a := (clazz, ys)]\<rparr>)"
  unfolding heap_ok_def
proof
  fix entry assume "entry \<in> set (arrays (s\<lparr>arrays := (arrays s)[a := (clazz, ys)]\<rparr>))"
  then have "entry = (clazz, ys) \<or> entry \<in> set (arrays s)"
    using set_update_subset_insert[of "arrays s" a "(clazz, ys)"] by auto
  with assms show "case entry of (clazz, xs) \<Rightarrow> \<forall>v \<in> set xs. cell_ok drv clazz v"
    by (auto simp: heap_ok_def)
qed

lemma typed_store:
  assumes "typed drv F s" "arrays s ! a = (clazz, xs)" "cell_ok drv clazz x"
  shows "typed drv F (s\<lparr>arrays := (arrays s)[a := (clazz, xs[k := x])]\<rparr>)"
proof (cases "a < length (arrays s)")
  case True
  then have "(clazz, xs) \<in> set (arrays s)" using assms(2) by (metis nth_mem)
  then have "\<forall>v \<in> set xs. cell_ok drv clazz v"
    using assms(1) by (auto simp: typed_def heap_ok_def)
  then have "\<forall>v \<in> set (xs[k := x]). cell_ok drv clazz v"
    using assms(3) set_update_subset_insert[of xs k x] by blast
  then have heap: "heap_ok drv (s\<lparr>arrays := (arrays s)[a := (clazz, xs[k := x])]\<rparr>)"
    using assms(1) by (intro heap_ok_store) (simp_all add: typed_def)
  have "(fst ((arrays s)[a := (clazz, xs[k := x])] ! b) = fst (arrays s ! b)) \<and>
      length (snd ((arrays s)[a := (clazz, xs[k := x])] ! b)) = length (snd (arrays s ! b))" for b
    using assms(2) True by (cases "a = b") simp_all
  with assms(1) heap show ?thesis by (simp add: typed_def scanner_ok_def chunk_ok_def split: option.splits)
qed (use assms(1) in \<open>simp add: list_update_beyond\<close>)

section \<open>Methods\<close>

text \<open>The scanner is typed and has counted \<open>n\<close> rows.\<close>

definition typed_at :: "('w, 'r) jdbc \<Rightarrow> int \<Rightarrow> int \<Rightarrow> ('w, 'r) jmach \<Rightarrow> bool" where
  "typed_at drv F n s \<longleftrightarrow> typed drv F s \<and> resultNumRows (me s) = n"

lemma typed_db [simp]:
  "typed drv F (s\<lparr>db := w\<rparr>) = typed drv F s" "typed_at drv F n (s\<lparr>db := w\<rparr>) = typed_at drv F n s"
  using typed_cong[of "s\<lparr>db := w\<rparr>" s drv F] by (simp_all add: typed_at_def)

lemma on_db_typed [jtriple_intros]:
  "jtriple (typed drv F) (on_db p) (\<lambda>_. typed drv F) (typed drv F)"
  "jtriple (typed_at drv F n) (on_db p) (\<lambda>_. typed_at drv F n) (typed_at drv F n)"
  by (rule jtriple_on_db; simp)+

lemma set_me_typed:
  assumes "\<And>m. scanContext (f m) = scanContext m \<and> resultNumRows (f m) = resultNumRows m \<and>
      resultChunk (f m) = resultChunk m \<and> resultColumnClassNames (f m) = resultColumnClassNames m"
  shows "jtriple (typed drv F) (set_me f) (\<lambda>_. typed drv F) (typed drv F)"
proof (rule jtriple_put(2))
  fix s assume "typed drv F s"
  with assms typed_cong[of "s\<lparr>me := f (me s)\<rparr>" s drv F] show "typed drv F (s\<lparr>me := f (me s)\<rparr>)" by simp
qed

lemma jtriple_fact: "(b \<Longrightarrow> jtriple P p Q E) \<Longrightarrow> jtriple (\<lambda>s. P s \<and> b) p Q E"
  by (cases b) (simp_all add: jtriple_def)

lemma the_context_typed:
  "jtriple (typed drv F) (the_field scanContext) (\<lambda>ctx s. typed drv F s \<and> statementFetchSize ctx = F) (typed drv F)"
  by (auto simp: jtriple_def java_simps typed_def scanner_ok_def split: option.splits)

lemma store_value_typed [jtriple_intros]:
  "jtriple (typed_at drv F n) (store_value drv a row v) (\<lambda>_. typed_at drv F n) (typed_at drv F n)"
  unfolding jtriple_def
proof (intro allI impI)
  fix s assume s: "typed_at drv F n s"
  obtain clazz xs where a: "arrays s ! a = (clazz, xs)" by fastforce
  have "typed_at drv F n (s\<lparr>arrays := (arrays s)[a := (clazz, xs[k := x])]\<rparr>)"
    if "convert (fp_arith drv) clazz v = Inr x" "storable (instance_of drv) clazz x" for x k
    using typed_store[OF _ a convert_storable_ok[OF that]] s by (simp add: typed_at_def)
  with a s show "case store_value drv a row v s of (Inl e, t) \<Rightarrow> typed_at drv F n t | (Inr u, t) \<Rightarrow> typed_at drv F n t"
    by (simp add: store_value_def jbind_def java_simps split: sum.split)
qed

lemma store_row_typed:
  "jtriple (typed_at drv F n) (store_row drv i k) (\<lambda>_. typed_at drv F n) (typed_at drv F n)"
proof (induction k arbitrary: i)
  case (Suc k)
  have "jtriple (typed_at drv F n)
     (if length chunk \<le> i then jthrow Index_Out_Of_Bounds
       else jbind (the_field resultSet) (\<lambda>r. jbind (on_db (get_object drv r (i + 1))) (\<lambda>v.
         jbind (jget (resultNumRows \<circ> me)) (\<lambda>row.
         jbind (store_value drv (chunk ! i) row v) (\<lambda>_. store_row drv (i + 1) k))))) (\<lambda>_. typed_at drv F n)
     (typed_at drv F n)" for chunk
    by (cases "length chunk \<le> i") (simp_all add: jtriple_keep, (rule jtriple_intros Suc.IH)+)
  then show ?case by (simp, intro jtriple_bind[OF jtriple_keep(4)])
qed (simp add: jtriple_keep)

lemma typed_at_throws:
  "jtriple (typed_at drv F n) p Q (typed_at drv F n) \<Longrightarrow> jtriple (typed_at drv F n) p Q (typed drv F)"
  "jtriple P p (\<lambda>_. typed_at drv F n) E \<Longrightarrow> jtriple P p (\<lambda>_. typed drv F) E"
  by (erule jtriple_weaken; simp add: typed_at_def)+

lemma count_row_typed:
  assumes "n < max 1 F"
  shows "jtriple (typed_at drv F n) (set_me (\<lambda>m. m\<lparr>resultNumRows := resultNumRows m + 1\<rparr>))
     (\<lambda>_. typed_at drv F (n + 1)) (typed drv F)"
  using assms by (intro jtriple_put(2))
    (auto simp: typed_at_def typed_def heap_ok_def scanner_ok_def chunk_ok_def split: option.splits)

lemma chunk_loop_typed:
  "n + int k \<le> max 1 F \<Longrightarrow>
   jtriple (typed_at drv F n) (chunk_loop k drv F c) (\<lambda>_. typed drv F) (typed drv F)"
proof (induction k arbitrary: n)
  case 0
  then show ?case by (simp add: jtriple_def java_simps typed_at_def)
next
  case (Suc k)
  let ?more = "jbind (the_field resultSet) (\<lambda>r. jbind (on_db (rs_next drv r)) (\<lambda>more.
      if more then chunk_loop k drv F c else jret ()))"
  have "jtriple (typed_at drv F (n + 1)) (if more then chunk_loop k drv F c else jret ())
      (\<lambda>_. typed drv F) (typed drv F)" for more
    using Suc.IH[of "n + 1"] Suc.prems by (cases more) (simp_all add: jtriple_def java_simps typed_at_def)
  then have more: "jtriple (typed_at drv F (n + 1)) ?more (\<lambda>_. typed drv F) (typed drv F)"
    by (intro jtriple_bind[OF typed_at_throws(1)[OF jtriple_keep(4)]]
        jtriple_bind[OF typed_at_throws(1)[OF on_db_typed(2)]])
  have "jtriple (typed_at drv F (n + 1)) (if m < F then ?more else jret ()) (\<lambda>_. typed drv F) (typed drv F)" for m
    using more by (cases "m < F") (simp_all add: jtriple_def java_simps typed_at_def)
  then show ?case using Suc.prems
    by simp (intro jtriple_bind[OF typed_at_throws(1)[OF store_row_typed]] jtriple_bind[OF count_row_typed]
        jtriple_bind[OF typed_at_throws(1)[OF jtriple_keep(3)]]; simp)
qed

text \<open>While \<open>open\<close> makes the arrays, it has named as many classes as it has made arrays.\<close>

definition balanced :: "('w, 'r) jmach \<Rightarrow> bool" where
  "balanced s \<longleftrightarrow> map_option length (resultColumnClassNames (me s)) = map_option length (resultChunk (me s)) \<and>
     resultChunk (me s) \<noteq> None"

lemma chunk_ok_grow:
  assumes "chunk_ok F names as s" "length names = length as"
  shows "chunk_ok F (names @ [clazz]) as (s\<lparr>me := m\<rparr>)"
    "chunk_ok F (names @ [clazz]) (as @ [length (arrays s)])
       (s\<lparr>arrays := arrays s @ [(clazz, replicate (nat F) None)], me := m\<rparr>)"
proof -
  have "length (arrays s) \<notin> set as"
    using assms(1) by (auto simp: chunk_ok_def in_set_conv_nth)
  with assms show "chunk_ok F (names @ [clazz]) as (s\<lparr>me := m\<rparr>)"
    "chunk_ok F (names @ [clazz]) (as @ [length (arrays s)])
       (s\<lparr>arrays := arrays s @ [(clazz, replicate (nat F) None)], me := m\<rparr>)"
    by (auto simp: chunk_ok_def nth_append less_Suc_eq)
qed

lemma make_columns_typed:
  "jtriple (\<lambda>s. typed drv F s \<and> balanced s) (make_columns drv F classes) (\<lambda>_. typed drv F) (typed drv F)"
proof (induction classes)
  case Nil
  then show ?case by (simp add: jtriple_def java_simps)
next
  case (Cons clazz rest)
  show ?case unfolding jtriple_def
  proof (intro allI impI)
    fix s assume s: "typed drv F s \<and> balanced s"
    then obtain names as where f: "resultColumnClassNames (me s) = Some names" "resultChunk (me s) = Some as"
      "length names = length as" by (auto simp: balanced_def)
    let ?s1 = "s\<lparr>me := (me s)\<lparr>resultColumnClassNames := Some (names @ [clazz])\<rparr>\<rparr>"
    let ?s2 = "?s1\<lparr>arrays := arrays s @ [(clazz, replicate (nat F) None)],
      me := (me ?s1)\<lparr>resultChunk := Some (as @ [length (arrays s)])\<rparr>\<rparr>"
    from s have "heap_ok drv s" "scanner_ok F s" by (simp_all add: typed_def)
    with f have chunk: "chunk_ok F names as s" by (simp add: scanner_ok_def)
    have "heap_ok drv ?s1" "heap_ok drv ?s2"
      using \<open>heap_ok drv s\<close> by (auto simp: heap_ok_def cell_ok_def)
    moreover have "chunk_ok F (names @ [clazz]) as ?s1"
      "chunk_ok F (names @ [clazz]) (as @ [length (arrays s)]) ?s2"
      using chunk_ok_grow[OF chunk f(3)] by simp_all
    then have "scanner_ok F ?s1" "scanner_ok F ?s2"
      using \<open>scanner_ok F s\<close> f(2) by (simp_all add: scanner_ok_def)
    moreover have "balanced ?s2" using f by (simp add: balanced_def)
    ultimately have s1: "typed drv F ?s1" and s2: "typed drv F ?s2 \<and> balanced ?s2" by (simp_all add: typed_def)
    have "case make_columns drv F rest ?s2 of (Inr u, t) \<Rightarrow> typed drv F t | (Inl e, t) \<Rightarrow> typed drv F t"
      by (rule Cons.IH[unfolded jtriple_def, rule_format, OF s2])
    moreover have "make_columns drv F (clazz # rest) s =
        (if \<not> known_class drv clazz then (Inl (Class_Not_Found clazz), ?s1)
         else if F < 0 then (Inl Negative_Array_Size, ?s1) else make_columns drv F rest ?s2)"
      using f by (simp add: jbind_def java_simps)
    ultimately show "case make_columns drv F (clazz # rest) s of
        (Inr u, t) \<Rightarrow> typed drv F t | (Inl e, t) \<Rightarrow> typed drv F t"
      using s1 by (simp only: split: if_split) simp
  qed
qed

text \<open>The methods of the scanner, whatever state they are called in.\<close>

lemma get_source_typed:
  "jtriple (typed drv F) (get_source key (source_provider drv ctx)) (\<lambda>_. typed drv F) (typed drv F)"
proof -
  have put: "jtriple (typed drv F) (jput (\<lambda>s. s\<lparr>sources := (sources s)(key \<mapsto> c)\<rparr>)) (\<lambda>_. typed drv F) (typed drv F)" for c
  proof (rule jtriple_put(1))
    fix s assume "typed drv F s"
    with typed_cong[of "s\<lparr>sources := (sources s)(key \<mapsto> c)\<rparr>" s drv F]
    show "typed drv F (s\<lparr>sources := (sources s)(key \<mapsto> c)\<rparr>)" by simp
  qed
  have "jtriple (typed drv F) (source_provider drv ctx) (\<lambda>_. typed drv F) (typed drv F)"
    unfolding source_provider_def by (rule jtriple_intros set_me_typed | simp)+
  then show ?thesis unfolding get_source_def
    by (intro jtriple_bind[OF jtriple_keep(3)]) (auto split: option.split intro!: jtriple_keep jtriple_bind put)
qed

lemma jopen_typed: "jtriple (typed drv F) (jopen drv) (\<lambda>_. typed drv F) (typed drv F)"
proof -
  have fresh: "jtriple (typed drv F) (set_me (\<lambda>m. m\<lparr>resultSetMetaData := Some classes,
      resultColumnClassNames := Some [], resultChunk := Some []\<rparr>))
      (\<lambda>_ s. typed drv F s \<and> balanced s) (typed drv F)" for classes
    by (rule jtriple_put(2)) (simp add: typed_def heap_ok_def scanner_ok_def chunk_ok_def balanced_def)
  show ?thesis unfolding jopen_def
    by (rule jtriple_bind[OF the_context_typed] jtriple_fact
        jtriple_bind[OF get_source_typed] jtriple_bind[OF set_me_typed] jtriple_bind[OF on_db_typed(1)]
        jtriple_bind[OF jtriple_keep(5)] jtriple_bind[OF fresh] make_columns_typed | simp)+
qed

lemma getNextChunk_typed: "jtriple (typed drv F) (getNextChunk drv) (\<lambda>_. typed drv F) (typed drv F)"
proof -
  have zero: "jtriple (typed drv F) (set_me (\<lambda>m. m\<lparr>resultNumRows := 0\<rparr>)) (\<lambda>_. typed_at drv F 0) (typed drv F)"
    by (rule jtriple_put(2))
      (simp add: typed_at_def typed_def heap_ok_def scanner_ok_def chunk_ok_def split: option.splits)
  have loop: "jtriple (typed_at drv F 0) (chunk_loop (max 1 (nat F)) drv F c) (\<lambda>_. typed drv F) (typed drv F)" for c
    by (rule chunk_loop_typed) simp
  show ?thesis unfolding getNextChunk_def
    by (rule jtriple_bind[OF the_context_typed] jtriple_fact jtriple_bind[OF jtriple_keep(4)] jtriple_bind[OF zero]
        jtriple_keep(3) | simp only: loop jtriple_bind[OF loop jtriple_keep(3)])+
qed

lemma jclose_typed: "jtriple (typed drv F) (jclose drv) (\<lambda>_. typed drv F) (typed drv F)"
proof -
  have "jtriple (typed drv F) (close_if drv field) (\<lambda>_. typed drv F) (typed drv F)" for field
    unfolding close_if_def
    by (intro jtriple_bind[OF jtriple_keep(3)]) (auto split: option.split intro: jtriple_intros)
  then show ?thesis unfolding jclose_def by (intro jtriple_bind)
qed

lemmas method_typed = jopen_typed getNextChunk_typed jclose_typed

section \<open>Any caller\<close>

text \<open>
  A caller of a scanner: any methods, in any order, whether or not the earlier ones threw.
\<close>

datatype jcall = Call_open | Call_hasNext | Call_getNextChunk | Call_numRows | Call_classNames | Call_close

fun jcalled :: "('w, 'r) jdbc \<Rightarrow> jcall \<Rightarrow> ('w, 'r) jmach \<Rightarrow> ('w, 'r) jmach" where
  "jcalled drv Call_open s = snd (jopen drv s)"
| "jcalled drv Call_hasNext s = snd (hasNext drv s)"
| "jcalled drv Call_getNextChunk s = snd (getNextChunk drv s)"
| "jcalled drv Call_numRows s = snd (getResultNumRows s)"
| "jcalled drv Call_classNames s = snd (getResultColumnClassNames s)"
| "jcalled drv Call_close s = snd (jclose drv s)"

lemma jtriple_snd: "jtriple I p (\<lambda>_. I) I \<Longrightarrow> I s \<Longrightarrow> I (snd (p s))"
  using jtriple_run[of I p "\<lambda>_. I" I s "fst (p s)" "snd (p s)"] by (auto split: sum.splits)

lemma jcalled_typed: "typed drv F s \<Longrightarrow> typed drv F (jcalled drv c s)"
proof (cases c)
  case Call_hasNext
  have "jtriple (typed drv F) (hasNext drv) (\<lambda>_. typed drv F) (typed drv F)"
    unfolding hasNext_def by (rule jtriple_intros)+
  then show "typed drv F s \<Longrightarrow> ?thesis" using Call_hasNext by (simp add: jtriple_snd)
qed (simp_all add: jtriple_snd method_typed getResultNumRows_def getResultColumnClassNames_def java_simps)

lemma calls_typed: "typed drv F s \<Longrightarrow> typed drv F (fold (jcalled drv) calls s)"
  by (induction calls arbitrary: s) (simp_all add: jcalled_typed)

text \<open>The column arrays of a Java scanner are typed: after any sequence of calls of its methods,
  answered or failed and whatever the driver returns, every array of the heap holds nulls and
  instances of its class only; the chunk's arrays are distinct, of the classes the scanner names for
  their columns and as long as the fetch size; and the number of rows it reports is not negative
  and, but for the one row a fetch size of zero lets through, fits in them.\<close>

theorem java_arrays_typed:
  assumes "heap_ok drv s" "me s = JDBCScanner_new loc (Some ctx)"
  shows "heap_ok drv (fold (jcalled drv) calls s) \<and>
    scanner_ok (statementFetchSize ctx) (fold (jcalled drv) calls s)"
proof -
  have "typed drv (statementFetchSize ctx) s"
    using assms by (simp add: typed_def scanner_ok_def JDBCScanner_new_def)
  from calls_typed[OF this] show ?thesis by (simp add: typed_def)
qed

theorem java_arrays_typed_witness:
  "\<exists>t. t = fold (jcalled (list_jdbc demo_classes demo_rows no_floats))
      [Call_open, Call_hasNext, Call_getNextChunk, Call_close, Call_getNextChunk] demo_jmach \<and>
    heap_ok (list_jdbc demo_classes demo_rows no_floats) t \<and> scanner_ok 2 t"
proof -
  have d: "heap_ok (list_jdbc demo_classes demo_rows no_floats) demo_jmach"
    "me demo_jmach = JDBCScanner_new (Some ''/d.jar'') (Some demo_ctx)" "statementFetchSize demo_ctx = 2"
    by (simp_all add: heap_ok_def demo_jmach_def demo_ctx_def)
  let ?t = "fold (jcalled (list_jdbc demo_classes demo_rows no_floats))
      [Call_open, Call_hasNext, Call_getNextChunk, Call_close, Call_getNextChunk] demo_jmach"
  have "heap_ok (list_jdbc demo_classes demo_rows no_floats) ?t \<and> scanner_ok (statementFetchSize demo_ctx) ?t"
    by (rule java_arrays_typed[OF d(1,2)])
  then show ?thesis unfolding d(3) by blast
qed

end
