(* ===== verification/Java_Scanners.thy ===== *)
theory Java_Scanners
  imports Java_Typing
begin

text \<open>
  Several scanners on one Java machine. The bridge makes a scanner for every data source; the
  objects share the database, the cache of data sources and the heap, on which each allocates the
  arrays of its own columns. One C++ thread calls them, a whole method at a time, in any order.
\<close>

section \<open>The footprint of a method\<close>

text \<open>The addresses of the arrays a scanner refers to.\<close>

definition cells :: "jscanner \<Rightarrow> nat set" where
  "cells m = (case resultChunk m of None \<Rightarrow> {} | Some as \<Rightarrow> set as)"

text \<open>
  What a method that started in \<open>s0\<close> may have done to the heap: the arrays that were there keep
  their class and length, those the scanner did not refer to keep their elements too, and what the
  scanner refers to now it referred to then or is new.
\<close>

definition footprint :: "('w, 'r) jmach \<Rightarrow> nat set" where
  "footprint s = cells (me s) \<union> {length (arrays s)..}"

definition same_array :: "nat \<Rightarrow> ('w, 'r) jmach \<Rightarrow> ('w, 'r) jmach \<Rightarrow> bool" where
  "same_array a s t \<longleftrightarrow> fst (arrays t ! a) = fst (arrays s ! a) \<and>
     length (snd (arrays t ! a)) = length (snd (arrays s ! a)) \<and>
     (a \<notin> footprint s \<longrightarrow> arrays t ! a = arrays s ! a)"

definition confined :: "('w, 'r) jmach \<Rightarrow> ('w, 'r) jmach \<Rightarrow> bool" where
  "confined s0 s \<longleftrightarrow> length (arrays s0) \<le> length (arrays s) \<and> cells (me s) \<subseteq> footprint s0 \<and>
     (\<forall>a < length (arrays s0). same_array a s0 s)"

lemma confined_start: "confined s s"
  by (simp add: confined_def footprint_def same_array_def)

lemma confined_cong:
  "confined s0 s \<Longrightarrow> arrays t = arrays s \<Longrightarrow> resultChunk (me t) = resultChunk (me s) \<Longrightarrow> confined s0 t"
  by (simp add: confined_def same_array_def cells_def)

lemma confined_store:
  assumes "confined s0 s" "a \<in> footprint s0" "arrays s ! a = (clazz, xs)"
  shows "confined s0 (s\<lparr>arrays := (arrays s)[a := (clazz, xs[k := x])]\<rparr>)"
proof -
  have "same_array b s0 (s\<lparr>arrays := (arrays s)[a := (clazz, xs[k := x])]\<rparr>)" if "b < length (arrays s0)" for b
    using assms that by (cases "a = b") (auto simp: confined_def same_array_def)
  then show ?thesis using assms(1) by (simp add: confined_def)
qed

lemma confined_alloc:
  assumes "confined s0 s"
  shows "confined s0 (s\<lparr>arrays := arrays s @ [x]\<rparr>)"
  using assms by (auto simp: confined_def same_array_def nth_append)

section \<open>Methods\<close>

lemma confined_db [jtriple_intros]: "jtriple (confined s0) (on_db p) (\<lambda>_. confined s0) (confined s0)"
  by (rule jtriple_on_db; erule confined_cong; simp)

lemma confined_set_me:
  assumes "\<And>m. resultChunk (f m) = resultChunk m"
  shows "jtriple (confined s0) (set_me f) (\<lambda>_. confined s0) (confined s0)"
  by (rule jtriple_put(2), erule confined_cong) (simp_all add: assms)

lemma confined_chunk:
  "jtriple (confined s0) (the_field resultChunk) (\<lambda>as s. confined s0 s \<and> set as \<subseteq> footprint s0) (confined s0)"
  by (auto simp: jtriple_def java_simps confined_def cells_def split: option.splits)

lemma confined_set_chunk:
  assumes "\<And>m. resultChunk (f m) = Some as" "set as \<subseteq> footprint s0"
  shows "jtriple (confined s0) (set_me f) (\<lambda>_. confined s0) (confined s0)"
  using assms by (intro jtriple_put(2)) (simp add: confined_def same_array_def cells_def)

lemma store_value_confined:
  assumes "a \<in> footprint s0"
  shows "jtriple (confined s0) (store_value drv a row v) (\<lambda>_. confined s0) (confined s0)"
  unfolding jtriple_def
proof (intro allI impI)
  fix s assume s: "confined s0 s"
  obtain clazz xs where a: "arrays s ! a = (clazz, xs)" by fastforce
  with s confined_store[OF s assms a]
  show "case store_value drv a row v s of (Inl e, t) \<Rightarrow> confined s0 t | (Inr u, t) \<Rightarrow> confined s0 t"
    by (simp add: store_value_def jbind_def java_simps split: sum.split)
qed

lemma store_row_confined: "jtriple (confined s0) (store_row drv i k) (\<lambda>_. confined s0) (confined s0)"
proof (induction k arbitrary: i)
  case (Suc k)
  have "jtriple (confined s0)
     (if length chunk \<le> i then jthrow Index_Out_Of_Bounds
       else jbind (the_field resultSet) (\<lambda>r. jbind (on_db (get_object drv r (i + 1))) (\<lambda>v.
         jbind (jget (resultNumRows \<circ> me)) (\<lambda>row.
         jbind (store_value drv (chunk ! i) row v) (\<lambda>_. store_row drv (i + 1) k))))) (\<lambda>_. confined s0) (confined s0)"
    if "set chunk \<subseteq> footprint s0" for chunk
  proof (cases "length chunk \<le> i")
    case False
    with that have "chunk ! i \<in> footprint s0" by (meson nth_mem not_le subsetD)
    with False show ?thesis
      by simp (rule jtriple_intros store_value_confined Suc.IH | assumption)+
  qed (simp add: jtriple_keep)
  then show ?case by simp (intro jtriple_bind[OF confined_chunk] jtriple_fact)
qed (simp add: jtriple_keep)

lemma chunk_loop_confined: "jtriple (confined s0) (chunk_loop k drv F c) (\<lambda>_. confined s0) (confined s0)"
proof (induction k)
  case (Suc k)
  let ?more = "jbind (the_field resultSet) (\<lambda>r. jbind (on_db (rs_next drv r)) (\<lambda>more.
      if more then chunk_loop k drv F c else jret ()))"
  have "jtriple (confined s0) (if more then chunk_loop k drv F c else jret ()) (\<lambda>_. confined s0) (confined s0)" for more
    using Suc.IH by (cases more) (simp_all add: jtriple_keep)
  then have more: "jtriple (confined s0) ?more (\<lambda>_. confined s0) (confined s0)"
    by (intro jtriple_bind[OF jtriple_keep(4)] jtriple_bind[OF confined_db])
  have "jtriple (confined s0) (if m < F then ?more else jret ()) (\<lambda>_. confined s0) (confined s0)" for m
    using more by (cases "m < F") (simp_all add: jtriple_keep)
  then show ?case
    by simp (intro jtriple_bind[OF store_row_confined] jtriple_bind[OF confined_set_me] jtriple_bind[OF jtriple_keep(3)]; simp)
qed (simp add: jtriple_keep)

lemma make_columns_confined: "jtriple (confined s0) (make_columns drv n classes) (\<lambda>_. confined s0) (confined s0)"
proof (induction classes)
  case (Cons clazz rest)
  have fresh: "jtriple (confined s0) (jget (\<lambda>s. length (arrays s)))
      (\<lambda>a s. confined s0 s \<and> a \<in> footprint s0) (confined s0)"
    by (simp add: jtriple_def java_simps) (simp add: confined_def footprint_def)
  have alloc: "jtriple (confined s0) (jput (\<lambda>s. s\<lparr>arrays := arrays s @ [x]\<rparr>)) (\<lambda>_. confined s0) (confined s0)" for x
    by (rule jtriple_put(1)) (rule confined_alloc)
  have link: "jtriple (confined s0) (set_me (\<lambda>m. m\<lparr>resultChunk := Some (chunk @ [a])\<rparr>)) (\<lambda>_. confined s0) (confined s0)"
    if "a \<in> footprint s0" "set chunk \<subseteq> footprint s0" for a chunk
    by (rule confined_set_chunk[where as = "chunk @ [a]"]) (use that in auto)
  have column: "jtriple (confined s0) (jbind (jget (\<lambda>s. length (arrays s))) (\<lambda>a.
       jbind (jput (\<lambda>s. s\<lparr>arrays := arrays s @ [(clazz, replicate (nat n) None)]\<rparr>)) (\<lambda>_.
       jbind (the_field resultChunk) (\<lambda>chunk.
       jbind (set_me (\<lambda>m. m\<lparr>resultChunk := Some (chunk @ [a])\<rparr>)) (\<lambda>_. make_columns drv n rest)))))
      (\<lambda>_. confined s0) (confined s0)"
    by (intro jtriple_bind[OF fresh] jtriple_fact jtriple_bind[OF alloc] jtriple_bind[OF confined_chunk]
        jtriple_bind[OF link] Cons.IH)
  show ?case unfolding make_columns.simps
    by (rule jtriple_bind[OF jtriple_keep(4)], rule jtriple_bind[OF confined_set_me])
      (simp_all add: column jtriple_keep)
qed (simp add: jtriple_keep)

lemma get_source_confined:
  "jtriple (confined s0) (get_source key (source_provider drv ctx)) (\<lambda>_. confined s0) (confined s0)"
proof -
  have put: "jtriple (confined s0) (jput (\<lambda>s. s\<lparr>sources := (sources s)(key \<mapsto> c)\<rparr>)) (\<lambda>_. confined s0) (confined s0)" for c
    by (rule jtriple_put(1), erule confined_cong) simp_all
  have "jtriple (confined s0) (source_provider drv ctx) (\<lambda>_. confined s0) (confined s0)"
    unfolding source_provider_def by (rule jtriple_intros confined_set_me | simp)+
  then show ?thesis unfolding get_source_def
    by (intro jtriple_bind[OF jtriple_keep(3)]) (auto split: option.split intro!: jtriple_keep jtriple_bind put)
qed

lemma jopen_confined: "jtriple (confined s0) (jopen drv) (\<lambda>_. confined s0) (confined s0)"
proof -
  have fresh: "jtriple (confined s0) (set_me (\<lambda>m. m\<lparr>resultSetMetaData := Some classes,
      resultColumnClassNames := Some [], resultChunk := Some []\<rparr>)) (\<lambda>_. confined s0) (confined s0)" for classes
    by (rule confined_set_chunk[where as = "[]"]) simp_all
  show ?thesis unfolding jopen_def
    by (rule jtriple_bind[OF jtriple_keep(4)] jtriple_bind[OF get_source_confined] jtriple_bind[OF confined_set_me]
        jtriple_bind[OF confined_db] jtriple_bind[OF jtriple_keep(5)] jtriple_bind[OF fresh] make_columns_confined | simp)+
qed

lemma getNextChunk_confined: "jtriple (confined s0) (getNextChunk drv) (\<lambda>_. confined s0) (confined s0)"
  unfolding getNextChunk_def
  by (rule jtriple_bind[OF jtriple_keep(4)] jtriple_bind[OF confined_set_me] jtriple_bind[OF chunk_loop_confined]
      jtriple_keep(3) | simp)+

lemma jclose_confined: "jtriple (confined s0) (jclose drv) (\<lambda>_. confined s0) (confined s0)"
proof -
  have "jtriple (confined s0) (close_if drv field) (\<lambda>_. confined s0) (confined s0)" for field
    unfolding close_if_def
    by (intro jtriple_bind[OF jtriple_keep(3)]) (auto split: option.split intro: jtriple_intros)
  then show ?thesis unfolding jclose_def by (intro jtriple_bind)
qed

lemma hasNext_confined: "jtriple (confined s0) (hasNext drv) (\<lambda>_. confined s0) (confined s0)"
  unfolding hasNext_def by (rule jtriple_intros)+

lemma jcalled_confined: "confined s (jcalled drv c s)"
proof -
  note l = jtriple_snd[where I = "confined s" and s = s, OF _ confined_start]
  show ?thesis
    by (cases c) (simp_all add: l jopen_confined getNextChunk_confined jclose_confined hasNext_confined confined_start
        getResultNumRows_def getResultColumnClassNames_def java_simps)
qed

section \<open>The machine\<close>

text \<open>
  The scanners made so far, in order, and what they share. A client asks the bridge for one more, for
  a driver file and a scan context, or calls a method of one of them.
\<close>

type_synonym ('w, 'r) jvm_state = "jscanner list \<times> ('w, 'r) jmach"

datatype jact = Get_Scanner "string option" scan_ctx_java | Call_On nat jcall

definition jvm_step :: "('w, 'r) jdbc \<Rightarrow> jact \<Rightarrow> ('w, 'r) jvm_state \<Rightarrow> ('w, 'r) jvm_state" where
  "jvm_step drv act st =
     (case (act, st) of
        (Get_Scanner loc ctx, objs, s) \<Rightarrow>
          (case getScanner (Some ctx) loc of (Inr new, _) \<Rightarrow> (objs @ [new], s) | (Inl _, _) \<Rightarrow> (objs, s))
      | (Call_On i c, objs, s) \<Rightarrow>
          (if i < length objs
           then let t = jcalled drv c (s\<lparr>me := objs ! i\<rparr>) in (objs[i := me t], t)
           else (objs, s)))"

definition jvm_run :: "('w, 'r) jdbc \<Rightarrow> jact list \<Rightarrow> ('w, 'r) jvm_state \<Rightarrow> ('w, 'r) jvm_state" where
  "jvm_run drv acts st = fold (jvm_step drv) acts st"

lemma jvm_step_simps [simp]:
  "jvm_step drv (Get_Scanner loc ctx) (objs, s) = (objs @ [JDBCScanner_new loc (Some ctx)], s)"
  "jvm_step drv (Call_On i c) (objs, s) =
     (if i < length objs then let t = jcalled drv c (s\<lparr>me := objs ! i\<rparr>) in (objs[i := me t], t) else (objs, s))"
  by (simp_all add: jvm_step_def getScanner_def jget_def)

text \<open>Every scanner is typed for the fetch size of its own context, and no two refer to the same array.\<close>

definition fetch_size :: "jscanner \<Rightarrow> int" where
  "fetch_size m = (case scanContext m of None \<Rightarrow> 0 | Some ctx \<Rightarrow> statementFetchSize ctx)"

definition apart :: "('w, 'r) jdbc \<Rightarrow> ('w, 'r) jvm_state \<Rightarrow> bool" where
  "apart drv st = (case st of (objs, s) \<Rightarrow>
     heap_ok drv s \<and>
     (\<forall>m \<in> set objs. scanner_ok (fetch_size m) (s\<lparr>me := m\<rparr>)) \<and>
     (\<forall>i < length objs. \<forall>j < length objs. i \<noteq> j \<longrightarrow> cells (objs ! i) \<inter> cells (objs ! j) = {}))"


lemma cells_bound: "scanner_ok F (s\<lparr>me := m\<rparr>) \<Longrightarrow> a \<in> cells m \<Longrightarrow> a < length (arrays s)"
  by (auto simp: scanner_ok_def chunk_ok_def cells_def in_set_conv_nth split: option.splits)

lemma scanner_ok_size: "scanner_ok F (s\<lparr>me := m\<rparr>) \<Longrightarrow> fetch_size m = F"
  by (auto simp: scanner_ok_def fetch_size_def)

text \<open>A method of one scanner leaves alone the arrays another one refers to.\<close>

lemma confined_others:
  assumes "confined (s\<lparr>me := m\<rparr>) t" "scanner_ok F (s\<lparr>me := m'\<rparr>)" "cells m \<inter> cells m' = {}"
  shows "\<forall>a \<in> cells m'. arrays t ! a = arrays s ! a" "scanner_ok F (t\<lparr>me := m'\<rparr>)"
    "cells (me t) \<inter> cells m' = {}"
proof -
  have keep: "arrays t ! a = arrays s ! a \<and> a < length (arrays t)" if "a \<in> cells m'" for a
    using cells_bound[OF assms(2) that] assms(1,3) that
    by (auto simp: confined_def same_array_def footprint_def)
  then show "\<forall>a \<in> cells m'. arrays t ! a = arrays s ! a" by simp
  show "scanner_ok F (t\<lparr>me := m'\<rparr>)"
    using assms(2) keep by (auto simp: scanner_ok_def chunk_ok_def cells_def split: option.splits)
  show "cells (me t) \<inter> cells m' = {}"
    using assms(1,3) cells_bound[OF assms(2)] by (fastforce simp: confined_def footprint_def)
qed

lemma typed_me: "heap_ok drv s \<Longrightarrow> scanner_ok F (s\<lparr>me := m\<rparr>) \<Longrightarrow> typed drv F (s\<lparr>me := m\<rparr>)"
  by (simp add: typed_def heap_ok_def)

lemma call_apart:
  assumes "apart drv (objs, s)" "i < length objs" "confined (s\<lparr>me := objs ! i\<rparr>) t"
    and "\<And>F. typed drv F (s\<lparr>me := objs ! i\<rparr>) \<Longrightarrow> typed drv F t"
  shows "apart drv (objs[i := me t], t)"
proof -
  let ?m = "objs ! i"
  have ok: "scanner_ok (fetch_size m) (s\<lparr>me := m\<rparr>)" if "m \<in> set objs" for m
    using assms(1) that by (simp add: apart_def)
  have disj: "cells ?m \<inter> cells (objs ! j) = {}" if "j < length objs" "j \<noteq> i" for j
    using assms(1,2) that by (simp add: apart_def)
  have "typed drv (fetch_size ?m) (s\<lparr>me := ?m\<rparr>)"
    using assms(1,2) ok[of ?m] by (simp add: apart_def typed_me)
  from assms(4)[OF this] have t: "heap_ok drv t" "scanner_ok (fetch_size ?m) (t\<lparr>me := me t\<rparr>)"
    by (simp_all add: typed_def)
  note others = confined_others[OF assms(3) ok disj, OF nth_mem]
  have "scanner_ok (fetch_size m) (t\<lparr>me := m\<rparr>)" if m: "m \<in> set (objs[i := me t])" for m
  proof -
    obtain j where j: "j < length objs" "m = objs[i := me t] ! j" using m by (auto simp: in_set_conv_nth)
    show ?thesis
    proof (cases "j = i")
      case True
      with j assms(2) t(2) scanner_ok_size[OF t(2)] show ?thesis by simp
    next
      case False
      with j others(2)[of j] show ?thesis by simp
    qed
  qed
  moreover have "cells (objs[i := me t] ! j) \<inter> cells (objs[i := me t] ! k) = {}"
    if "j < length objs" "k < length objs" "j \<noteq> k" for j k
    using that assms(1,2) others(3)[of j] others(3)[of k]
    by (cases "j = i"; cases "k = i") (auto simp: apart_def)
  ultimately show ?thesis using t(1) by (simp add: apart_def)
qed

lemma get_scanner_apart:
  assumes "apart drv (objs, s)"
  shows "apart drv (objs @ [JDBCScanner_new loc (Some ctx)], s)"
proof -
  have none: "cells (JDBCScanner_new loc (Some ctx)) = {}" by (simp add: cells_def JDBCScanner_new_def)
  have "scanner_ok (fetch_size (JDBCScanner_new loc (Some ctx))) (s\<lparr>me := JDBCScanner_new loc (Some ctx)\<rparr>)"
    by (simp add: scanner_ok_def fetch_size_def JDBCScanner_new_def)
  with assms none show ?thesis by (auto simp: apart_def nth_append less_Suc_eq)
qed

lemma step_apart: "apart drv (objs, s) \<Longrightarrow> apart drv (jvm_step drv act (objs, s))"
  by (cases act) (simp_all add: get_scanner_apart Let_def call_apart jcalled_confined jcalled_typed)

lemma run_apart: "apart drv st \<Longrightarrow> apart drv (jvm_run drv acts st)"
proof (induction acts arbitrary: st)
  case (Cons act acts)
  obtain objs s where "st = (objs, s)" by fastforce
  with Cons step_apart[of drv objs s act] show ?case by (simp add: jvm_run_def)
qed (simp add: jvm_run_def)

text \<open>Whatever is done with the others leaves a scanner and its chunk as they were.\<close>

definition undisturbed :: "nat \<Rightarrow> ('w, 'r) jvm_state \<Rightarrow> ('w, 'r) jvm_state \<Rightarrow> bool" where
  "undisturbed j st st' \<longleftrightarrow> j < length (fst st') \<and> fst st' ! j = fst st ! j \<and>
     (\<forall>a \<in> cells (fst st ! j). arrays (snd st') ! a = arrays (snd st) ! a)"

lemma step_undisturbed:
  assumes "apart drv (objs, s)" "j < length objs" "\<forall>c. act \<noteq> Call_On j c"
  shows "undisturbed j (objs, s) (jvm_step drv act (objs, s))"
proof (cases act)
  case (Get_Scanner loc ctx)
  with assms(2) show ?thesis by (simp add: undisturbed_def nth_append)
next
  case (Call_On i c)
  have "\<forall>a \<in> cells (objs ! j). arrays (jcalled drv c (s\<lparr>me := objs ! i\<rparr>)) ! a = arrays s ! a" if "i < length objs"
  proof (rule confined_others(1)[OF jcalled_confined])
    show "scanner_ok (fetch_size (objs ! j)) (s\<lparr>me := objs ! j\<rparr>)" using assms(1,2) by (simp add: apart_def)
    show "cells (objs ! i) \<inter> cells (objs ! j) = {}"
      using assms Call_On that by (auto simp: apart_def)
  qed
  with assms(2,3) Call_On show ?thesis by (simp add: undisturbed_def Let_def)
qed

lemma undisturbed_trans:
  "undisturbed j st st' \<Longrightarrow> undisturbed j st' st'' \<Longrightarrow> undisturbed j st st''"
  by (simp add: undisturbed_def)

lemma run_undisturbed:
  assumes "apart drv st" "j < length (fst st)" "\<forall>c. Call_On j c \<notin> set acts"
  shows "undisturbed j st (jvm_run drv acts st)"
  using assms
proof (induction acts arbitrary: st)
  case (Cons act acts)
  obtain objs s where st: "st = (objs, s)" by fastforce
  have "undisturbed j st (jvm_step drv act st)"
    unfolding st by (rule step_undisturbed) (use Cons.prems st in auto)
  moreover from this have "undisturbed j (jvm_step drv act st) (jvm_run drv acts (jvm_step drv act st))"
    using Cons.prems st step_apart[of drv objs s act] by (intro Cons.IH) (auto simp: undisturbed_def)
  ultimately show ?case unfolding jvm_run_def fold_simps comp_def by (rule undisturbed_trans)
qed (simp add: undisturbed_def jvm_run_def)

lemma undisturbed_rows:
  "undisturbed j st st' \<Longrightarrow> resultChunk (fst st ! j) = Some as \<Longrightarrow> rows_in as k (snd st') = rows_in as k (snd st)"
  by (simp add: undisturbed_def rows_in_def cells_def)

section \<open>What the scanners promise each other\<close>

text \<open>C16. The scanners of one Java machine keep apart. However many are made and whatever methods are
  called on them, in any order, answered or failed and whatever the driver returns: every array of
  the heap holds nulls and instances of its class only; each scanner's chunk is of distinct arrays,
  of the classes it names for its columns and as long as its fetch size, and its row count fits in
  them; no two scanners share an array; and further calls of the others leave a scanner as it is,
  with every row of the chunk it has handed out.\<close>

theorem scanners_stay_apart:
  assumes "arrays m0 = []" "jvm_run drv acts ([], m0) = (objs, s)"
  shows "heap_ok drv s \<and>
    (\<forall>m \<in> set objs. scanner_ok (fetch_size m) (s\<lparr>me := m\<rparr>)) \<and>
    (\<forall>i < length objs. \<forall>j < length objs. i \<noteq> j \<longrightarrow> cells (objs ! i) \<inter> cells (objs ! j) = {}) \<and>
    (\<forall>j < length objs. \<forall>others as k. (\<forall>c. Call_On j c \<notin> set others) \<and> resultChunk (objs ! j) = Some as \<longrightarrow>
       (case jvm_run drv others (objs, s) of (objs', s') \<Rightarrow>
          objs' ! j = objs ! j \<and> rows_in as k s' = rows_in as k s))"
proof -
  have "apart drv ([], m0)" using assms(1) by (simp add: apart_def heap_ok_def)
  from run_apart[OF this, of acts] have a: "apart drv (objs, s)" unfolding assms(2) .
  have "case jvm_run drv others (objs, s) of (objs', s') \<Rightarrow> objs' ! j = objs ! j \<and> rows_in as k s' = rows_in as k s"
    if "j < length objs" "\<forall>c. Call_On j c \<notin> set others" "resultChunk (objs ! j) = Some as" for j others as k
  proof -
    have u: "undisturbed j (objs, s) (jvm_run drv others (objs, s))"
      using a that by (intro run_undisturbed) simp_all
    from undisturbed_rows[OF this, of as k] u that(3) show ?thesis by (auto simp: undisturbed_def)
  qed
  with a show ?thesis by (simp add: apart_def)
qed

text \<open>Two scanners: the second reads a chunk while the first one's is being looked at.\<close>

definition two_scans :: "jact list" where
  "two_scans = [Get_Scanner None demo_ctx, Get_Scanner None demo_ctx, Call_On 0 Call_open, Call_On 0 Call_hasNext,
     Call_On 0 Call_getNextChunk, Call_On 1 Call_open]"

theorem scanners_stay_apart_witness:
  "case jvm_run (list_jdbc demo_classes demo_rows no_floats) two_scans ([], demo_jmach) of (objs, s) \<Rightarrow>
     map resultChunk objs = [Some [0, 1], Some [2, 3]] \<and> resultNumRows (objs ! 0) = 2 \<and>
     (case jvm_run (list_jdbc demo_classes demo_rows no_floats) [Call_On 1 Call_hasNext, Call_On 1 Call_getNextChunk] (objs, s)
      of (objs', s') \<Rightarrow> objs' ! 0 = objs ! 0 \<and> rows_in [0, 1] 2 s' = rows_in [0, 1] 2 s)"
proof -
  let ?drv = "list_jdbc demo_classes demo_rows no_floats"
  obtain objs s where run: "jvm_run ?drv two_scans ([], demo_jmach) = (objs, s)" by fastforce
  have "map resultChunk (fst (jvm_run ?drv two_scans ([], demo_jmach))) = [Some [0, 1], Some [2, 3]] \<and>
      resultNumRows (fst (jvm_run ?drv two_scans ([], demo_jmach)) ! 0) = 2"
    by (simp add: two_scans_def jvm_run_def Let_def demo_jmach_def demo_ctx_def demo_classes_def list_jdbc_def jopen_def
        getNextChunk_def hasNext_def jbind_def java_simps on_db_def get_source_def source_provider_def JDBCScanner_new_def
        demo_rows_def store_value_def convert_def storable_def numeral_eq_Suc)
  then have chunks: "map resultChunk objs = [Some [0, 1], Some [2, 3]]" "resultNumRows (objs ! 0) = 2"
    unfolding run by simp_all
  from chunks(1) have j: "0 < length objs" "resultChunk (objs ! 0) = Some [0, 1]"
    by (auto simp: map_eq_Cons_conv)
  have "arrays demo_jmach = []" by (simp add: demo_jmach_def)
  from scanners_stay_apart[OF this run] j chunks run show ?thesis by simp
qed

end
