(* ===== verification/Java_Interleaving.thy ===== *)
theory Java_Interleaving
  imports Java_Scanners
begin

text \<open>
  Scans that take turns. A driver keeps the results of different connections apart; over such a
  driver a client reads one scanner batch by batch, and between its calls, and while it holds a
  batch, the other scanners are used in whatever way.
\<close>

section \<open>Handles of other scanners\<close>

text \<open>The connection, statement and result set a scanner holds.\<close>

definition handles :: "jscanner \<Rightarrow> nat set" where
  "handles m = set_option (connection m) \<union> set_option (statement m) \<union> set_option (resultSet m)"

text \<open>
  What a driver documents of handles it has given out: while those of \<open>H\<close> are in use it hands out
  others, and work on others leaves them in the state they are in, here a predicate \<open>I\<close>.
\<close>

definition keeps :: "('w \<Rightarrow> bool) \<Rightarrow> nat set \<Rightarrow> ('a \<Rightarrow> nat set) \<Rightarrow> ('w, 'a) java \<Rightarrow> bool" where
  "keeps I H new p \<longleftrightarrow> (\<forall>w r w'. I w \<and> p w = (r, w') \<longrightarrow> I w' \<and> (\<forall>a. r = Inr a \<longrightarrow> new a \<inter> H = {}))"

definition isolated :: "('w, 'r) jdbc \<Rightarrow> nat set \<Rightarrow> ('w \<Rightarrow> bool) \<Rightarrow> bool" where
  "isolated drv H I \<longleftrightarrow>
     (\<forall>c. keeps I H (\<lambda>_. {}) (new_source drv c)) \<and>
     (\<forall>c. keeps I H (\<lambda>h. {h}) (get_connection drv c)) \<and>
     (\<forall>h. h \<notin> H \<longrightarrow>
        keeps I H (\<lambda>st. {st}) (create_statement drv h) \<and>
        (\<forall>n. keeps I H (\<lambda>_. {}) (set_fetch_size drv h n)) \<and>
        (\<forall>q. keeps I H (\<lambda>_. {}) (execute_sql drv h q)) \<and>
        keeps I H set_option (get_result_set drv h) \<and>
        keeps I H (\<lambda>_. {}) (column_classes drv h) \<and>
        keeps I H (\<lambda>_. {}) (rs_next drv h) \<and>
        (\<forall>i. keeps I H (\<lambda>_. {}) (get_object drv h i)) \<and>
        keeps I H (\<lambda>_. {}) (close_handle drv h))"

text \<open>A scanner that holds none of the handles of \<open>H\<close>.\<close>

definition foreign :: "nat set \<Rightarrow> ('w \<Rightarrow> bool) \<Rightarrow> ('w, 'r) jmach \<Rightarrow> bool" where
  "foreign H I s \<longleftrightarrow> handles (me s) \<inter> H = {} \<and> I (db s)"

lemma foreign_db:
  fixes p :: "('w, 'a) java"
  assumes "keeps I H new p"
  shows "jtriple (foreign H I) (on_db p :: (('w, 'r) jmach, 'a) java) (\<lambda>a s. foreign H I s \<and> new a \<inter> H = {}) (foreign H I)"
proof (rule jtriple_on_db)
  have k: "I (db s) \<Longrightarrow> p (db s) = (r, w) \<Longrightarrow> I w \<and> (\<forall>a. r = Inr a \<longrightarrow> new a \<inter> H = {})" for s :: "('w, 'r) jmach" and r w
    using assms unfolding keeps_def by blast
  show "foreign H I (s\<lparr>db := w\<rparr>) \<and> new a \<inter> H = {}" if "foreign H I s" "p (db s) = (Inr a, w)" for s :: "('w, 'r) jmach" and a w
    using k[OF _ that(2)] that(1) by (simp add: foreign_def)
  show "foreign H I (s\<lparr>db := w\<rparr>)" if "foreign H I s" "p (db s) = (Inl e, w)" for s :: "('w, 'r) jmach" and e w
    using k[OF _ that(2)] that(1) by (simp add: foreign_def)
qed

lemma foreign_db_unit:
  "keeps I H (\<lambda>_. {}) p \<Longrightarrow> jtriple (foreign H I) (on_db p) (\<lambda>_. foreign H I) (foreign H I)"
  using foreign_db[of I H "\<lambda>_. {}" p] by simp

lemma foreign_set_me:
  assumes "\<And>m. handles (f m) \<subseteq> handles m \<union> - H"
  shows "jtriple (foreign H I) (set_me f) (\<lambda>_. foreign H I) (foreign H I)"
  using assms by (intro jtriple_put(2)) (fastforce simp: foreign_def)

lemma foreign_field:
  "jtriple (foreign H I) (the_field resultSet) (\<lambda>h s. foreign H I s \<and> h \<notin> H) (foreign H I)"
  by (auto simp: jtriple_def java_simps foreign_def handles_def split: option.splits)

lemma foreign_arrays:
  "(\<And>s. me (f s) = me s \<and> db (f s) = db s) \<Longrightarrow> jtriple (foreign H I) (jput f) (\<lambda>_. foreign H I) (foreign H I)"
  by (intro jtriple_put(1)) (simp add: foreign_def)

text \<open>Storing a value changes neither the scanner nor the database.\<close>

lemma store_value_only_arrays:
  assumes "\<And>s A. J (s\<lparr>arrays := A\<rparr>) = J s"
  shows "jtriple J (store_value drv a row v) (\<lambda>_. J) J"
  unfolding store_value_def
  by (intro jtriple_bind[OF jtriple_keep(3)])
    (auto simp: assms jtriple_keep split: prod.split sum.split intro!: jtriple_put(1))

lemma foreign_store_value: "jtriple (foreign H I) (store_value drv a row v) (\<lambda>_. foreign H I) (foreign H I)"
  by (rule store_value_only_arrays) (simp add: foreign_def)

section \<open>Their methods\<close>

lemma jtriple_if: "(b \<Longrightarrow> jtriple P p Q E) \<Longrightarrow> (\<not> b \<Longrightarrow> jtriple P q Q E) \<Longrightarrow> jtriple P (if b then p else q) Q E"
  by simp

lemmas jtriple_read = jtriple_bind[OF jtriple_keep(3)] jtriple_bind[OF jtriple_keep(4)] jtriple_bind[OF jtriple_keep(5)]

text \<open>What the interface says of the single calls, as triples.\<close>

lemma foreign_calls:
  assumes "isolated drv H I"
  shows "jtriple (foreign H I) (on_db (new_source drv c)) (\<lambda>_. foreign H I) (foreign H I)"
    "jtriple (foreign H I) (on_db (get_connection drv c)) (\<lambda>h s. foreign H I s \<and> h \<notin> H) (foreign H I)"
    "h \<notin> H \<Longrightarrow> jtriple (foreign H I) (on_db (create_statement drv h)) (\<lambda>st s. foreign H I s \<and> st \<notin> H) (foreign H I)"
    "h \<notin> H \<Longrightarrow> jtriple (foreign H I) (on_db (set_fetch_size drv h n)) (\<lambda>_. foreign H I) (foreign H I)"
    "h \<notin> H \<Longrightarrow> jtriple (foreign H I) (on_db (execute_sql drv h q)) (\<lambda>_. foreign H I) (foreign H I)"
    "h \<notin> H \<Longrightarrow> jtriple (foreign H I) (on_db (get_result_set drv h))
       (\<lambda>rs s. foreign H I s \<and> set_option rs \<inter> H = {}) (foreign H I)"
    "h \<notin> H \<Longrightarrow> jtriple (foreign H I) (on_db (column_classes drv h)) (\<lambda>_. foreign H I) (foreign H I)"
    "h \<notin> H \<Longrightarrow> jtriple (foreign H I) (on_db (rs_next drv h)) (\<lambda>_. foreign H I) (foreign H I)"
    "h \<notin> H \<Longrightarrow> jtriple (foreign H I) (on_db (get_object drv h i)) (\<lambda>_. foreign H I) (foreign H I)"
    "h \<notin> H \<Longrightarrow> jtriple (foreign H I) (on_db (close_handle drv h)) (\<lambda>_. foreign H I) (foreign H I)"
  using assms foreign_db[of I H "\<lambda>h. {h}" "get_connection drv c"] foreign_db[of I H "\<lambda>h. {h}" "create_statement drv h"]
    foreign_db[of I H set_option "get_result_set drv h"]
  by (simp_all add: isolated_def foreign_db_unit)

lemma store_row_foreign:
  assumes "isolated drv H I"
  shows "jtriple (foreign H I) (store_row drv i k) (\<lambda>_. foreign H I) (foreign H I)"
proof (induction k arbitrary: i)
  case (Suc k)
  then show ?case unfolding store_row.simps
    by - (rule jtriple_read(2) jtriple_if jtriple_keep(2) jtriple_bind[OF foreign_field] jtriple_fact
        jtriple_bind[OF foreign_calls(9)[OF assms]] jtriple_read(1) jtriple_bind[OF foreign_store_value] | assumption)+
qed (simp add: jtriple_keep)

lemma chunk_loop_foreign:
  assumes "isolated drv H I"
  shows "jtriple (foreign H I) (chunk_loop k drv F c) (\<lambda>_. foreign H I) (foreign H I)"
proof (induction k)
  case (Suc k)
  have count: "jtriple (foreign H I) (set_me (\<lambda>m. m\<lparr>resultNumRows := resultNumRows m + 1\<rparr>)) (\<lambda>_. foreign H I) (foreign H I)"
    by (rule foreign_set_me) (simp add: handles_def)
  from Suc show ?case unfolding chunk_loop.simps
    by - (rule jtriple_bind[OF store_row_foreign[OF assms]] jtriple_bind[OF count] jtriple_read(1) jtriple_if
        jtriple_keep(1) jtriple_bind[OF foreign_field] jtriple_fact jtriple_bind[OF foreign_calls(8)[OF assms]] | assumption)+
qed (simp add: jtriple_keep)

lemma getNextChunk_foreign:
  assumes "isolated drv H I"
  shows "jtriple (foreign H I) (getNextChunk drv) (\<lambda>_. foreign H I) (foreign H I)"
proof -
  have zero: "jtriple (foreign H I) (set_me (\<lambda>m. m\<lparr>resultNumRows := 0\<rparr>)) (\<lambda>_. foreign H I) (foreign H I)"
    by (rule foreign_set_me) (simp add: handles_def)
  show ?thesis unfolding getNextChunk_def
    by (intro jtriple_read(2) jtriple_bind[OF zero] jtriple_bind[OF chunk_loop_foreign[OF assms]] jtriple_keep(3))
qed

lemma hasNext_foreign:
  assumes "isolated drv H I"
  shows "jtriple (foreign H I) (hasNext drv) (\<lambda>_. foreign H I) (foreign H I)"
  unfolding hasNext_def
  by (rule jtriple_bind[OF foreign_field] jtriple_fact foreign_calls(8)[OF assms] | assumption)+

lemma make_columns_foreign: "jtriple (foreign H I) (make_columns drv n classes) (\<lambda>_. foreign H I) (foreign H I)"
proof (induction classes)
  case (Cons clazz rest)
  have name: "jtriple (foreign H I) (set_me (\<lambda>m. m\<lparr>resultColumnClassNames := x\<rparr>)) (\<lambda>_. foreign H I) (foreign H I)"
    and chunk: "jtriple (foreign H I) (set_me (\<lambda>m. m\<lparr>resultChunk := y\<rparr>)) (\<lambda>_. foreign H I) (foreign H I)" for x y
    by (rule foreign_set_me, simp add: handles_def)+
  have alloc: "jtriple (foreign H I) (jput (\<lambda>s. s\<lparr>arrays := arrays s @ x\<rparr>)) (\<lambda>_. foreign H I) (foreign H I)" for x
    by (rule foreign_arrays) simp
  from Cons show ?case unfolding make_columns.simps
    by - (rule jtriple_read(2) jtriple_bind[OF name] jtriple_if jtriple_keep(2) jtriple_read(1) jtriple_bind[OF alloc]
        jtriple_bind[OF chunk] | assumption)+
qed (simp add: jtriple_keep)

lemma get_source_foreign:
  assumes "isolated drv H I"
  shows "jtriple (foreign H I) (get_source key (source_provider drv ctx)) (\<lambda>_. foreign H I) (foreign H I)"
proof -
  have src: "jtriple (foreign H I) (set_me (\<lambda>m. m\<lparr>dataSource := x\<rparr>)) (\<lambda>_. foreign H I) (foreign H I)" for x
    by (rule foreign_set_me) (simp add: handles_def)
  have put: "jtriple (foreign H I) (jput (\<lambda>s. s\<lparr>sources := (sources s)(key \<mapsto> c)\<rparr>)) (\<lambda>_. foreign H I) (foreign H I)" for c
    by (rule foreign_arrays) simp
  have "jtriple (foreign H I) (source_provider drv ctx) (\<lambda>_. foreign H I) (foreign H I)"
    unfolding source_provider_def by (intro jtriple_bind[OF foreign_calls(1)[OF assms]] jtriple_bind[OF src] jtriple_keep(1))
  then show ?thesis unfolding get_source_def
    by (intro jtriple_read(1)) (auto split: option.split intro!: jtriple_keep jtriple_bind put)
qed

lemma jopen_foreign:
  assumes "isolated drv H I"
  shows "jtriple (foreign H I) (jopen drv) (\<lambda>_. foreign H I) (foreign H I)"
proof -
  note set = foreign_set_me[where H = H and I = I]
  have src: "jtriple (foreign H I) (set_me (\<lambda>m. m\<lparr>dataSource := x\<rparr>)) (\<lambda>_. foreign H I) (foreign H I)" for x
    by (rule set) (simp add: handles_def)
  have conn: "jtriple (foreign H I) (set_me (\<lambda>m. m\<lparr>connection := Some h\<rparr>)) (\<lambda>_. foreign H I) (foreign H I)"
    and stmt: "jtriple (foreign H I) (set_me (\<lambda>m. m\<lparr>statement := Some h\<rparr>)) (\<lambda>_. foreign H I) (foreign H I)"
    if "h \<notin> H" for h by (rule set, use that in \<open>auto simp: handles_def\<close>)+
  have rs: "jtriple (foreign H I) (set_me (\<lambda>m. m\<lparr>resultSet := x\<rparr>)) (\<lambda>_. foreign H I) (foreign H I)"
    if "set_option x \<inter> H = {}" for x by (rule set) (use that in \<open>auto simp: handles_def\<close>)
  have meta: "jtriple (foreign H I) (set_me (\<lambda>m. m\<lparr>resultSetMetaData := x, resultColumnClassNames := y, resultChunk := z\<rparr>))
      (\<lambda>_. foreign H I) (foreign H I)" for x y z by (rule set) (simp add: handles_def)
  have some: "jtriple (foreign H I) (jnonnull x) (\<lambda>r s. foreign H I s \<and> r \<notin> H) (foreign H I)"
    if "set_option x \<inter> H = {}" for x :: "nat option"
    using that by (cases x) (simp_all add: jtriple_def java_simps)
  note calls = foreign_calls[OF assms]
  show ?thesis unfolding jopen_def
    by (rule jtriple_read(2) jtriple_bind[OF get_source_foreign[OF assms]] jtriple_bind[OF src] jtriple_bind[OF calls(2)]
        jtriple_fact jtriple_bind[OF conn] jtriple_bind[OF calls(3)] jtriple_bind[OF stmt] jtriple_bind[OF calls(4)]
        jtriple_bind[OF calls(5)] jtriple_bind[OF calls(6)] jtriple_bind[OF rs] jtriple_bind[OF some]
        jtriple_bind[OF calls(7)] jtriple_bind[OF meta] make_columns_foreign | assumption)+
qed

lemma jclose_foreign:
  assumes "isolated drv H I"
  shows "jtriple (foreign H I) (jclose drv) (\<lambda>_. foreign H I) (foreign H I)"
proof -
  have each: "jtriple (foreign H I) (close_if drv field) (\<lambda>_. foreign H I) (foreign H I)"
    if "\<And>m. set_option (field m) \<subseteq> handles m" for field
  proof -
    have read: "jtriple (foreign H I) (jget (field \<circ> me)) (\<lambda>x s. foreign H I s \<and> set_option x \<inter> H = {}) (foreign H I)"
      using that by (auto simp: jtriple_def java_simps foreign_def)
    have close: "jtriple (foreign H I) (case x of None \<Rightarrow> jret () | Some h \<Rightarrow> on_db (close_handle drv h))
        (\<lambda>_. foreign H I) (foreign H I)" if "set_option x \<inter> H = {}" for x
      using that foreign_calls(10)[OF assms] by (cases x) (simp_all add: jtriple_keep)
    show ?thesis unfolding close_if_def by (rule jtriple_bind[OF read], rule jtriple_fact, rule close)
  qed
  have "set_option (resultSet m) \<subseteq> handles m" "set_option (statement m) \<subseteq> handles m"
    "set_option (connection m) \<subseteq> handles m" for m by (auto simp: handles_def)
  note close = each[OF this(1)] each[OF this(2)] each[OF this(3)]
  show ?thesis unfolding jclose_def by (rule jtriple_bind[OF close(1)] jtriple_bind[OF close(2)] close(3))+
qed

lemma jcalled_foreign: "isolated drv H I \<Longrightarrow> foreign H I s \<Longrightarrow> foreign H I (jcalled drv c s)"
  by (cases c) (simp_all add: jtriple_snd[where I = "foreign H I"] jopen_foreign hasNext_foreign getNextChunk_foreign
      jclose_foreign getResultNumRows_def getResultColumnClassNames_def java_simps)

section \<open>The result set that is read\<close>

text \<open>
  A result set \<open>r\<close> with \<open>rows\<close> to come, in the states \<open>D rows\<close>: \<open>next\<close> goes from row to row and
  answers false after the last, reading a column does not move it, and the use of other handles
  than those of \<open>H\<close> leaves it where it is.
\<close>

definition reads_apart ::
    "('w, 'r) jdbc \<Rightarrow> nat set \<Rightarrow> nat \<Rightarrow> ('r jval option list list \<Rightarrow> 'w \<Rightarrow> bool) \<Rightarrow> bool" where
  "reads_apart drv H r D \<longleftrightarrow>
     (\<forall>rows. isolated drv H (D rows)) \<and>
     (\<forall>w. D [] w \<longrightarrow> rs_next drv r w = (Inr False, w)) \<and>
     (\<forall>row rows w. D (row # rows) w \<longrightarrow>
        (\<exists>w'. rs_next drv r w = (Inr True, w') \<and> on_row drv r row w' \<and> D rows w')) \<and>
     (\<forall>rows i w. D rows w \<longrightarrow> D rows (snd (get_object drv r i w)))"

lemma reads_apart_delivers: "reads_apart drv H r D \<Longrightarrow> D rows w \<Longrightarrow> rs_delivers drv r rows w"
proof (induction rows arbitrary: w)
  case (Cons row rows)
  then obtain w' where "rs_next drv r w = (Inr True, w')" "on_row drv r row w'" "D rows w'"
    unfolding reads_apart_def by blast
  with Cons show ?case by auto
qed (simp add: reads_apart_def)

lemma rs_delivers_length: "rs_delivers drv r xs w \<Longrightarrow> rs_delivers drv r ys w \<Longrightarrow> length xs = length ys"
proof (induction xs arbitrary: w ys)
  case Nil
  then show ?case by (cases ys) auto
next
  case (Cons x xs)
  then obtain y ys' w' where y: "ys = y # ys'" "rs_delivers drv r xs w'" "rs_delivers drv r ys' w'"
    by (cases ys) auto
  from Cons.IH[OF y(2,3)] y(1) show ?case by simp
qed

text \<open>The scanner that reads it stands before some of the rows, whatever methods it has run.\<close>

definition within ::
    "nat \<Rightarrow> ('r jval option list list \<Rightarrow> 'w \<Rightarrow> bool) \<Rightarrow> 'r jval option list list \<Rightarrow> ('w, 'r) jmach \<Rightarrow> bool" where
  "within r D rows s \<longleftrightarrow> resultSet (me s) = Some r \<and> (\<exists>n. D (drop n rows) (db s))"

lemma within_next:
  assumes "reads_apart drv H r D"
  shows "jtriple (within r D rows) (on_db (rs_next drv r)) (\<lambda>_. within r D rows) (within r D rows)"
proof -
  have "\<exists>n. D (drop n rows) (snd (rs_next drv r w))" if "D (drop n rows) w" for n w
  proof (cases "drop n rows")
    case Nil
    with assms that have "rs_next drv r w = (Inr False, w)" by (simp add: reads_apart_def)
    with that show ?thesis by auto
  next
    case (Cons row rest)
    with assms that obtain w' where "rs_next drv r w = (Inr True, w')" "D rest w'"
      unfolding reads_apart_def by metis
    moreover have "rest = drop (Suc n) rows" using Cons by (metis drop_Suc list.sel(3) tl_drop)
    ultimately show ?thesis by (metis snd_conv)
  qed
  then show ?thesis by (intro jtriple_on_db) (fastforce simp: within_def)+
qed

lemma within_get:
  assumes "reads_apart drv H r D"
  shows "jtriple (within r D rows) (on_db (get_object drv r i)) (\<lambda>_. within r D rows) (within r D rows)"
proof -
  have "D (drop n rows) (snd (get_object drv r i w))" if "D (drop n rows) w" for n w
    using assms that by (simp add: reads_apart_def)
  then show ?thesis by (intro jtriple_on_db) (fastforce simp: within_def)+
qed

lemma within_field:
  "jtriple (within r D rows) (the_field resultSet) (\<lambda>x s. within r D rows s \<and> x = r) (within r D rows)"
  by (auto simp: jtriple_def java_simps within_def split: option.splits)

lemma within_set_me:
  "(\<And>m. resultSet (f m) = resultSet m) \<Longrightarrow> jtriple (within r D rows) (set_me f) (\<lambda>_. within r D rows) (within r D rows)"
  by (intro jtriple_put(2)) (simp add: within_def)

lemma within_store: "jtriple (within r D rows) (store_value drv a row v) (\<lambda>_. within r D rows) (within r D rows)"
  by (rule store_value_only_arrays) (simp add: within_def)

lemma store_row_within:
  assumes "reads_apart drv H r D"
  shows "jtriple (within r D rows) (store_row drv i k) (\<lambda>_. within r D rows) (within r D rows)"
proof (induction k arbitrary: i)
  case (Suc k)
  then show ?case unfolding store_row.simps
    by - (rule jtriple_read(2) jtriple_if jtriple_keep(2) jtriple_bind[OF within_field] jtriple_fact
        jtriple_bind[OF within_get[OF assms]] jtriple_read(1) jtriple_bind[OF within_store] | assumption | simp only:)+
qed (simp add: jtriple_keep)

lemma chunk_loop_within:
  assumes "reads_apart drv H r D"
  shows "jtriple (within r D rows) (chunk_loop k drv F c) (\<lambda>_. within r D rows) (within r D rows)"
proof (induction k)
  case (Suc k)
  have count: "jtriple (within r D rows) (set_me (\<lambda>m. m\<lparr>resultNumRows := resultNumRows m + 1\<rparr>))
      (\<lambda>_. within r D rows) (within r D rows)" by (rule within_set_me) simp
  from Suc show ?case unfolding chunk_loop.simps
    by - (rule jtriple_bind[OF store_row_within[OF assms]] jtriple_bind[OF count] jtriple_read(1) jtriple_if
        jtriple_keep(1) jtriple_bind[OF within_field] jtriple_fact jtriple_bind[OF within_next[OF assms]]
        | assumption | simp only:)+
qed (simp add: jtriple_keep)

lemma next_batch_within:
  assumes "reads_apart drv H r D"
  shows "jtriple (within r D rows) (next_batch drv) (\<lambda>_. within r D rows) (within r D rows)"
proof -
  have zero: "jtriple (within r D rows) (set_me (\<lambda>m. m\<lparr>resultNumRows := 0\<rparr>)) (\<lambda>_. within r D rows) (within r D rows)"
    by (rule within_set_me) simp
  have chunk: "jtriple (within r D rows) (getNextChunk drv) (\<lambda>_. within r D rows) (within r D rows)"
    unfolding getNextChunk_def
    by (intro jtriple_read(2) jtriple_bind[OF zero] jtriple_bind[OF chunk_loop_within[OF assms]] jtriple_keep(3))
  have ask: "jtriple (within r D rows) (hasNext drv) (\<lambda>_. within r D rows) (within r D rows)"
    unfolding hasNext_def
    by (rule jtriple_bind[OF within_field] jtriple_fact within_next[OF assms] | simp only:)+
  show ?thesis unfolding next_batch_def getResultNumRows_def
    by (intro jtriple_bind[OF ask] jtriple_if jtriple_keep(1) jtriple_bind[OF chunk] jtriple_read(1))
qed

lemma next_batch_apart:
  assumes "reads_apart drv H r D" "scanning F r classes as s" "0 < F" "\<forall>x \<in> set rows. fits drv classes x"
    and "D rows (db s)" "rows \<noteq> []"
  obtains s' t where "next_batch drv s = (Inr (Some (Some as, int t)), s')" "t = min (nat F) (length rows)"
    "scanning F r classes as s'" "rows_in as t s' = map (stored_row drv classes) (take t rows)" "D (drop t rows) (db s')"
proof -
  note del = reads_apart_delivers[OF assms(1)]
  obtain s' t where s': "next_batch drv s = (Inr (Some (Some as, int t)), s')" "t = min (nat F) (length rows)"
    "scanning F r classes as s'" "rows_in as t s' = map (stored_row drv classes) (take t rows)"
    "rs_delivers drv r (drop t rows) (db s')"
    by (rule next_batch_run[OF assms(2-4) del[OF assms(5)] assms(6)])
  have "within r D rows s"
    using assms(2,5) by (auto simp: within_def scanning_def intro!: exI[of _ 0])
  from jtriple_run[OF next_batch_within[OF assms(1)] this s'(1)]
  obtain n where n: "D (drop n rows) (db s')" by (auto simp: within_def)
  have "length rows - n = length rows - t" using rs_delivers_length[OF del[OF n] s'(5)] by simp
  moreover have "t \<le> length rows" using s'(2) by simp
  ultimately have "n = t \<or> (length rows \<le> n \<and> length rows \<le> t)" by linarith
  then have "drop n rows = drop t rows" by auto
  with s' n show thesis by (intro that) simp_all
qed

section \<open>Taking turns\<close>

text \<open>
  A client that reads the scanner \<open>j\<close> batch by batch. Before each batch other things are done on the
  machine, and again before the client looks at the rows it has been handed. A batch is the three
  calls of the C++ \<open>get\_next\<close>, which one thread makes in a row.
\<close>

fun read_among :: "('w, 'r) jdbc \<Rightarrow> nat \<Rightarrow> (jact list \<times> jact list) list \<Rightarrow> ('w, 'r) jvm_state \<Rightarrow>
    (jexn + 'r jval option list list list) \<times> ('w, 'r) jvm_state" where
  "read_among drv j [] st = (Inr [], st)"
| "read_among drv j ((before, between) # turns) st =
     (case jvm_run drv before st of (objs, s) \<Rightarrow>
      case next_batch drv (s\<lparr>me := objs ! j\<rparr>) of (r, t) \<Rightarrow>
        (let st1 = (objs[j := me t], t)
         in case r of
              Inl e \<Rightarrow> (Inl e, st1)
            | Inr None \<Rightarrow> (Inr [], st1)
            | Inr (Some (None, k)) \<Rightarrow> (Inl Null_Pointer_Exception, st1)
            | Inr (Some (Some as, k)) \<Rightarrow>
                (let st2 = jvm_run drv between st1
                 in case read_among drv j turns st2 of
                      (Inl e, st3) \<Rightarrow> (Inl e, st3)
                    | (Inr cs, st3) \<Rightarrow> (Inr (rows_in as (nat k) (snd st2) # cs), st3))))"

definition leaves :: "nat \<Rightarrow> jact list \<Rightarrow> bool" where
  "leaves j acts \<longleftrightarrow> (\<forall>c. Call_On j c \<notin> set acts)"

text \<open>The scanner \<open>j\<close> has \<open>rows\<close> to come, and no other holds a handle of its.\<close>

definition reading ::
    "('w, 'r) jdbc \<Rightarrow> nat set \<Rightarrow> ('r jval option list list \<Rightarrow> 'w \<Rightarrow> bool) \<Rightarrow> int \<Rightarrow> nat \<Rightarrow> string list \<Rightarrow> nat list \<Rightarrow>
     nat \<Rightarrow> 'r jval option list list \<Rightarrow> ('w, 'r) jvm_state \<Rightarrow> bool" where
  "reading drv H D F r classes as j rows st \<longleftrightarrow>
     apart drv st \<and> j < length (fst st) \<and> scanning F r classes as ((snd st)\<lparr>me := fst st ! j\<rparr>) \<and> D rows (db (snd st)) \<and>
     (\<forall>i < length (fst st). i \<noteq> j \<longrightarrow> handles (fst st ! i) \<inter> H = {})"

lemma scanning_undisturbed:
  assumes "undisturbed j st st'" "apart drv st'" "scanning F r classes as ((snd st)\<lparr>me := fst st ! j\<rparr>)"
  shows "scanning F r classes as ((snd st')\<lparr>me := fst st' ! j\<rparr>)"
proof -
  have u: "j < length (fst st')" "fst st' ! j = fst st ! j"
    "\<forall>a \<in> cells (fst st ! j). arrays (snd st') ! a = arrays (snd st) ! a"
    using assms(1) by (simp_all add: undisturbed_def)
  have cells: "cells (fst st ! j) = set as" using assms(3) by (simp add: scanning_def cells_def)
  have "scanner_ok (fetch_size (fst st' ! j)) ((snd st')\<lparr>me := fst st' ! j\<rparr>)"
    using assms(2) u(1) by (simp add: apart_def split: prod.splits)
  from cells_bound[OF this] have "\<forall>a \<in> set as. a < length (arrays (snd st'))" using u(2) cells by simp
  with u assms(3) cells show ?thesis by (simp add: scanning_def)
qed

lemma step_others:
  assumes "isolated drv H I" "I (db s)" "\<forall>i < length objs. i \<noteq> j \<longrightarrow> handles (objs ! i) \<inter> H = {}"
    and "j < length objs" "\<forall>c. act \<noteq> Call_On j c" "jvm_step drv act (objs, s) = (objs', s')"
  shows "I (db s') \<and> (\<forall>i < length objs'. i \<noteq> j \<longrightarrow> handles (objs' ! i) \<inter> H = {})"
proof (cases act)
  case (Get_Scanner loc ctx)
  moreover have "handles (JDBCScanner_new loc (Some ctx)) = {}" by (simp add: handles_def JDBCScanner_new_def)
  ultimately show ?thesis using assms(2-4,6) by (auto simp: nth_append less_Suc_eq disjoint_iff)
next
  case (Call_On k c)
  show ?thesis
  proof (cases "k < length objs")
    case True
    with assms(2,3,5) Call_On have "foreign H I (s\<lparr>me := objs ! k\<rparr>)" by (simp add: foreign_def)
    from jcalled_foreign[OF assms(1) this, of c] assms(3,6) Call_On True show ?thesis
      by (auto simp: foreign_def Let_def nth_list_update disjoint_iff split: if_splits)
  qed (use assms Call_On in auto)
qed

lemma run_others:
  assumes "isolated drv H I" "I (db (snd st))" "\<forall>i < length (fst st). i \<noteq> j \<longrightarrow> handles (fst st ! i) \<inter> H = {}"
    and "j < length (fst st)" "leaves j acts" "apart drv st"
  shows "I (db (snd (jvm_run drv acts st))) \<and>
    (\<forall>i < length (fst (jvm_run drv acts st)). i \<noteq> j \<longrightarrow> handles (fst (jvm_run drv acts st) ! i) \<inter> H = {})"
  using assms(2-6)
proof (induction acts arbitrary: st)
  case (Cons act acts)
  obtain objs s where st: "st = (objs, s)" by fastforce
  obtain objs' s' where st': "jvm_step drv act (objs, s) = (objs', s')" by fastforce
  have act: "\<forall>c. act \<noteq> Call_On j c" "leaves j acts" using Cons.prems(4) by (auto simp: leaves_def)
  have "apart drv (objs', s')" using step_apart[of drv objs s act] Cons.prems(5) st st' by simp
  moreover have "j < length objs'"
    using step_undisturbed[of drv objs s j act] Cons.prems(3,5) act(1) st st' by (simp add: undisturbed_def)
  moreover note step_others[OF assms(1) _ _ _ act(1) st']
  ultimately have "I (db (snd (jvm_run drv acts (objs', s')))) \<and>
      (\<forall>i < length (fst (jvm_run drv acts (objs', s'))). i \<noteq> j \<longrightarrow> handles (fst (jvm_run drv acts (objs', s')) ! i) \<inter> H = {})"
    using Cons.prems(1-3) act(2) st by (intro Cons.IH) simp_all
  then show ?case by (simp add: jvm_run_def st st')
qed (simp add: jvm_run_def)

lemma run_reading:
  assumes "reads_apart drv H r D" "reading drv H D F r classes as j rows st" "leaves j acts"
  shows "reading drv H D F r classes as j rows (jvm_run drv acts st)"
    "rows_in as k (snd (jvm_run drv acts st)) = rows_in as k (snd st)"
proof -
  let ?st = "jvm_run drv acts st"
  have R: "apart drv st" "j < length (fst st)" "scanning F r classes as ((snd st)\<lparr>me := fst st ! j\<rparr>)" "D rows (db (snd st))"
    "\<forall>i < length (fst st). i \<noteq> j \<longrightarrow> handles (fst st ! i) \<inter> H = {}"
    using assms(2) by (simp_all add: reading_def)
  have u: "undisturbed j st ?st" using R(1,2) assms(3) by (intro run_undisturbed) (simp_all add: leaves_def)
  have a: "apart drv ?st" using R(1) by (rule run_apart)
  have "isolated drv H (D rows)" using assms(1) by (simp add: reads_apart_def)
  from run_others[OF this R(4,5,2) assms(3) R(1)] scanning_undisturbed[OF u a R(3)] a u
  show "reading drv H D F r classes as j rows ?st" by (simp add: reading_def undisturbed_def)
  show "rows_in as k (snd ?st) = rows_in as k (snd st)"
    by (rule undisturbed_rows[OF u]) (use R(3) in \<open>simp add: scanning_def\<close>)
qed

lemma next_batch_shape:
  "typed drv F s \<Longrightarrow> typed drv F (snd (next_batch drv s))" "confined s (snd (next_batch drv s))"
proof -
  have ask: "jtriple (typed drv F) (hasNext drv) (\<lambda>_. typed drv F) (typed drv F)"
    unfolding hasNext_def by (rule jtriple_intros)+
  have "jtriple (typed drv F) (next_batch drv) (\<lambda>_. typed drv F) (typed drv F)"
    unfolding next_batch_def getResultNumRows_def
    by (intro jtriple_bind[OF ask] jtriple_if jtriple_keep(1) jtriple_bind[OF getNextChunk_typed] jtriple_read(1))
  then show "typed drv F s \<Longrightarrow> typed drv F (snd (next_batch drv s))" by (rule jtriple_snd)
  have "jtriple (confined s) (next_batch drv) (\<lambda>_. confined s) (confined s)"
    unfolding next_batch_def getResultNumRows_def
    by (intro jtriple_bind[OF hasNext_confined] jtriple_if jtriple_keep(1) jtriple_bind[OF getNextChunk_confined] jtriple_read(1))
  then show "confined s (snd (next_batch drv s))" by (rule jtriple_snd) (rule confined_start)
qed

lemma batch_reading:
  assumes "reads_apart drv H r D" "reading drv H D F r classes as j rows (objs, s)" "0 < F"
    and "\<forall>x \<in> set rows. fits drv classes x" "rows \<noteq> []"
  obtains t k where "next_batch drv (s\<lparr>me := objs ! j\<rparr>) = (Inr (Some (Some as, int k)), t)" "k = min (nat F) (length rows)"
    "rows_in as k t = map (stored_row drv classes) (take k rows)"
    "reading drv H D F r classes as j (drop k rows) (objs[j := me t], t)"
proof -
  let ?s = "s\<lparr>me := objs ! j\<rparr>"
  have R: "apart drv (objs, s)" "j < length objs" "scanning F r classes as ?s" "D rows (db ?s)"
    "\<forall>i < length objs. i \<noteq> j \<longrightarrow> handles (objs ! i) \<inter> H = {}"
    using assms(2) by (simp_all add: reading_def)
  obtain t k where t: "next_batch drv ?s = (Inr (Some (Some as, int k)), t)" "k = min (nat F) (length rows)"
    "scanning F r classes as t" "rows_in as k t = map (stored_row drv classes) (take k rows)" "D (drop k rows) (db t)"
    by (rule next_batch_apart[OF assms(1) R(3) assms(3,4) R(4) assms(5)])
  have "apart drv (objs[j := me t], t)"
    using next_batch_shape[where s = ?s and drv = drv] t(1) by (intro call_apart[OF R(1,2)]) simp_all
  with t R(2,5) have "reading drv H D F r classes as j (drop k rows) (objs[j := me t], t)"
    by (simp add: reading_def)
  with t show thesis by (intro that)
qed

lemma read_among_run:
  assumes "reads_apart drv H r D" "reading drv H D F r classes as j rows st" "0 < F"
    and "\<forall>x \<in> set rows. fits drv classes x" "length rows < length turns"
    and "\<forall>(before, between) \<in> set turns. leaves j before \<and> leaves j between"
  shows "\<exists>cs st'. read_among drv j turns st = (Inr cs, st') \<and> concat cs = map (stored_row drv classes) rows \<and>
    (\<forall>c \<in> set cs. c \<noteq> [] \<and> length c \<le> nat F)"
  using assms(2,4-6)
proof (induction turns arbitrary: rows st)
  case (Cons turn turns)
  obtain before between where turn: "turn = (before, between)" by fastforce
  with Cons.prems(4) have q: "leaves j before" "leaves j between" by simp_all
  obtain objs s where st: "jvm_run drv before st = (objs, s)" by fastforce
  from run_reading(1)[OF assms(1) Cons.prems(1) q(1)]
  have R: "reading drv H D F r classes as j rows (objs, s)" unfolding st .
  show ?case
  proof (cases "rows = []")
    case True
    with R have e: "scanning F r classes as (s\<lparr>me := objs ! j\<rparr>)" "D [] (db (s\<lparr>me := objs ! j\<rparr>))"
      by (simp_all add: reading_def)
    from next_batch_end[OF e(1) reads_apart_delivers[OF assms(1) e(2)]] True show ?thesis by (simp add: turn st)
  next
    case False
    obtain t k where t: "next_batch drv (s\<lparr>me := objs ! j\<rparr>) = (Inr (Some (Some as, int k)), t)"
      "k = min (nat F) (length rows)" "rows_in as k t = map (stored_row drv classes) (take k rows)"
      "reading drv H D F r classes as j (drop k rows) (objs[j := me t], t)"
      by (rule batch_reading[OF assms(1) R assms(3) Cons.prems(2) False])
    let ?st2 = "jvm_run drv between (objs[j := me t], t)"
    have r2: "reading drv H D F r classes as j (drop k rows) ?st2"
      "rows_in as k (snd ?st2) = map (stored_row drv classes) (take k rows)"
      using run_reading[OF assms(1) t(4) q(2)] t(3) by simp_all
    have k: "0 < k" using t(2) False assms(3) by simp
    have "\<forall>x \<in> set (drop k rows). fits drv classes x" using Cons.prems(2) by (meson in_set_dropD)
    moreover have "length (drop k rows) < length turns" using k Cons.prems(3) False by (cases rows) auto
    ultimately obtain cs st3 where cs: "read_among drv j turns ?st2 = (Inr cs, st3)"
      "concat cs = map (stored_row drv classes) (drop k rows)" "\<forall>c \<in> set cs. c \<noteq> [] \<and> length c \<le> nat F"
      using Cons.IH[OF r2(1)] Cons.prems(4) by auto
    let ?c = "map (stored_row drv classes) (take k rows)"
    have "read_among drv j (turn # turns) st = (Inr (?c # cs), st3)"
      using t(1) cs(1) r2(2) by (simp add: turn st Let_def)
    moreover have "concat (?c # cs) = map (stored_row drv classes) rows"
      using cs(2) by (metis append_take_drop_id concat.simps(2) map_append)
    moreover have "length ?c \<le> nat F" "?c \<noteq> []" using k t(2) False by simp_all
    ultimately show ?thesis using cs(3) by (intro exI[of _ "?c # cs"] exI[of _ st3]) simp
  qed
qed simp

section \<open>A driver with several result sets\<close>

text \<open>
  The database hands out its handles in order; each result set has its rows to come and its row.
\<close>

definition multi_jdbc :: "string list \<Rightarrow> 'r jval option list list \<Rightarrow> 'r floating \<Rightarrow>
    (nat \<times> (nat \<Rightarrow> 'r jval option list list) \<times> (nat \<Rightarrow> 'r jval option list option), 'r) jdbc" where
  "multi_jdbc classes all fp =
     \<lparr>new_source = (\<lambda>_ w. (Inr (), w)),
      get_connection = (\<lambda>_ (n, rest, row). (Inr n, (Suc n, rest, row))),
      create_statement = (\<lambda>_ (n, rest, row). (Inr n, (Suc n, rest, row))),
      set_fetch_size = (\<lambda>_ _ w. (Inr (), w)), execute_sql = (\<lambda>_ _ w. (Inr (), w)),
      get_result_set = (\<lambda>_ (n, rest, row). (Inr (Some n), (Suc n, rest(n := all), row(n := None)))),
      column_classes = (\<lambda>_ w. (Inr classes, w)),
      rs_next = (\<lambda>r (n, rest, row). case rest r of
          [] \<Rightarrow> (Inr False, (n, rest, row)) | x # xs \<Rightarrow> (Inr True, (n, rest(r := xs), row(r := Some x)))),
      get_object = (\<lambda>r i (n, rest, row). case row r of
          Some x \<Rightarrow> (if 0 < i \<and> i \<le> length x then Inr (x ! (i - 1)) else Inl (SQL_Exception ''column''), (n, rest, row))
        | None \<Rightarrow> (Inl (SQL_Exception ''no row''), (n, rest, row))),
      close_handle = (\<lambda>_ w. (Inr (), w)), known_class = (\<lambda>_. True),
      instance_of = (\<lambda>v c. case v of Obj d _ \<Rightarrow> c = d | Num _ \<Rightarrow> False), fp_arith = fp\<rparr>"

definition to_come :: "nat set \<Rightarrow> nat \<Rightarrow> 'x \<Rightarrow> nat \<times> (nat \<Rightarrow> 'x) \<times> 'y \<Rightarrow> bool" where
  "to_come H r rows w \<longleftrightarrow> (\<forall>h \<in> H. h < fst w) \<and> fst (snd w) r = rows"

lemma multi_jdbc_reads: "r \<in> H \<Longrightarrow> reads_apart (multi_jdbc classes all fp) H r (to_come H r)"
  by (auto simp: reads_apart_def isolated_def keeps_def multi_jdbc_def to_come_def on_row_def
      split: prod.splits list.splits option.splits if_splits)

definition multi_jmach :: "(nat \<times> (nat \<Rightarrow> unit jval option list list) \<times> (nat \<Rightarrow> unit jval option list option), unit) jmach" where
  "multi_jmach = \<lparr>db = (0, \<lambda>_. [], \<lambda>_. None), sources = (\<lambda>_. None), arrays = [], me = JDBCScanner_new None None\<rparr>"

section \<open>Every scan is delivered\<close>


text \<open>Two scans of the same query: while the first is read, the second is asked, read and closed.\<close>

definition other_turns :: "(jact list \<times> jact list) list" where
  "other_turns = [([Call_On 1 Call_hasNext], [Call_On 1 Call_getNextChunk]), ([Call_On 1 Call_hasNext], []),
     ([], [Get_Scanner None demo_ctx, Call_On 2 Call_open]), ([Call_On 1 Call_close], [])]"


end
