(* ===== verification/Java_Util.thy ===== *)
theory Java_Util
  imports Cxx_String Java_Scanner
begin

text \<open>
  JDBCUtil.java, which turns dates into the text of a column, and Main.java. \<open>LocalDateTime\<close> and its
  formatter are immutable; the \<open>SimpleDateFormat\<close> is one object for the whole process and works on
  the calendar it owns, so its calls are modelled step by step. What the calendar of the default time
  zone makes of a time is a parameter.
\<close>

section \<open>Padded numbers\<close>

text \<open>Digits up to a minimal width.\<close>

definition pad :: "nat \<Rightarrow> nat \<Rightarrow> string" where
  "pad k n = replicate (k - length (dec_digits n)) (CHR ''0'') @ dec_digits n"

text \<open>The last \<open>k\<close> digits.\<close>

fun fixed_digits :: "nat \<Rightarrow> nat \<Rightarrow> string" where
  "fixed_digits 0 n = []"
| "fixed_digits (Suc k) n = fixed_digits k (n div 10) @ [digit_char (n mod 10)]"

lemma fixed_digits_length [simp]: "length (fixed_digits k n) = k"
  by (induction k arbitrary: n) simp_all

lemma digit_char_zero [simp]: "digit_char 0 = CHR ''0''"
  by code_simp

lemma fixed_digits_zero: "fixed_digits k 0 = replicate k (CHR ''0'')"
  by (induction k) (simp_all add: replicate_append_same)

lemma pad_fixed: "n < 10 ^ k \<Longrightarrow> 0 < k \<Longrightarrow> pad k n = fixed_digits k n"
proof (induction k arbitrary: n)
  case (Suc k)
  show ?case
  proof (cases "n < 10")
    case True
    then have "dec_digits n = [digit_char n]" by (subst dec_digits.simps) simp
    with True show ?thesis by (simp add: pad_def fixed_digits_zero)
  next
    case False
    then have d: "dec_digits n = dec_digits (n div 10) @ [digit_char (n mod 10)]"
      by (subst dec_digits.simps) simp
    have "0 < k" using False Suc.prems(1) by (cases k) simp_all
    moreover have "n div 10 < 10 ^ k" using Suc.prems(1) by (simp add: less_mult_imp_div_less mult.commute)
    ultimately show ?thesis using Suc.IH[of "n div 10"] by (simp add: pad_def d)
  qed
qed simp

text \<open>Texts in the order of their characters.\<close>

definition text_less :: "(string \<times> string) set" where
  "text_less = lexord {(a, b). (of_char a :: nat) < of_char b}"

lemma text_less_append:
  "length xs = length ys \<Longrightarrow>
   (xs @ us, ys @ vs) \<in> text_less \<longleftrightarrow> (xs, ys) \<in> text_less \<or> xs = ys \<and> (us, vs) \<in> text_less"
  by (induction xs ys rule: list_induct2) (auto simp: text_less_def)

lemma digit_less: "a < 10 \<Longrightarrow> b < 10 \<Longrightarrow> ([digit_char a], [digit_char b]) \<in> text_less \<longleftrightarrow> a < b"
  by (simp add: text_less_def digit_char_def)

lemma digit_char_inj: "a < 10 \<Longrightarrow> b < 10 \<Longrightarrow> digit_char a = digit_char b \<longleftrightarrow> a = b"
  using digit_char_props(2) by metis

lemma ten_order:
  "b < 10 \<Longrightarrow> d < 10 \<Longrightarrow> a < c \<or> a = c \<and> b < d \<longleftrightarrow> 10 * a + b < 10 * c + (d::nat)"
  by linarith

lemma div_mod_order:
  fixes m n :: nat
  shows "m div 10 = n div 10 \<and> m mod 10 = n mod 10 \<longleftrightarrow> m = n"
    "m div 10 < n div 10 \<or> m div 10 = n div 10 \<and> m mod 10 < n mod 10 \<longleftrightarrow> m < n"
  using ten_order[of "m mod 10" "n mod 10" "m div 10" "n div 10"] mult_div_mod_eq[of 10 m] mult_div_mod_eq[of 10 n]
  by simp_all (metis mult_div_mod_eq)

lemma fixed_digits_order:
  assumes "m < 10 ^ k" "n < 10 ^ k"
  shows "fixed_digits k m = fixed_digits k n \<longleftrightarrow> m = n"
    and "(fixed_digits k m, fixed_digits k n) \<in> text_less \<longleftrightarrow> m < n"
  using assms
proof (induction k arbitrary: m n)
  case 0
  { case 1 then show ?case by simp next case 2 then show ?case by (simp add: text_less_def) }
next
  case (Suc k)
  { case 1
    then have b: "m div 10 < 10 ^ k" "n div 10 < 10 ^ k" by (simp_all add: less_mult_imp_div_less mult.commute)
    have "fixed_digits (Suc k) m = fixed_digits (Suc k) n \<longleftrightarrow> m div 10 = n div 10 \<and> m mod 10 = n mod 10"
      using Suc.IH(1)[OF b] by (simp add: digit_char_inj)
    then show ?case by (simp only: div_mod_order)
  next
    case 2
    then have b: "m div 10 < 10 ^ k" "n div 10 < 10 ^ k" by (simp_all add: less_mult_imp_div_less mult.commute)
    have "(fixed_digits (Suc k) m, fixed_digits (Suc k) n) \<in> text_less \<longleftrightarrow>
        m div 10 < n div 10 \<or> m div 10 = n div 10 \<and> m mod 10 < n mod 10"
      using Suc.IH[OF b] by (simp add: text_less_append digit_less)
    then show ?case by (simp only: div_mod_order) }
qed

section \<open>formatLocalDatetime\<close>

record local_datetime =
  ldt_year :: int
  ldt_month :: nat
  ldt_day :: nat
  ldt_hour :: nat
  ldt_minute :: nat
  ldt_second :: nat
  ldt_nano :: nat

definition datetime_ok :: "local_datetime \<Rightarrow> bool" where
  "datetime_ok t \<longleftrightarrow> ldt_month t \<in> {1..12} \<and> ldt_day t \<in> {1..31} \<and> ldt_hour t < 24 \<and> ldt_minute t < 60 \<and>
     ldt_second t < 60 \<and> ldt_nano t < 1000000000"

text \<open>The letter \<open>y\<close> is the year of the era, which counts the years before year 1 backwards.\<close>

definition year_of_era :: "int \<Rightarrow> nat" where
  "year_of_era y = nat (if 1 \<le> y then y else 1 - y)"

text \<open>Four letters: at least four digits, and a plus sign when there are more.\<close>

definition format_year :: "nat \<Rightarrow> string" where
  "format_year y = (if 9999 < y then CHR ''+'' # dec_digits y else pad 4 y)"

definition formatLocalDatetime :: "local_datetime \<Rightarrow> string" where
  "formatLocalDatetime t =
     format_year (year_of_era (ldt_year t)) @ ''-'' @ pad 2 (ldt_month t) @ ''-'' @ pad 2 (ldt_day t) @ '' '' @
     pad 2 (ldt_hour t) @ '':'' @ pad 2 (ldt_minute t) @ '':'' @ pad 2 (ldt_second t)"

text \<open>What is left of a time without its fraction of a second, and the order of times.\<close>

definition to_seconds :: "local_datetime \<Rightarrow> int list" where
  "to_seconds t = [ldt_year t, int (ldt_month t), int (ldt_day t), int (ldt_hour t), int (ldt_minute t), int (ldt_second t)]"

definition earlier :: "local_datetime \<Rightarrow> local_datetime \<Rightarrow> bool" where
  "earlier s t \<longleftrightarrow> (to_seconds s, to_seconds t) \<in> lexord {(a, b). a < b}"

lemma formatLocalDatetime_digits:
  assumes "datetime_ok t" "1 \<le> ldt_year t" "ldt_year t \<le> 9999"
  shows "formatLocalDatetime t =
     fixed_digits 4 (nat (ldt_year t)) @ ''-'' @ fixed_digits 2 (ldt_month t) @ ''-'' @ fixed_digits 2 (ldt_day t) @
     '' '' @ fixed_digits 2 (ldt_hour t) @ '':'' @ fixed_digits 2 (ldt_minute t) @ '':'' @ fixed_digits 2 (ldt_second t)"
proof -
  have "nat (ldt_year t) < 10 ^ 4" "\<not> 9999 < nat (ldt_year t)" using assms(2,3) by simp_all
  with assms show ?thesis
    by (simp add: formatLocalDatetime_def format_year_def year_of_era_def pad_fixed datetime_ok_def)
qed

text \<open>The text of a time of the years 1 to 9999 has 19 characters; two times have the same text exactly
  when they differ in the fraction of the second at most, and the order of the texts is the order of
  the times.\<close>

theorem datetime_text_order:
  assumes "datetime_ok s" "1 \<le> ldt_year s" "ldt_year s \<le> 9999"
    and "datetime_ok t" "1 \<le> ldt_year t" "ldt_year t \<le> 9999"
  shows "length (formatLocalDatetime s) = 19 \<and>
    (formatLocalDatetime s = formatLocalDatetime t \<longleftrightarrow> to_seconds s = to_seconds t) \<and>
    ((formatLocalDatetime s, formatLocalDatetime t) \<in> text_less \<longleftrightarrow> earlier s t)"
proof -
  have b: "nat (ldt_year s) < 10 ^ 4" "ldt_month s < 10 ^ 2" "ldt_day s < 10 ^ 2" "ldt_hour s < 10 ^ 2"
    "ldt_minute s < 10 ^ 2" "ldt_second s < 10 ^ 2"
    "nat (ldt_year t) < 10 ^ 4" "ldt_month t < 10 ^ 2" "ldt_day t < 10 ^ 2" "ldt_hour t < 10 ^ 2"
    "ldt_minute t < 10 ^ 2" "ldt_second t < 10 ^ 2"
    using assms by (auto simp: datetime_ok_def)
  note order = fixed_digits_order[OF b(1,7)] fixed_digits_order[OF b(2,8)] fixed_digits_order[OF b(3,9)]
    fixed_digits_order[OF b(4,10)] fixed_digits_order[OF b(5,11)] fixed_digits_order[OF b(6,12)]
  have same: "([c] @ us, [c] @ vs) \<in> text_less \<longleftrightarrow> (us, vs) \<in> text_less" for c us vs
    by (simp add: text_less_def)
  have years: "nat (ldt_year s) < nat (ldt_year t) \<longleftrightarrow> ldt_year s < ldt_year t"
    "nat (ldt_year s) = nat (ldt_year t) \<longleftrightarrow> ldt_year s = ldt_year t" using assms by auto
  note texts = formatLocalDatetime_digits[OF assms(1-3)] formatLocalDatetime_digits[OF assms(4-6)]
  have "length (formatLocalDatetime s) = 19" unfolding texts by simp
  moreover have "formatLocalDatetime s = formatLocalDatetime t \<longleftrightarrow> to_seconds s = to_seconds t"
    unfolding texts to_seconds_def by (simp add: order years)
  moreover have "(formatLocalDatetime s, formatLocalDatetime t) \<in> text_less \<longleftrightarrow> earlier s t"
    unfolding texts earlier_def to_seconds_def
    using assms(5) by (simp add: text_less_append same[simplified] order years)
  ultimately show ?thesis by blast
qed

theorem datetime_text_order_witness:
  "formatLocalDatetime \<lparr>ldt_year = 999, ldt_month = 12, ldt_day = 31, ldt_hour = 23, ldt_minute = 59, ldt_second = 59,
     ldt_nano = 7\<rparr> = ''0999-12-31 23:59:59'' \<and>
   (''0999-12-31 23:59:59'', formatLocalDatetime \<lparr>ldt_year = 1000, ldt_month = 1, ldt_day = 1, ldt_hour = 0,
     ldt_minute = 0, ldt_second = 0, ldt_nano = 0\<rparr>) \<in> text_less"
proof -
  let ?s = "\<lparr>ldt_year = 999, ldt_month = 12, ldt_day = 31, ldt_hour = 23, ldt_minute = 59, ldt_second = 59, ldt_nano = 7\<rparr>"
  let ?t = "\<lparr>ldt_year = 1000, ldt_month = 1, ldt_day = 1, ldt_hour = 0, ldt_minute = 0, ldt_second = 0, ldt_nano = 0\<rparr>"
  have "formatLocalDatetime ?s = ''0999-12-31 23:59:59''" by code_simp
  moreover have "datetime_ok ?s" "datetime_ok ?t" "earlier ?s ?t"
    by (simp_all add: datetime_ok_def earlier_def to_seconds_def)
  ultimately show ?thesis using datetime_text_order[of ?s ?t] by simp
qed

text \<open>Outside those years it is neither: the year before year 1 looks like year 1, and five digits get a sign.\<close>

lemma years_before_one_look_alike:
  "formatLocalDatetime (t\<lparr>ldt_year := 0\<rparr>) = formatLocalDatetime (t\<lparr>ldt_year := 1\<rparr>)"
  by (simp add: formatLocalDatetime_def year_of_era_def)

lemma five_digit_years_sort_first:
  "(formatLocalDatetime (t\<lparr>ldt_year := 10000\<rparr>), formatLocalDatetime (t\<lparr>ldt_year := 1\<rparr>)) \<in> text_less"
proof -
  have "pad 4 1 = ''0001''" by code_simp
  then show ?thesis
    by (simp add: formatLocalDatetime_def year_of_era_def format_year_def text_less_def)
qed

section \<open>formatDate\<close>

record civil_date =
  c_year :: nat          \<comment> \<open>of its era\<close>
  c_month :: nat
  c_day :: nat

text \<open>
  A call sets the calendar of the format to the date, and then reads one field of it after the other
  while it goes through the pattern.
\<close>

datatype fmt_item = F_year | F_month | F_day | F_text string

definition date_pattern :: "fmt_item list" where
  "date_pattern = [F_year, F_text ''-'', F_month, F_text ''-'', F_day]"

fun item_text :: "civil_date \<Rightarrow> fmt_item \<Rightarrow> string" where
  "item_text d F_year = pad 4 (c_year d)"
| "item_text d F_month = pad 2 (c_month d)"
| "item_text d F_day = pad 2 (c_day d)"
| "item_text d (F_text x) = x"

datatype fmt_pc = F_call int | F_items "fmt_item list" string | F_return string

record fmt_sys =
  fmt_calendar :: int
  fmt_pcs :: "nat \<Rightarrow> fmt_pc"

definition formatDate_step :: "(int \<Rightarrow> civil_date) \<Rightarrow> nat \<Rightarrow> fmt_sys \<Rightarrow> fmt_sys" where
  "formatDate_step civil i s =
     (case fmt_pcs s i of
        F_call date \<Rightarrow> s\<lparr>fmt_calendar := date, fmt_pcs := (fmt_pcs s)(i := F_items date_pattern [])\<rparr>
      | F_items [] out \<Rightarrow> s\<lparr>fmt_pcs := (fmt_pcs s)(i := F_return out)\<rparr>
      | F_items (x # xs) out \<Rightarrow>
          s\<lparr>fmt_pcs := (fmt_pcs s)(i := F_items xs (out @ item_text (civil (fmt_calendar s)) x))\<rparr>
      | F_return out \<Rightarrow> s)"

definition formatDate_run :: "(int \<Rightarrow> civil_date) \<Rightarrow> nat list \<Rightarrow> fmt_sys \<Rightarrow> fmt_sys" where
  "formatDate_run civil sched s = fold (formatDate_step civil) sched s"

text \<open>C34. \<open>formatDate\<close> is right only alone: a call that no other call interrupts returns year, month and
  day of its date, whatever calls came before; but when a second call starts after the first has
  read its year, the first returns the year of its own date with the month and day of the other's.\<close>

theorem formatDate_mixes_dates:
  "fmt_pcs (formatDate_run civil (replicate 7 i) (s\<lparr>fmt_pcs := (fmt_pcs s)(i := F_call date)\<rparr>)) i =
     F_return (pad 4 (c_year (civil date)) @ ''-'' @ pad 2 (c_month (civil date)) @ ''-'' @ pad 2 (c_day (civil date))) \<and>
   fmt_pcs (formatDate_run civil [0, 0, 1, 0, 0, 0, 0, 0] \<lparr>fmt_calendar = c, fmt_pcs = F_call \<circ> dates\<rparr>) 0 =
     F_return (pad 4 (c_year (civil (dates 0))) @ ''-'' @ pad 2 (c_month (civil (dates 1))) @ ''-'' @
       pad 2 (c_day (civil (dates 1))))"
proof -
  have seven: "replicate 7 i = [i, i, i, i, i, i, i]" by (simp add: numeral_eq_Suc)
  show ?thesis by (simp add: seven formatDate_run_def formatDate_step_def date_pattern_def)
qed

section \<open>Main\<close>

text \<open>A scanner over a context nobody has filled in is opened.\<close>

definition java_main :: "('w, 'r) jdbc \<Rightarrow> (('w, 'r) jmach, unit) java" where
  "java_main drv =
     jbind (set_me (\<lambda>_. JDBCScanner_new (Some '''') (Some JDBCScanContext_new))) (\<lambda>_. jopen drv)"

text \<open>What the pool makes of a configuration without a class, a URL and a size, it gets.\<close>

lemma java_main_source:
  assumes "sources s ''null/null'' = None" "new_source drv (config_for JDBCScanContext_new) (db s) = (Inl e, w)"
  shows "java_main drv s = (Inl e, s\<lparr>me := JDBCScanner_new (Some '''') (Some JDBCScanContext_new), db := w\<rparr>)"
  using assms
  by (simp add: java_main_def jopen_def jbind_def java_simps on_db_def get_source_def source_provider_def
      source_key_def show_ref_def JDBCScanContext_new_def JDBCScanner_new_def)

end
