(* ===== verification/Java_Machine.thy ===== *)
theory Java_Machine
  imports Jdbc_Scanner Java_Scanner
begin

text \<open>
  The two halves of the scanner put together: a virtual machine that runs the classes of
  Java\_Scanner behind the function table of Java\_Udf, and the C++ scanner of Jdbc\_Scanner on it.
  The machine has the classes and methods the C++ side asks for, at fixed references, and the
  objects it makes, numbered from 200; what the C++ side calls on them runs the Java model. It
  serves one scanner, as the program has one.
\<close>

section \<open>The machine\<close>

datatype jobject =
    O_String string
  | O_Context scan_ctx_java
  | O_Bridge "string option"
  | O_Scanner
  | O_Names "string list"
  | O_Chunk "nat list"
  | O_Column nat

record ('w, 'r) jvm =
  objs :: "jobject list"
  pending :: "jexn option"
  mach :: "('w, 'r) jmach"

definition class_refs :: "(string \<times> nat) list" where
  "class_refs =
     [(''java/lang/Object'', 0), (''[Ljava/lang/Object;'', 1), (''java/lang/String'', 2), (''java/lang/Throwable'', 3),
      (''java/util/Arrays'', 4), (''java/util/List'', 5), (''java/lang/Boolean'', 6), (''java/lang/Byte'', 7),
      (''java/lang/Short'', 8), (''java/lang/Integer'', 9), (''java/lang/Long'', 10), (''java/lang/Float'', 11),
      (''java/lang/Double'', 12), (JDBC_BRIDGE_CLASS_NAME, 13), (JDBC_SCAN_CONTEXT_CLASS_NAME, 14),
      (JDBC_SCANNER_CLASS_NAME, 15), (JDBC_UTIL_CLASS_NAME, 16)]"

text \<open>Methods by class and name: their references; the boxes' methods follow from their class.\<close>

definition method_refs :: "((nat \<times> string) \<times> nat) list" where
  "method_refs =
     [((13, ''<init>''), 100), ((13, ''setClassLoader''), 101), ((13, ''getScanner''), 102), ((14, ''<init>''), 103),
      ((15, ''hasNext''), 104), ((15, ''getNextChunk''), 105), ((15, ''getResultNumRows''), 106), ((15, ''close''), 107),
      ((15, ''open''), 108), ((15, ''getResultColumnClassNames''), 109), ((5, ''get''), 110), ((5, ''size''), 111),
      ((0, ''toString''), 112), ((3, ''toString''), 113), ((3, ''getStackTrace''), 114), ((4, ''toString''), 115),
      ((16, ''formatDate''), 116), ((16, ''formatLocalDatetime''), 117)]"

definition method_ref :: "jref \<Rightarrow> string \<Rightarrow> jref" where
  "method_ref c n = (case c of None \<Rightarrow> None | Some i \<Rightarrow>
     (if 6 \<le> i \<and> i \<le> 12 then Some (120 + i) else map_of method_refs (i, n)))"

definition new_obj :: "jobject \<Rightarrow> ('w, 'r) jvm \<Rightarrow> jref \<times> ('w, 'r) jvm" where
  "new_obj x j = (Some (200 + length (objs j)), j\<lparr>objs := objs j @ [x]\<rparr>)"

definition obj_at :: "('w, 'r) jvm \<Rightarrow> jref \<Rightarrow> jobject option" where
  "obj_at j r = (case r of None \<Rightarrow> None | Some n \<Rightarrow>
     (if 200 \<le> n \<and> n < 200 + length (objs j) then Some (objs j ! (n - 200)) else None))"

definition string_at :: "('w, 'r) jvm \<Rightarrow> jref \<Rightarrow> string option" where
  "string_at j r = (case obj_at j r of Some (O_String s) \<Rightarrow> Some s | _ \<Rightarrow> None)"

lemma obj_at_other [simp]:
  "obj_at (j\<lparr>mach := m\<rparr>) r = obj_at j r" "obj_at (j\<lparr>pending := e\<rparr>) r = obj_at j r"
  by (simp_all add: obj_at_def split: option.splits)

lemma obj_at_append: "obj_at j r = Some x \<Longrightarrow> obj_at (j\<lparr>objs := objs j @ ys\<rparr>) r = Some x"
  by (auto simp: obj_at_def nth_append split: option.splits if_splits)

lemma obj_at_new: "obj_at (j\<lparr>objs := objs j @ [x]\<rparr>) (Some (200 + length (objs j))) = Some x"
  by (simp add: obj_at_def)

lemma obj_at_new2:
  "obj_at (j\<lparr>objs := objs j @ [x, y]\<rparr>) (Some (200 + length (objs j))) = Some x"
  "obj_at (j\<lparr>objs := objs j @ [x, y]\<rparr>) (Some (201 + length (objs j))) = Some y"
  by (simp_all add: obj_at_def nth_append)

text \<open>A Java method runs on the machine; what it throws is left pending.\<close>

definition run_java :: "(('w, 'r) jmach, 'a) java \<Rightarrow> 'b \<Rightarrow> ('a \<Rightarrow> ('w, 'r) jvm \<Rightarrow> 'b \<times> ('w, 'r) jvm) \<Rightarrow> ('w, 'r) jvm \<Rightarrow> 'b \<times> ('w, 'r) jvm" where
  "run_java p thrown k j =
     (case p (mach j) of
        (Inl e, m) \<Rightarrow> (thrown, j\<lparr>pending := Some e, mach := m\<rparr>)
      | (Inr a, m) \<Rightarrow> k a (j\<lparr>mach := m\<rparr>))"

definition java_new :: "jref \<Rightarrow> jarg list \<Rightarrow> ('w, 'r) jvm \<Rightarrow> jref \<times> ('w, 'r) jvm" where
  "java_new m args j =
     (if m = Some 100 then new_obj (O_Bridge None) j
      else case args of
        [J_Ref d, J_Ref u, J_Ref us, J_Ref p, J_Ref s, J_Int f, J_Int pool, J_Int idle, J_Int timeout] \<Rightarrow>
          new_obj (O_Context \<lparr>driverClassName = string_at j d, jdbcURL = string_at j u, user = string_at j us,
            password = string_at j p, sql = string_at j s, statementFetchSize = f, connectionPoolSize = pool,
            minimumIdleConnections = idle, connectionIdleTimeoutMs = timeout\<rparr>) j
      | _ \<Rightarrow> (None, j\<lparr>pending := Some Null_Pointer_Exception\<rparr>))"

definition java_call_object ::
    "('w, 'r) jdbc \<Rightarrow> jref \<Rightarrow> jref \<Rightarrow> jarg list \<Rightarrow> ('w, 'r) jvm \<Rightarrow> jref \<times> ('w, 'r) jvm" where
  "java_call_object drv x m args j =
     (case (obj_at j x, args) of
        (Some (O_Bridge loc), [J_Ref c]) \<Rightarrow>
          (case getScanner (case obj_at j c of Some (O_Context ctx) \<Rightarrow> Some ctx | _ \<Rightarrow> None) loc of
             (Inr s, _) \<Rightarrow> new_obj O_Scanner (j\<lparr>mach := (mach j)\<lparr>me := s\<rparr>\<rparr>)
           | (Inl e, _) \<Rightarrow> (None, j\<lparr>pending := Some e\<rparr>))
      | (Some O_Scanner, []) \<Rightarrow>
          (if m = Some 109
           then run_java getResultColumnClassNames None
                  (\<lambda>ns j. case ns of None \<Rightarrow> (None, j) | Some xs \<Rightarrow> new_obj (O_Names xs) j) j
           else run_java (getNextChunk drv) None
                  (\<lambda>c j. case c of None \<Rightarrow> (None, j) | Some as \<Rightarrow> new_obj (O_Chunk as) j) j)
      | (Some (O_Names xs), [J_Int i]) \<Rightarrow>
          (if 0 \<le> i \<and> i < int (length xs) then new_obj (O_String (xs ! nat i)) j
           else (None, j\<lparr>pending := Some Index_Out_Of_Bounds\<rparr>))
      | (Some (O_Chunk as), [J_Int i]) \<Rightarrow>
          (if 0 \<le> i \<and> i < int (length as) then new_obj (O_Column (as ! nat i)) j
           else (None, j\<lparr>pending := Some Index_Out_Of_Bounds\<rparr>))
      | (Some (O_String s), []) \<Rightarrow> (x, j)
      | _ \<Rightarrow> new_obj (O_String ''object'') j)"

definition java_call_void ::
    "('w, 'r) jdbc \<Rightarrow> (string \<Rightarrow> jexn option) \<Rightarrow> jref \<Rightarrow> jref \<Rightarrow> jarg list \<Rightarrow> ('w, 'r) jvm \<Rightarrow> unit \<times> ('w, 'r) jvm" where
  "java_call_void drv to_url x m args j =
     (case (obj_at j x, args) of
        (Some (O_Bridge loc), [J_Ref s]) \<Rightarrow>
          (case string_at j s of
             None \<Rightarrow> ((), j\<lparr>pending := Some Null_Pointer_Exception\<rparr>)
           | Some path \<Rightarrow>
               (case setClassLoader to_url path loc of
                  (Inl e, _) \<Rightarrow> ((), j\<lparr>pending := Some e\<rparr>)
                | (Inr _, loc') \<Rightarrow> ((), j\<lparr>objs := (objs j)[the x - 200 := O_Bridge loc']\<rparr>)))
      | (Some O_Scanner, []) \<Rightarrow>
          run_java (if m = Some 108 then jopen drv else jclose drv) () (\<lambda>_ j. ((), j)) j
      | _ \<Rightarrow> ((), j))"

definition java_call_int :: "jref \<Rightarrow> ('w, 'r) jvm \<Rightarrow> int \<times> ('w, 'r) jvm" where
  "java_call_int x j =
     (case obj_at j x of
        Some (O_Names xs) \<Rightarrow> (int (length xs), j)
      | Some (O_Chunk as) \<Rightarrow> (int (length as), j)
      | Some O_Scanner \<Rightarrow> run_java getResultNumRows 0 (\<lambda>n j. (n, j)) j
      | _ \<Rightarrow> (0, j))"

definition java_jni :: "('w, 'r) jdbc \<Rightarrow> (string \<Rightarrow> jexn option) \<Rightarrow> ('w, 'r) jvm jni" where
  "java_jni drv to_url =
     \<lparr>FindClass = (\<lambda>n j. (map_of class_refs n, j)), GetMethodID = (\<lambda>c n sig j. (method_ref c n, j)),
      GetStaticMethodID = (\<lambda>c n sig j. (method_ref c n, j)), NewObject = (\<lambda>c m args j. java_new m args j),
      CallObjectMethod = java_call_object drv, CallStaticObjectMethod = (\<lambda>_ _ _ j. new_obj (O_String ''trace'') j),
      CallVoidMethod = java_call_void drv to_url,
      CallBooleanMethod = (\<lambda>_ _ _ j. run_java (hasNext drv) False (\<lambda>b j. (b, j)) j),
      CallIntMethod = (\<lambda>x _ _ j. java_call_int x j), NewStringUTF = (\<lambda>s j. new_obj (O_String s) j),
      GetStringUTFChars = (\<lambda>r j. (string_at j r, j)), ReleaseStringUTFChars = (\<lambda>_ j. ((), j)),
      NewGlobalRef = (\<lambda>r j. (r, j)), DeleteLocalRef = (\<lambda>_ j. ((), j)),
      ExceptionOccurred = (\<lambda>j. if pending j = None then None else Some 199),
      ExceptionClear = (\<lambda>j. ((), j\<lparr>pending := None\<rparr>)), CreateJavaVM = (\<lambda>j. (0, j))\<rparr>"

lemma java_jni_calls [simp]:
  "FindClass (java_jni drv u) = (\<lambda>n j. (map_of class_refs n, j))"
  "GetMethodID (java_jni drv u) = (\<lambda>c n sig j. (method_ref c n, j))"
  "GetStaticMethodID (java_jni drv u) = (\<lambda>c n sig j. (method_ref c n, j))"
  "NewObject (java_jni drv u) = (\<lambda>c m args j. java_new m args j)"
  "CallObjectMethod (java_jni drv u) = java_call_object drv"
  "CallStaticObjectMethod (java_jni drv u) = (\<lambda>_ _ _ j. new_obj (O_String ''trace'') j)"
  "CallVoidMethod (java_jni drv u) = java_call_void drv u"
  "CallBooleanMethod (java_jni drv u) = (\<lambda>_ _ _ j. run_java (hasNext drv) False (\<lambda>b j. (b, j)) j)"
  "CallIntMethod (java_jni drv u) = (\<lambda>x _ _ j. java_call_int x j)"
  "NewStringUTF (java_jni drv u) = (\<lambda>s j. new_obj (O_String s) j)"
  "GetStringUTFChars (java_jni drv u) = (\<lambda>r j. (string_at j r, j))"
  "ReleaseStringUTFChars (java_jni drv u) = (\<lambda>_ j. ((), j))"
  "NewGlobalRef (java_jni drv u) = (\<lambda>r j. (r, j))"
  "DeleteLocalRef (java_jni drv u) = (\<lambda>_ j. ((), j))"
  "ExceptionOccurred (java_jni drv u) = (\<lambda>j. if pending j = None then None else Some 199)"
  "ExceptionClear (java_jni drv u) = (\<lambda>j. ((), j\<lparr>pending := None\<rparr>))"
  "CreateJavaVM (java_jni drv u) = (\<lambda>j. (0, j))"
  by (simp_all add: java_jni_def)

text \<open>The classes and methods by name, evaluated once.\<close>

lemma class_ref_simps [simp]:
  "map_of class_refs JDBC_BRIDGE_CLASS_NAME = Some 13" "map_of class_refs JDBC_SCAN_CONTEXT_CLASS_NAME = Some 14"
  "map_of class_refs JDBC_SCANNER_CLASS_NAME = Some 15" "map_of class_refs JDBC_UTIL_CLASS_NAME = Some 16"
  by (code_simp; rule refl)+

lemma method_ref_simps [simp]:
  "method_ref (Some 13) ''<init>'' = Some 100" "method_ref (Some 13) ''setClassLoader'' = Some 101"
  "method_ref (Some 13) ''getScanner'' = Some 102" "method_ref (Some 14) ''<init>'' = Some 103"
  "method_ref (Some 15) ''hasNext'' = Some 104" "method_ref (Some 15) ''getNextChunk'' = Some 105"
  "method_ref (Some 15) ''getResultNumRows'' = Some 106" "method_ref (Some 15) ''close'' = Some 107"
  "method_ref (Some 15) ''open'' = Some 108" "method_ref (Some 15) ''getResultColumnClassNames'' = Some 109"
  "method_ref (Some 0) ''toString'' = Some 112"
  "method_ref (Some 3) ''toString'' = Some 113" "method_ref (Some 3) ''getStackTrace'' = Some 114"
  "method_ref (Some 4) ''toString'' = Some 115" "method_ref (Some 16) ''formatDate'' = Some 116"
  "method_ref (Some 16) ''formatLocalDatetime'' = Some 117"
  by (code_simp)+

section \<open>Running the C++ side on it\<close>

definition java_helper :: jvm_helper where
  "java_helper =
     \<lparr>object_class = Some 0, object_array_class = Some 1, string_class = Some 2, throwable_class = Some 3,
      jarrays_class = Some 4, list_class = Some 5,
      boxes = map (\<lambda>(p, i). (p, Some i, Some (120 + i), Some (120 + i)))
        [(''boolean'', 6), (''byte'', 7), (''short'', 8), (''int'', 9), (''long'', 10), (''float'', 11), (''double'', 12)],
      list_get_id = Some 110, list_size_id = Some 111\<rparr>"

text \<open>A process that has its machine and helper.\<close>

definition booted :: "('w, 'r) jvm jworld \<Rightarrow> bool" where
  "booted v \<longleftrightarrow> jni_init v \<and> jvm_ready java_helper v"

lemma booted_java [simp]: "booted (v\<lparr>java := j\<rparr>) = booted v"
  by (simp add: booted_def jvm_ready_def)

lemma booted_env: "booted v \<Longrightarrow> env_set v" "booted v \<Longrightarrow> jni_init v"
  by (simp_all add: booted_def jvm_ready_def)

lemma first_getInstance:
  assumes "\<not> jni_init v" "\<not> env_set v" "the_helper v = None"
  shows "getInstance_jvm (java_jni drv u) v =
    (Val java_helper, v\<lparr>jni_init := True, env_set := True, the_helper := Some java_helper\<rparr>)"
proof -
  have "helper_init (java_jni drv u) (v\<lparr>jni_init := True, env_set := True\<rparr>) =
      (Val java_helper, v\<lparr>jni_init := True, env_set := True\<rparr>)"
    by (simp add: helper_init_def JNI_FIND_CLASS_def add_numberic_class_def numeric_classes_def bind_run run_simps
        through_def jcall_def java_helper_def class_refs_def method_ref_def method_refs_def
        JDBC_BRIDGE_CLASS_NAME_def JDBC_SCAN_CONTEXT_CLASS_NAME_def JDBC_SCANNER_CLASS_NAME_def JDBC_UTIL_CLASS_NAME_def)
  with assms show ?thesis
    by (simp add: getInstance_jvm_def getJNIEnv_def bind_def run_simps jcall_def)
qed

named_theorems machine_simps \<open>rules that run the C++ scanner on the machine\<close>

lemma get_env_booted [machine_simps]: "booted (jw w) \<Longrightarrow> get_env jni w = (Val java_helper, w)"
  by (simp add: get_env_def on_jvm_def zoom_def booted_def getInstance_ready[where h = java_helper])

lemma env_call_run [machine_simps]:
  "booted (jw w) \<Longrightarrow> None \<notin> set refs \<Longrightarrow> f (java (jw w)) = (a, j) \<Longrightarrow>
   env_call refs f w = (Val a, w\<lparr>jw := (jw w)\<lparr>java := j\<rparr>\<rparr>)"
  by (simp add: env_call_def on_jvm_def zoom_def through_def jcall_def booted_env)

lemma check_none [machine_simps]:
  "pending (java (jw w)) = None \<Longrightarrow> check_java_exception (java_jni drv u) msg result rest w = rest w"
  by (simp add: check_java_exception_def bind_def run_simps)

lemma clazz_of_run [machine_simps]: "field (sc w) = Some c \<Longrightarrow> clazz_of field w = (Val c, w)"
  by (simp add: clazz_of_def bind_def run_simps)

lemma newInstance_run [machine_simps]:
  assumes "booted (jw w)"
  shows "on_jvm (newInstance (java_jni drv u) (Some 13)) w =
    (Val (statusor_of_value (Some (200 + length (objs (java (jw w)))))),
     w\<lparr>jw := (jw w)\<lparr>java := (java (jw w))\<lparr>objs := objs (java (jw w)) @ [O_Bridge None]\<rparr>\<rparr>\<rparr>)"
  using assms
  by (simp add: on_jvm_def zoom_def newInstance_def getJNIEnv_def booted_env bind_def run_simps jcall_def
      java_new_def new_obj_def)

lemma value_or_die_run [machine_simps]: "value_or_die (statusor_of_value x) w = (Val x, w)"
  by (simp add: value_or_die_def statusor_value_roundtrip)

lemma new_string_run [machine_simps]:
  "booted (jw w) \<Longrightarrow> env_call [] (new_obj x) w =
     (Val (Some (200 + length (objs (java (jw w))))), w\<lparr>jw := (jw w)\<lparr>java := (java (jw w))\<lparr>objs := objs (java (jw w)) @ [x]\<rparr>\<rparr>\<rparr>)"
  by (simp add: env_call_run new_obj_def)

lemma ref_move_fst [machine_simps]: "fst (ref_move_assign this other) = other"
  by (simp add: ref_move_assign_def ref_move_def)

text \<open>The bridge is made and told the location of the driver.\<close>

lemma init_jdbc_bridge_run:
  assumes "booted (jw w)" "objs (java (jw w)) = []" "pending (java (jw w)) = None"
    and "path = c_str (driver_path (scan_ctx (sc w)))" "u path = None"
  shows "init_jdbc_bridge (java_jni drv u) w =
    (Val OK, w\<lparr>jw := (jw w)\<lparr>java := (java (jw w))\<lparr>objs := [O_Bridge (Some path), O_String path]\<rparr>\<rparr>,
       sc := (sc w)\<lparr>jdbc_bridge_cls := Some (Some 13), jdbc_bridge := Some 200\<rparr>\<rparr>)"
  using assms(1-3,5) unfolding init_jdbc_bridge_def assms(4)[symmetric]
  by (simp add: bind_run run_simps machine_simps assms(4)[symmetric] java_call_void_def obj_at_def string_at_def
      setClassLoader_def jput_def)

text \<open>The context Java gets, made from the context of the C++ side.\<close>

definition java_context :: "scan_context \<Rightarrow> scan_ctx_java" where
  "java_context c =
     \<lparr>driverClassName = Some (c_str (driver_class_name c)), jdbcURL = Some (c_str (ctx_jdbc_url c)),
      user = Some (c_str (ctx_user c)), password = Some (c_str (ctx_passwd c)), sql = Some (c_str (ctx_sql c)),
      statementFetchSize = 128, connectionPoolSize = 8, minimumIdleConnections = 1, connectionIdleTimeoutMs = 60000\<rparr>"

definition context_objects :: "scan_context \<Rightarrow> jobject list" where
  "context_objects c =
     [O_String (c_str (driver_class_name c)), O_String (c_str (ctx_jdbc_url c)), O_String (c_str (ctx_user c)),
      O_String (c_str (ctx_passwd c)), O_String (c_str (ctx_sql c)), O_Context (java_context c)]"

lemma init_jdbc_scan_context_run:
  assumes "booted (jw w)" "objs (java (jw w)) = [x, y]" "pending (java (jw w)) = None"
  shows "init_jdbc_scan_context (java_jni drv u) w =
    (Val OK, w\<lparr>jw := (jw w)\<lparr>java := (java (jw w))\<lparr>objs := [x, y] @ context_objects (scan_ctx (sc w))\<rparr>\<rparr>,
       sc := (sc w)\<lparr>jdbc_scan_context := Some 207\<rparr>\<rparr>)"
  using assms unfolding init_jdbc_scan_context_def
  by (simp add: bind_run run_simps machine_simps java_new_def new_obj_def obj_at_def string_at_def
      context_objects_def java_context_def statement_fetch_size_def connection_pool_size_def
      minimum_idle_connections_def idle_timeout_ms_def)

definition scanner_ids :: "scanner \<Rightarrow> scanner" where
  "scanner_ids s = s\<lparr>jdbc_scanner := Some 208, jdbc_scanner_cls := Some (Some 15), scanner_has_next := Some 104,
     scanner_get_next_chunk := Some 105, scanner_result_rows := Some 106, scanner_close_id := Some 107\<rparr>"

text \<open>A pending exception is cleared, after its text has been made into strings.\<close>

lemma check_pending:
  assumes "booted (jw w)" "pending (java (jw w)) = Some e"
  shows "\<exists>ys. check_java_exception (java_jni drv u) msg result rest w =
    (Val (result (internal_error msg)),
     w\<lparr>jw := (jw w)\<lparr>java := (java (jw w))\<lparr>objs := objs (java (jw w)) @ ys, pending := None\<rparr>\<rparr>\<rparr>)"
proof -
  let ?ys = "[O_String ''object'', O_String ''object'', O_String ''trace'']"
  let ?w = "w\<lparr>jw := (jw w)\<lparr>java := (java (jw w))\<lparr>objs := objs (java (jw w)) @ ?ys, pending := None\<rparr>\<rparr>\<rparr>"
  have "\<exists>text_of. on_jvm (dumpExceptionString (java_jni drv u) java_helper (Some 199)) w = (Val text_of, ?w)"
    using assms
    by (simp add: on_jvm_def zoom_def dumpExceptionString_def getToStringMethod_def jvm_to_string_def to_cxx_string_def
        array_to_string_def bind_run run_simps through_def jcall_def booted_env java_helper_def java_call_object_def
        obj_at_def new_obj_def string_at_def nth_append)
  then obtain text_of where "on_jvm (dumpExceptionString (java_jni drv u) java_helper (Some 199)) w = (Val text_of, ?w)"
    by blast
  with assms show ?thesis
    by (intro exI[of _ ?ys]) (simp add: check_java_exception_def bind_run run_simps machine_simps)
qed

text \<open>The Java scanner is opened; what it throws ends in an error status.\<close>

lemma init_jdbc_scanner_run:
  assumes "booted (jw w)" "objs (java (jw w)) = [O_Bridge loc, y] @ context_objects ctx" "pending (java (jw w)) = None"
    and "jdbc_bridge_cls (sc w) = Some (Some 13)" "jdbc_bridge (sc w) = Some 200" "jdbc_scan_context (sc w) = Some 207"
    and "jopen drv ((mach (java (jw w)))\<lparr>me := JDBCScanner_new loc (Some (java_context ctx))\<rparr>) = (res, m)"
  obtains st w' ys where "init_jdbc_scanner (java_jni drv u) w = (Val st, w')" "booted (jw w')"
    "objs (java (jw w')) = [O_Bridge loc, y] @ context_objects ctx @ [O_Scanner] @ ys"
    "pending (java (jw w')) = None" "mach (java (jw w')) = m" "sc w' = scanner_ids (sc w)"
proof -
  let ?msg = "''open JDBCScanner failed''"
  let ?objs = "[O_Bridge loc, y] @ context_objects ctx @ [O_Scanner]"
  let ?exn = "case res of Inl e \<Rightarrow> Some e | Inr _ \<Rightarrow> None"
  let ?w = "w\<lparr>sc := scanner_ids (sc w), jw := (jw w)\<lparr>java := (java (jw w))\<lparr>objs := ?objs, pending := ?exn, mach := m\<rparr>\<rparr>\<rparr>"
  have j: "(java (jw w))\<lparr>pending := None\<rparr> = java (jw w)" using assms(3) by (cases "java (jw w)") simp
  have "init_jdbc_scanner (java_jni drv u) w = check_java_exception (java_jni drv u) ?msg id (ret OK) ?w"
    using assms unfolding init_jdbc_scanner_def
    by (cases res) (simp_all add: bind_run run_simps machine_simps java_call_object_def java_call_void_def new_obj_def
        obj_at_def getScanner_def jget_def run_java_def context_objects_def scanner_ids_def)
  moreover have "\<exists>st ys. check_java_exception (java_jni drv u) ?msg id (ret OK) ?w =
    (Val st, ?w\<lparr>jw := (jw ?w)\<lparr>java := (java (jw ?w))\<lparr>objs := ?objs @ ys, pending := None\<rparr>\<rparr>\<rparr>)"
  proof (cases ?exn)
    case None
    then show ?thesis by (intro exI[of _ OK] exI[of _ "[]"]) (simp add: machine_simps run_simps)
  next
    case (Some e)
    then show ?thesis using check_pending[of ?w e drv u ?msg id "ret OK"] assms(1) by auto
  qed
  ultimately obtain st ys where run: "init_jdbc_scanner (java_jni drv u) w =
    (Val st, ?w\<lparr>jw := (jw ?w)\<lparr>java := (java (jw ?w))\<lparr>objs := ?objs @ ys, pending := None\<rparr>\<rparr>\<rparr>)" by auto
  show thesis by (rule that[OF run]) (use assms(1) in simp_all)
qed

text \<open>What the column names make of it: none, an empty list, or the first of them.\<close>

lemma init_column_class_name_none:
  assumes "booted (jw w)" "obj_at (java (jw w)) (Some 208) = Some O_Scanner" "pending (java (jw w)) = None"
    and "jdbc_scanner_cls (sc w) = Some (Some 15)" "jdbc_scanner (sc w) = Some 208"
    and "resultColumnClassNames (me (mach (java (jw w)))) = None"
  obtains w' where "init_column_class_name (java_jni drv u) w = (Undef Null_Deref, w')"
    "mach (java (jw w')) = mach (java (jw w))"
proof (rule that)
  show "init_column_class_name (java_jni drv u) w = (Undef Null_Deref, w)"
    using assms unfolding init_column_class_name_def
    by (simp add: bind_run run_simps machine_simps java_call_object_def run_java_def getResultColumnClassNames_def
        jget_def on_jvm_def zoom_def jlist_size_def through_def)
qed simp

lemma init_column_class_name_empty:
  assumes "booted (jw w)" "obj_at (java (jw w)) (Some 208) = Some O_Scanner" "pending (java (jw w)) = None"
    and "jdbc_scanner_cls (sc w) = Some (Some 15)" "jdbc_scanner (sc w) = Some 208"
    and "resultColumnClassNames (me (mach (java (jw w)))) = Some []"
  obtains w' where "init_column_class_name (java_jni drv u) w = (Undef Missing_Return, w')"
    "mach (java (jw w')) = mach (java (jw w))"
proof (rule that)
  show "init_column_class_name (java_jni drv u) w = (Undef Missing_Return,
      w\<lparr>jw := (jw w)\<lparr>java := (java (jw w))\<lparr>objs := objs (java (jw w)) @ [O_Names []]\<rparr>\<rparr>,
        sc := (sc w)\<lparr>result_chunk := Some Chunk\<rparr>\<rparr>)"
    using assms unfolding init_column_class_name_def
    by (simp add: bind_run run_simps machine_simps java_call_object_def java_call_int_def new_obj_def obj_at_new
        run_java_def getResultColumnClassNames_def jget_def on_jvm_def zoom_def jlist_size_def through_def jcall_def
        booted_env java_helper_def)
qed simp

lemma init_column_class_name_run:
  assumes "booted (jw w)" "obj_at (java (jw w)) (Some 208) = Some O_Scanner" "pending (java (jw w)) = None"
    and "jdbc_scanner_cls (sc w) = Some (Some 15)" "jdbc_scanner (sc w) = Some 208"
    and "resultColumnClassNames (me (mach (java (jw w)))) = Some (c # cs)" "slot_descs (sc w) = slot # more_slots"
  shows "init_column_class_name (java_jni drv u) w =
    (Val OK, w\<lparr>jw := (jw w)\<lparr>java := (java (jw w))\<lparr>objs := objs (java (jw w)) @ [O_Names (c # cs), O_String c], pending := None\<rparr>\<rparr>,
       sc := (sc w)\<lparr>result_chunk := Some Chunk, column_class_names := column_class_names (sc w) @ [c_str c],
         result_column_types := result_column_types (sc w) @ [TYPE_VARCHAR]\<rparr>\<rparr>)"
  using assms unfolding init_column_class_name_def
  by (simp add: bind_run run_simps machine_simps java_call_object_def java_call_int_def new_obj_def obj_at_new
      obj_at_append obj_at_new2 string_at_def run_java_def getResultColumnClassNames_def jget_def on_jvm_def zoom_def
      jlist_size_def jlist_get_def jvm_to_string_def getToStringMethod_def to_cxx_string_def through_def jcall_def
      booted_env java_helper_def precheck_data_type_def Let_def)

lemma init_jdbc_util_run:
  assumes "booted (jw w)"
  shows "init_jdbc_util (java_jni drv u) w =
    (Val OK, w\<lparr>jw := (jw w)\<lparr>java := java (jw w)\<rparr>,
       sc := (sc w)\<lparr>jdbc_util_cls := Some (Some 16), util_format_date := Some 116, util_format_localdatetime := Some 117\<rparr>\<rparr>)"
  using assms unfolding init_jdbc_util_def
  by (simp add: bind_run run_simps machine_simps)

section \<open>Opening and reading through the interface\<close>

text \<open>A process whose machine has made no object yet, and the Java scanner its \<open>open\<close> will make.\<close>

definition fresh_machine :: "('w, 'r) jvm sworld \<Rightarrow> bool" where
  "fresh_machine w \<longleftrightarrow> booted (jw w) \<and> objs (java (jw w)) = [] \<and> pending (java (jw w)) = None"

definition java_start :: "('w, 'r) jvm sworld \<Rightarrow> ('w, 'r) jmach" where
  "java_start w = (mach (java (jw w)))\<lparr>me := JDBCScanner_new (Some (c_str (driver_path (scan_ctx (sc w)))))
     (Some (java_context (scan_ctx (sc w))))\<rparr>"

text \<open>A scanner whose object and method ids are those \<open>open\<close> left.\<close>

definition scanner_ready :: "('w, 'r) jvm sworld \<Rightarrow> bool" where
  "scanner_ready w \<longleftrightarrow> booted (jw w) \<and> pending (java (jw w)) = None \<and>
     obj_at (java (jw w)) (jdbc_scanner (sc w)) = Some O_Scanner \<and> scanner_has_next (sc w) = Some 104 \<and>
     scanner_get_next_chunk (sc w) = Some 105 \<and> scanner_result_rows (sc w) = Some 106"

lemma obj_at_ref: "obj_at j r = Some x \<Longrightarrow> \<exists>n. r = Some n"
  by (cases r) (simp_all add: obj_at_def)

text \<open>The whole of \<open>open\<close>, by the column names the Java scanner ends with.\<close>

lemma scanner_open_run:
  assumes "fresh_machine w" "u (c_str (driver_path (scan_ctx (sc w)))) = None"
    and "jopen drv (java_start w) = (res, m)" "slot_descs (sc w) \<noteq> []"
  obtains w' where "mach (java (jw w')) = m"
    "case resultColumnClassNames (me m) of
       None \<Rightarrow> scanner_open (java_jni drv u) w = (Undef Null_Deref, w')
     | Some [] \<Rightarrow> scanner_open (java_jni drv u) w = (Undef Missing_Return, w')
     | Some (c # cs) \<Rightarrow> scanner_open (java_jni drv u) w = (Val OK, w') \<and> scanner_ready w' \<and>
         column_class_names (sc w') = column_class_names (sc w) @ [c_str c]"
proof -
  let ?path = "c_str (driver_path (scan_ctx (sc w)))"
  obtain slot more_slots where slots: "slot_descs (sc w) = slot # more_slots" using assms(4) by (cases "slot_descs (sc w)") auto
  have f: "booted (jw w)" "objs (java (jw w)) = []" "pending (java (jw w)) = None"
    using assms(1) by (simp_all add: fresh_machine_def)
  obtain st where st: "on_jvm detect_java_runtime w = (Val st, w)"
    by (cases "JAVA_HOME (jw w)") (auto simp: on_jvm_def zoom_def detect_java_runtime_def bind_def run_simps)
  let ?j1 = "(java (jw w))\<lparr>objs := [O_Bridge (Some ?path), O_String ?path]\<rparr>"
  let ?w1 = "w\<lparr>jw := (jw w)\<lparr>java := ?j1\<rparr>, sc := (sc w)\<lparr>jdbc_bridge_cls := Some (Some 13), jdbc_bridge := Some 200\<rparr>\<rparr>"
  have 1: "init_jdbc_bridge (java_jni drv u) w = (Val OK, ?w1)"
    by (rule init_jdbc_bridge_run[where u = u, OF f refl assms(2)])
  let ?j2 = "?j1\<lparr>objs := [O_Bridge (Some ?path), O_String ?path] @ context_objects (scan_ctx (sc w))\<rparr>"
  let ?w2 = "?w1\<lparr>jw := (jw ?w1)\<lparr>java := ?j2\<rparr>, sc := (sc ?w1)\<lparr>jdbc_scan_context := Some 207\<rparr>\<rparr>"
  have 2: "init_jdbc_scan_context (java_jni drv u) ?w1 = (Val OK, ?w2)"
    using init_jdbc_scan_context_run[of ?w1 "O_Bridge (Some ?path)" "O_String ?path" drv u] f by simp
  obtain st3 w3 ys where 3: "init_jdbc_scanner (java_jni drv u) ?w2 = (Val st3, w3)" "booted (jw w3)"
    "objs (java (jw w3)) = [O_Bridge (Some ?path), O_String ?path] @ context_objects (scan_ctx (sc w)) @ [O_Scanner] @ ys"
    "pending (java (jw w3)) = None" "mach (java (jw w3)) = m" "sc w3 = scanner_ids (sc ?w2)"
    by (rule init_jdbc_scanner_run[of ?w2 "Some ?path" "O_String ?path" "scan_ctx (sc w)" drv res m u])
       (use f assms(3)[unfolded java_start_def] in simp_all)
  have ids: "jdbc_scanner_cls (sc w3) = Some (Some 15)" "jdbc_scanner (sc w3) = Some 208"
    "slot_descs (sc w3) = slot # more_slots" "column_class_names (sc w3) = column_class_names (sc w)"
    "scanner_has_next (sc w3) = Some 104" "scanner_get_next_chunk (sc w3) = Some 105" "scanner_result_rows (sc w3) = Some 106"
    using slots by (simp_all add: 3(6) scanner_ids_def)
  have obj: "obj_at (java (jw w3)) (Some 208) = Some O_Scanner"
    using 3(3) by (simp add: obj_at_def context_objects_def)
  have steps: "scanner_open (java_jni drv u) w =
      bind (init_column_class_name (java_jni drv u)) (\<lambda>_. bind (init_jdbc_util (java_jni drv u)) (\<lambda>_. ret OK)) w3"
    by (simp only: scanner_open_def bind_def st 1 2 3(1) prod.case res.case)
  consider (none) "resultColumnClassNames (me m) = None" | (empty) "resultColumnClassNames (me m) = Some []"
    | (names) c cs where "resultColumnClassNames (me m) = Some (c # cs)"
    by (metis neq_Nil_conv option.exhaust)
  then show thesis
  proof cases
    case none
    obtain w4 where "init_column_class_name (java_jni drv u) w3 = (Undef Null_Deref, w4)"
      "mach (java (jw w4)) = mach (java (jw w3))"
      by (rule init_column_class_name_none[OF 3(2) obj 3(4) ids(1,2), of drv u]) (use none 3(5) in simp_all)
    with none 3(5) steps show ?thesis by (intro that[of w4]) (simp_all add: bind_run)
  next
    case empty
    obtain w4 where "init_column_class_name (java_jni drv u) w3 = (Undef Missing_Return, w4)"
      "mach (java (jw w4)) = mach (java (jw w3))"
      by (rule init_column_class_name_empty[OF 3(2) obj 3(4) ids(1,2), of drv u]) (use empty 3(5) in simp_all)
    with empty 3(5) steps show ?thesis by (intro that[of w4]) (simp_all add: bind_run)
  next
    case names
    have "resultColumnClassNames (me (mach (java (jw w3)))) = Some (c # cs)" using names 3(5) by simp
    from init_column_class_name_run[OF 3(2) obj 3(4) ids(1,2) this ids(3), of drv u]
    obtain w4 where 4: "init_column_class_name (java_jni drv u) w3 = (Val OK, w4)" "mach (java (jw w4)) = m" "scanner_ready w4"
      "column_class_names (sc w4) = column_class_names (sc w) @ [c_str c]"
      using 3(2,5) obj_at_append[OF obj] ids by (auto simp: scanner_ready_def)
    let ?w5 = "w4\<lparr>jw := (jw w4)\<lparr>java := java (jw w4)\<rparr>, sc := (sc w4)\<lparr>jdbc_util_cls := Some (Some 16),
      util_format_date := Some 116, util_format_localdatetime := Some 117\<rparr>\<rparr>"
    have "init_jdbc_util (java_jni drv u) w4 = (Val OK, ?w5)"
      using 4(3) by (intro init_jdbc_util_run) (simp add: scanner_ready_def)
    with 4 names steps show ?thesis by (intro that[of ?w5]) (simp_all add: bind_run run_simps scanner_ready_def)
  qed
qed

lemma has_next_run:
  assumes "scanner_ready w" "hasNext drv (mach (java (jw w))) = (Inr b, m)"
  shows "has_next_call (java_jni drv u) False w =
    (Val (OK, b), w\<lparr>jw := (jw w)\<lparr>java := (java (jw w))\<lparr>mach := m\<rparr>\<rparr>\<rparr>)"
proof -
  obtain y where "jdbc_scanner (sc w) = Some y"
    using assms(1) obj_at_ref unfolding scanner_ready_def by metis
  with assms show ?thesis unfolding has_next_call_def
    by (simp add: scanner_ready_def bind_run run_simps machine_simps run_java_def)
qed

lemma get_next_chunk_run:
  assumes "scanner_ready w" "getNextChunk drv (mach (java (jw w))) = (Inr (Some as), m)"
  obtains n w' r where "get_next_chunk_call (java_jni drv u) 0 w = (Val (OK, r, n), w')"
    "mach (java (jw w')) = m" "booted (jw w')" "obj_at (java (jw w')) r = Some (O_Chunk as)"
proof -
  let ?j = "(java (jw w))\<lparr>mach := m, objs := objs (java (jw w)) @ [O_Chunk as]\<rparr>"
  obtain y where y: "jdbc_scanner (sc w) = Some y"
    using assms(1) obj_at_ref unfolding scanner_ready_def by metis
  have obj: "obj_at ?j (jdbc_scanner (sc w)) = Some O_Scanner"
    using obj_at_append[of "(java (jw w))\<lparr>mach := m\<rparr>"] assms(1) by (simp add: scanner_ready_def)
  have r: "run_java getResultNumRows 0 (\<lambda>n j. (n, j)) ?j = (resultNumRows (me m), ?j)"
    by (simp add: run_java_def getResultNumRows_def jget_def)
  have called: "get_next_chunk_call (java_jni drv u) 0 w =
    (Val (OK, Some (200 + length (objs (java (jw w)))), nat (resultNumRows (me m) mod 2 ^ 64)),
     w\<lparr>jw := (jw w)\<lparr>java := ?j\<rparr>\<rparr>)"
    using assms y obj r unfolding get_next_chunk_call_def
    by (simp add: scanner_ready_def bind_run run_simps machine_simps java_call_object_def java_call_int_def new_obj_def
        run_java_def[of "getNextChunk drv"])
  have "obj_at ?j (Some (200 + length (objs (java (jw w))))) = Some (O_Chunk as)"
    using obj_at_new[of "(java (jw w))\<lparr>mach := m\<rparr>" "O_Chunk as"] by simp
  then show thesis by (intro that[OF called]) (use assms(1) in \<open>simp_all add: scanner_ready_def\<close>)
qed

text \<open>Looking at the columns of a chunk leaves the Java scanner alone.\<close>

lemma look_at_columns:
  assumes "booted (jw w)" "obj_at (java (jw w)) r = Some (O_Chunk as)"
  shows "\<exists>cs w'. for_each (\<lambda>i. on_jvm (jlist_get (java_jni drv u) java_helper r (int i))) xs w = (Val cs, w') \<and>
    mach (java (jw w')) = mach (java (jw w))"
  using assms
proof (induction xs arbitrary: w)
  case (Cons i xs)
  obtain c j where j: "java_call_object drv r (Some 110) [J_Int (int i)] (java (jw w)) = (c, j)"
    "mach j = mach (java (jw w))" "obj_at j r = Some (O_Chunk as)"
    using Cons.prems(2) obj_at_append[OF Cons.prems(2)]
    by (cases "i < length as") (simp_all add: java_call_object_def new_obj_def)
  let ?w = "w\<lparr>jw := (jw w)\<lparr>java := j\<rparr>\<rparr>"
  obtain n where "r = Some n" using obj_at_ref[OF Cons.prems(2)] by blast
  with j(1) Cons.prems(1)
  have step: "on_jvm (jlist_get (java_jni drv u) java_helper r (int i)) w = (Val c, ?w)"
    by (simp add: on_jvm_def zoom_def jlist_get_def java_helper_def through_def jcall_def booted_env)
  obtain cs w' where "for_each (\<lambda>i. on_jvm (jlist_get (java_jni drv u) java_helper r (int i))) xs ?w = (Val cs, w')"
    "mach (java (jw w')) = mach (java (jw ?w))"
    using Cons.IH[of ?w] Cons.prems(1) j(3) by auto
  with step j(2) show ?case by (simp add: bind_run run_simps)
qed (simp add: run_simps)

lemma file_chunk_run:
  assumes "booted (jw w)" "obj_at (java (jw w)) r = Some (O_Chunk as)"
  obtains w' where "file_chunk (java_jni drv u) r n chunk w = (Undef Missing_Return, w')"
    "mach (java (jw w')) = mach (java (jw w))"
proof -
  obtain cs w' where "for_each (\<lambda>i. on_jvm (jlist_get (java_jni drv u) java_helper r (int i)))
      [0..<length (slot_descs (sc w))] w = (Val cs, w')" "mach (java (jw w')) = mach (java (jw w))"
    using look_at_columns[OF assms] by blast
  then show thesis using assms(1)
    by (intro that[of w']) (simp_all add: file_chunk_def bind_run run_simps machine_simps)
qed

text \<open>A read of the C++ scanner on a result set of known rows.\<close>

lemma get_next_run:
  assumes "scanner_ready w" "scanning F r classes as (mach (java (jw w)))" "0 < F"
    and "\<forall>x \<in> set rows. fits drv classes x" "rs_delivers drv r rows (db (mach (java (jw w))))"
  shows "\<exists>w'. scanner_get_next (java_jni drv u) chunk w =
      (if rows = [] then Val (OK, chunk, True) else Undef Missing_Return, w') \<and>
    rs_delivers drv r (drop (nat F) rows) (db (mach (java (jw w'))))"
proof (cases rows)
  case Nil
  with assms(5) scanning_fields[OF assms(2)]
  have "hasNext drv (mach (java (jw w))) = (Inr False, mach (java (jw w)))"
    by (simp add: hasNext_def jbind_def java_simps on_db_def)
  from has_next_run[OF assms(1) this, of u] Nil assms(5) show ?thesis
    by (simp add: scanner_get_next_def bind_run run_simps)
next
  case (Cons row rest)
  let ?m = "mach (java (jw w))"
  obtain d where d: "rs_next drv r (db ?m) = (Inr True, d)" "on_row drv r row d" "rs_delivers drv r rest d"
    using assms(5) Cons by auto
  let ?w = "w\<lparr>jw := (jw w)\<lparr>java := (java (jw w))\<lparr>mach := ?m\<lparr>db := d\<rparr>\<rparr>\<rparr>\<rparr>"
  have more: "hasNext drv ?m = (Inr True, ?m\<lparr>db := d\<rparr>)"
    using d(1) scanning_fields[OF assms(2)] by (simp add: hasNext_def jbind_def java_simps on_db_def)
  note 1 = has_next_run[OF assms(1) more, of u]
  have o: "scanner_ready ?w" using assms(1) by (simp add: scanner_ready_def)
  obtain m t where m: "getNextChunk drv (?m\<lparr>db := d\<rparr>) = (Inr (Some as), m)" "t = min (nat F) (Suc (length rest))"
    "rs_delivers drv r (drop t (row # rest)) (db m)"
    by (rule getNextChunk_run[of F r classes as "?m\<lparr>db := d\<rparr>" row rest drv]) (use assms(2-4) d Cons in auto)
  obtain n w2 c where 2: "get_next_chunk_call (java_jni drv u) 0 ?w = (Val (OK, c, n), w2)"
    "mach (java (jw w2)) = m" "booted (jw w2)" "obj_at (java (jw w2)) c = Some (O_Chunk as)"
    by (rule get_next_chunk_run[OF o, of drv as m u]) (use m(1) in simp_all)
  obtain w3 where 3: "file_chunk (java_jni drv u) c n chunk w2 = (Undef Missing_Return, w3)"
    "mach (java (jw w3)) = mach (java (jw w2))"
    by (rule file_chunk_run[OF 2(3,4)])
  have "scanner_get_next (java_jni drv u) chunk w = (Undef Missing_Return, w3)"
    using 1 2(1) 3(1) by (simp add: scanner_get_next_def bind_run run_simps)
  moreover have "drop (nat F) rows = drop t (row # rest)"
    using m(2) Cons by (simp add: min_def)
  ultimately show ?thesis using m(3) 2(2) 3(2) Cons by auto
qed

section \<open>What the two halves promise together\<close>


text \<open>A machine with the driver's demonstration rows, in a process that has a scanner with one slot.\<close>

definition demo_slot :: slot_descriptor where
  "demo_slot = fst (SlotDescriptor [] 1 (TypeDescriptor_of TYPE_INT) 1 ''c'' 0 4 True)"

definition demo_sworld :: "(unit jval option list list \<times> unit jval option list option, unit) jvm sworld" where
  "demo_sworld = \<lparr>jw = \<lparr>java = \<lparr>objs = [], pending = None, mach = demo_jmach\<rparr>, jni_init = True, env_set = True,
     the_helper = Some java_helper, JAVA_HOME = None, statuses = []\<rparr>,
     sc = plain_scanner\<lparr>slot_descs := [demo_slot]\<rparr>\<rparr>"

text \<open>A driver whose second column class cannot be loaded.\<close>

definition demo_broken :: "(unit jval option list list \<times> unit jval option list option, unit) jdbc" where
  "demo_broken = (list_jdbc demo_classes demo_rows no_floats)\<lparr>known_class := (\<lambda>c. c = ''java.lang.Integer'')\<rparr>"

lemma demo_fresh: "fresh_machine demo_sworld" "slot_descs (sc demo_sworld) \<noteq> []"
  by (simp_all add: fresh_machine_def demo_sworld_def booted_def jvm_ready_def)


text \<open>Reading the result of an opened scanner: with no row, \<open>get\_next\<close> reports the end; with rows,
  it takes the first 128 of them, or all when there are fewer, out of the result set, and then ends
  in undefined behaviour, so they reach no reader. No row is ever delivered.\<close>

theorem rows_are_taken_and_lost:
  assumes "fresh_machine w" "u (c_str (driver_path (scan_ctx (sc w)))) = None" "slot_descs (sc w) \<noteq> []"
    and "scanner_open (java_jni drv u) w = (Val st, w')"
    and "fst (jopen drv (java_start w)) = Inr ()" "resultSet (me (mach (java (jw w')))) = Some r"
    and "rs_delivers drv r rows (db (mach (java (jw w'))))"
    and "\<forall>row \<in> set rows. \<forall>classes. resultColumnClassNames (me (mach (java (jw w')))) = Some classes \<longrightarrow> fits drv classes row"
  shows "\<exists>w''. scanner_get_next (java_jni drv u) chunk w' =
      (if rows = [] then Val (OK, chunk, True) else Undef Missing_Return, w'') \<and>
    rs_delivers drv r (drop 128 rows) (db (mach (java (jw w''))))"
proof -
  obtain m where m: "jopen drv (java_start w) = (Inr (), m)"
    using assms(5) by (cases "jopen drv (java_start w)") auto
  obtain w1 where w1: "mach (java (jw w1)) = m"
    "case resultColumnClassNames (me m) of
       None \<Rightarrow> scanner_open (java_jni drv u) w = (Undef Null_Deref, w1)
     | Some [] \<Rightarrow> scanner_open (java_jni drv u) w = (Undef Missing_Return, w1)
     | Some (c # cs) \<Rightarrow> scanner_open (java_jni drv u) w = (Val OK, w1) \<and> scanner_ready w1 \<and>
         column_class_names (sc w1) = column_class_names (sc w) @ [c_str c]"
    by (rule scanner_open_run[where u = u, OF assms(1,2) m assms(3)])
  with assms(4) have w': "w1 = w'" "scanner_ready w'" by (auto split: option.splits list.splits)
  have ctx: "scanContext (me (java_start w)) = Some (java_context (scan_ctx (sc w)))"
    "statementFetchSize (java_context (scan_ctx (sc w))) = 128"
    by (simp_all add: java_start_def JDBCScanner_new_def java_context_def)
  obtain classes as where s: "scanning 128 r classes as m" "resultColumnClassNames (me m) = Some classes"
    using jopen_scanning[OF m ctx(1)] assms(6) w1(1) ctx(2) w'(1) scanning_fields by (metis option.inject)
  from get_next_run[OF w'(2), of 128 r classes as rows drv u chunk] s w1(1) w'(1) assms(7,8)
  show ?thesis by auto
qed

theorem rows_are_taken_and_lost_witness:
  "\<exists>w' w''. scanner_open (java_jni (list_jdbc demo_classes demo_rows no_floats) (\<lambda>_. None)) demo_sworld = (Val OK, w') \<and>
    db (mach (java (jw w'))) = (demo_rows, None) \<and>
    scanner_get_next (java_jni (list_jdbc demo_classes demo_rows no_floats) (\<lambda>_. None)) None w' =
      (Undef Missing_Return, w'') \<and>
    fst (rs_next (list_jdbc demo_classes demo_rows no_floats) 3 (db (mach (java (jw w''))))) = Inr False"
proof -
  let ?drv = "list_jdbc demo_classes demo_rows no_floats"
  obtain m where m: "jopen ?drv (java_start demo_sworld) = (Inr (), m)" "db m = (demo_rows, None)"
    "resultColumnClassNames (me m) = Some demo_classes" "resultSet (me m) = Some 3"
    by (simp add: java_start_def demo_sworld_def demo_jmach_def demo_classes_def list_jdbc_def jopen_def
        jbind_def java_simps on_db_def get_source_def source_provider_def JDBCScanner_new_def java_context_def)
  obtain w' where w': "mach (java (jw w')) = m" "scanner_open (java_jni ?drv (\<lambda>_. None)) demo_sworld = (Val OK, w')"
    by (rule scanner_open_run[where u = "\<lambda>_. None", OF demo_fresh(1) refl m(1) demo_fresh(2)])
       (simp add: m(3) demo_classes_def)
  have ne: "demo_rows \<noteq> []" by (simp add: demo_rows_def)
  have rd: "rs_delivers ?drv 3 demo_rows (db (mach (java (jw w'))))" using m(2) w'(1) list_jdbc_delivers by simp
  obtain w'' where "scanner_get_next (java_jni ?drv (\<lambda>_. None)) None w' = (Undef Missing_Return, w'')"
    "rs_delivers ?drv 3 (drop 128 demo_rows) (db (mach (java (jw w''))))"
    using rows_are_taken_and_lost[where u = "\<lambda>_. None" and chunk = None, OF demo_fresh(1) refl demo_fresh(2) w'(2) _ _ rd]
      m w'(1) demo_fits ne by auto
  with w' m(2) show ?thesis by (intro exI[of _ w'] exI[of _ w'']) (simp add: demo_rows_def)
qed

end
