(* ===== verification/Java_Pipeline.thy ===== *)
theory Java_Pipeline
  imports Pipeline Java_Machine
begin

text \<open>
  From the cache of drivers to the Java scanner: the data source of Pipeline opened on the machine
  of Java\_Machine.
\<close>

text \<open>C18. Opening the data source on the machine that runs the bridge: when it returns, the Java scanner
  has been opened, once, with the driver at the location the driver cache holds for the program's
  driver and checksum, and with the program's URL, user, password and query in its context; what
  the machine is left with is what that Java \<open>open\<close> left, whether it returned or threw.\<close>

theorem open_reaches_java:
  fixes drv :: "('w, 'r) jdbc"
  assumes "mgr_ok (drivers_mgr w)" "desc_tbl state = Some t" "get_tuple_descriptor t 123 = Some tuple" "slots tuple \<noteq> []"
    and "p_jni pf = java_jni drv to_url" "\<forall>path. to_url path = None"
    and "booted (vm w)" "objs (java (vm w)) = []" "pending (java (vm w)) = None"
    and "data_source_open pf state w = (Val st, w')"
  shows "\<exists>loc res. cache_of (drivers_mgr w') driver_name = Some (driver_checksum, loc) \<and>
    jopen drv ((mach (java (vm w)))\<lparr>me := JDBCScanner_new (Some (c_str loc)) (Some (java_context (scan_context_for loc)))\<rparr>) =
      (res, mach (java (vm w')))"
proof -
  obtain loc s o1 v where c: "cache_of (drivers_mgr w') driver_name = Some (driver_checksum, loc)"
    and s: "scan_ctx s = scan_context_for loc" "slot_descs s \<noteq> []"
    and v: "scanner_open (java_jni drv to_url) \<lparr>jw = vm w, sc = s\<rparr> = (Val o1, v)" "vm w' = jw v"
    by (rule data_source_open_steps[OF assms(1,2,10)]) (use assms(3-5) in auto)
  let ?sw = "\<lparr>jw = vm w, sc = s\<rparr>"
  obtain res m where m: "jopen drv (java_start ?sw) = (res, m)" by fastforce
  have "fresh_machine ?sw" using assms(7-9) by (simp add: fresh_machine_def)
  then have "mach (java (jw v)) = m"
    by (rule scanner_open_run[where u = to_url, OF _ _ m])
       (use assms(6) s(2) v(1) in \<open>auto split: option.splits list.splits\<close>)
  with c m s(1) v(2) show ?thesis
    by (intro exI[of _ loc] exI[of _ res]) (simp add: java_start_def scan_context_for_def)
qed

definition java_platform ::
    "(string, (unit jval option list list \<times> unit jval option list option, unit) jvm) platform" where
  "java_platform = \<lparr>p_ext = example_ext [''ab''], p_env = roomy_os, p_falls = True,
     p_jni = java_jni (list_jdbc demo_classes demo_rows no_floats) (\<lambda>_. None), p_clock = (\<lambda>_. 5)\<rparr>"

definition java_pipe :: "(unit jval option list list \<times> unit jval option list option, unit) jvm pipe" where
  "java_pipe = \<lparr>drivers_mgr = start, vm = jw demo_sworld, ticks = 0, src_tuple_desc = None,
     src_scanner = None, base_status = OK, own_status = OK, opened = False, has_source = True, scan_status = OK\<rparr>"

lemma java_pipe_opens: "\<exists>w'. data_source_open java_platform demo_state java_pipe = (Val OK, w')"
proof -
  let ?drv = "list_jdbc demo_classes demo_rows no_floats"
  obtain t where t: "desc_tbl demo_state = Some t" by (simp add: demo_state_def RuntimeState_def)
  then obtain tuple where tuple: "get_tuple_descriptor t 123 = Some tuple" "slots tuple \<noteq> []"
    by (auto simp: demo_state_def get_tuple_descriptor_def demo_slots_def)
  obtain st1 loc m where g: "get_driver_location (p_ext java_platform) (p_env java_platform) (p_clock java_platform 0)
      driver_name driver_url driver_checksum (drivers_mgr java_pipe) = ((st1, loc), m)" by (metis prod.collapse)
  have "mgr_ok (drivers_mgr java_pipe)" by (simp add: java_pipe_def)
  from get_driver_location_refines[OF this g] have st1: "st1 = OK" by blast
  obtain s where s: "JDBCScanner (scan_context_for loc) (Some tuple) = Val s" "slot_descs s = slots tuple"
    by (auto simp: JDBCScanner_def)
  let ?sw = "\<lparr>jw = vm java_pipe, sc = s\<rparr>"
  have "mach (java (jw ?sw)) = demo_jmach" by (simp add: java_pipe_def demo_sworld_def)
  then obtain j where j: "jopen ?drv (java_start ?sw) = (Inr (), j)" "resultColumnClassNames (me j) = Some demo_classes"
    by (simp add: java_start_def demo_jmach_def demo_classes_def list_jdbc_def jopen_def
        jbind_def java_simps on_db_def get_source_def source_provider_def JDBCScanner_new_def java_context_def)
  have "fresh_machine ?sw" using demo_fresh(1) by (simp add: java_pipe_def fresh_machine_def)
  then obtain v where v: "scanner_open (p_jni java_platform) ?sw = (Val OK, v)"
    by (rule scanner_open_run[where u = "\<lambda>_. None", OF _ refl j(1)])
       (use s(2) tuple(2) j(2) in \<open>auto simp: demo_classes_def java_platform_def\<close>)
  show ?thesis
    using t g st1 s(1) v tuple(1)
    by (simp add: data_source_open_def desc_tbl_ref_def create_scanner_def with_scanner_def bind_run run_simps java_pipe_def)
qed

theorem open_reaches_java_witness:
  "\<exists>w' loc res. data_source_open java_platform demo_state java_pipe = (Val OK, w') \<and>
    cache_of (drivers_mgr w') driver_name = Some (driver_checksum, loc) \<and>
    jopen (list_jdbc demo_classes demo_rows no_floats)
      (demo_jmach\<lparr>me := JDBCScanner_new (Some (c_str loc)) (Some (java_context (scan_context_for loc)))\<rparr>) =
      (res, mach (java (vm w')))"
proof -
  obtain w' where r: "data_source_open java_platform demo_state java_pipe = (Val OK, w')" using java_pipe_opens ..
  have ok: "mgr_ok (drivers_mgr java_pipe)" by (simp add: java_pipe_def)
  obtain t where t: "desc_tbl demo_state = Some t" by (simp add: demo_state_def RuntimeState_def)
  then obtain tuple where tuple: "get_tuple_descriptor t 123 = Some tuple" "slots tuple \<noteq> []"
    by (auto simp: demo_state_def get_tuple_descriptor_def demo_slots_def)
  have "booted (vm java_pipe)" "objs (java (vm java_pipe)) = []" "pending (java (vm java_pipe)) = None"
    using demo_fresh(1) by (simp_all add: java_pipe_def fresh_machine_def)
  from open_reaches_java[OF ok t tuple _ _ this r] r show ?thesis
    by (auto simp: java_platform_def java_pipe_def demo_sworld_def)
qed

section \<open>Reading through the pipeline\<close>

text \<open>
  What the database answers: on the machine \<open>m0\<close>, opening a Java scanner with the program's query
  succeeds, wherever the driver is, with result set \<open>r\<close>, its columns and its rows.
\<close>

definition query_yields ::
    "('w, 'r) jdbc \<Rightarrow> ('w, 'r) jmach \<Rightarrow> nat \<Rightarrow> string list \<Rightarrow> 'r jval option list list \<Rightarrow> bool" where
  "query_yields drv m0 r classes rows \<longleftrightarrow>
     classes \<noteq> [] \<and> (\<forall>row \<in> set rows. fits drv classes row) \<and>
     (\<forall>loc. \<exists>m. jopen drv (m0\<lparr>me := JDBCScanner_new (Some (c_str loc)) (Some (java_context (scan_context_for loc)))\<rparr>) =
        (Inr (), m) \<and> resultSet (me m) = Some r \<and> resultColumnClassNames (me m) = Some classes \<and> rs_delivers drv r rows (db m))"

text \<open>The scanner of the C++ side and that of Java behind it, with \<open>rows\<close> to come.\<close>

definition rows_to_come ::
    "('w, 'r) jdbc \<Rightarrow> nat \<Rightarrow> string list \<Rightarrow> 'r jval option list list \<Rightarrow> ('w, 'r) jvm sworld set" where
  "rows_to_come drv r classes rows = {x. scanner_ready x \<and> (\<exists>as. scanning 128 r classes as (mach (java (jw x)))) \<and>
     rs_delivers drv r rows (db (mach (java (jw x))))}"

lemma open_rows_to_come:
  fixes drv :: "('w, 'r) jdbc"
  assumes "fresh_machine x" "u (c_str (driver_path (scan_ctx (sc x)))) = None" "slot_descs (sc x) \<noteq> []"
    and "scan_ctx (sc x) = scan_context_for loc" "query_yields drv (mach (java (jw x))) r classes rows"
  obtains v where "scanner_open (java_jni drv u) x = (Val OK, v)" "v \<in> rows_to_come drv r classes rows"
proof -
  have "java_start x = (mach (java (jw x)))\<lparr>me := JDBCScanner_new (Some (c_str loc)) (Some (java_context (scan_context_for loc)))\<rparr>"
    using assms(4) by (simp add: java_start_def) (simp add: scan_context_for_def)
  moreover have "\<exists>m. jopen drv ((mach (java (jw x)))\<lparr>me := JDBCScanner_new (Some (c_str loc)) (Some (java_context (scan_context_for loc)))\<rparr>) =
      (Inr (), m) \<and> resultSet (me m) = Some r \<and> resultColumnClassNames (me m) = Some classes \<and> rs_delivers drv r rows (db m)"
    using assms(5) unfolding query_yields_def by blast
  ultimately obtain m where m: "jopen drv (java_start x) = (Inr (), m)" "resultSet (me m) = Some r"
    "resultColumnClassNames (me m) = Some classes" "rs_delivers drv r rows (db m)" by auto
  have ctx: "scanContext (me (java_start x)) = Some (java_context (scan_ctx (sc x)))"
    "statementFetchSize (java_context (scan_ctx (sc x))) = 128"
    by (simp_all add: java_start_def JDBCScanner_new_def java_context_def)
  obtain r' as where s': "scanning 128 r' classes as m"
    using jopen_scanning[OF m(1) ctx(1)] m(3) unfolding ctx(2) by auto
  from scanning_fields[OF s'] m(2) have s: "scanning 128 r classes as m" using s' by simp
  obtain c cs where "classes = c # cs" using assms(5) by (cases classes) (simp_all add: query_yields_def)
  with m(3) have "resultColumnClassNames (me m) = Some (c # cs)" by simp
  then obtain v where v: "scanner_open (java_jni drv u) x = (Val OK, v)" "scanner_ready v" "mach (java (jw v)) = m"
    using scanner_open_run[where u = u, OF assms(1,2) m(1) assms(3)] by (auto split: option.splits)
  show thesis
    by (rule that[OF v(1)]) (use v(2,3) s m(4) in \<open>auto simp: rows_to_come_def\<close>)
qed

lemma source_opens:
  fixes drv :: "('w, 'r) jdbc"
  assumes "mgr_ok (drivers_mgr w)" "desc_tbl state = Some t" "get_tuple_descriptor t 123 = Some tuple" "slots tuple \<noteq> []"
    and "p_jni pf = java_jni drv to_url" "\<forall>path. to_url path = None"
    and "booted (vm w)" "objs (java (vm w)) = []" "pending (java (vm w)) = None"
    and "query_yields drv (mach (java (vm w))) r classes rows"
  obtains w' s where "data_source_open pf state w = (Val OK, w')" "src_scanner w' = Some s"
    "\<lparr>jw = vm w', sc = s\<rparr> \<in> rows_to_come drv r classes rows"
proof -
  obtain st1 loc m where g: "get_driver_location (p_ext pf) (p_env pf) (p_clock pf (ticks w))
      driver_name driver_url driver_checksum (drivers_mgr w) = ((st1, loc), m)" by (metis prod.collapse)
  from get_driver_location_refines[OF assms(1) g] have st1: "st1 = OK" by blast
  obtain s where s: "JDBCScanner (scan_context_for loc) (Some tuple) = Val s" "slot_descs s = slots tuple"
    "scan_ctx s = scan_context_for loc"
    by (auto simp: JDBCScanner_def)
  let ?x = "\<lparr>jw = vm w, sc = s\<rparr>"
  obtain v where v: "scanner_open (p_jni pf) ?x = (Val OK, v)" "v \<in> rows_to_come drv r classes rows"
    by (rule open_rows_to_come[of ?x to_url loc drv r classes rows])
       (use assms(4-10) s in \<open>auto simp: fresh_machine_def\<close>)
  have v2: "\<lparr>jw = jw v, sc = sc v\<rparr> \<in> rows_to_come drv r classes rows" using v(2) by (cases v) simp
  show thesis
    by (rule that[of "w\<lparr>src_tuple_desc := Some tuple, drivers_mgr := m, ticks := Suc (ticks w), vm := jw v,
          src_scanner := Some (sc v)\<rparr>" "sc v"])
       (use assms(2,3) g st1 s(1) v(1) v2 in \<open>simp_all add: data_source_open_def desc_tbl_ref_def create_scanner_def
          with_scanner_def bind_run run_simps\<close>)
qed

text \<open>With rows to come the read is undefined; with none it never ends.\<close>

lemma no_rows_exhausted: "exhausted (java_jni drv u) (rows_to_come drv r classes [])"
  unfolding exhausted_def
proof
  fix x assume x: "x \<in> rows_to_come drv r classes []"
  then obtain as where s: "scanner_ready x" "scanning 128 r classes as (mach (java (jw x)))"
    "rs_next drv r (db (mach (java (jw x)))) = (Inr False, db (mach (java (jw x))))"
    by (auto simp: rows_to_come_def)
  then have "hasNext drv (mach (java (jw x))) = (Inr False, mach (java (jw x)))"
    using scanning_fields[OF s(2)] by (simp add: hasNext_def jbind_def java_simps on_db_def)
  from has_next_run[OF s(1) this, of u] x
  show "\<exists>st x'. has_next_call (java_jni drv u) False x = (Val (st, False), x') \<and> x' \<in> rows_to_come drv r classes []"
    by (intro exI[of _ OK]) simp
qed

lemma rows_are_undefined:
  assumes "p_jni pf = java_jni drv u" "src_scanner w = Some s" "\<lparr>jw = vm w, sc = s\<rparr> \<in> rows_to_come drv r classes rows"
    and "rows \<noteq> []" "\<forall>row \<in> set rows. fits drv classes row" "ok (own_status w)"
  obtains w' where "read_loop pf w = Some (Undef Missing_Return, w')"
    "rs_delivers drv r (drop 128 rows) (db (mach (java (vm w'))))"
proof -
  let ?x = "\<lparr>jw = vm w, sc = s\<rparr>"
  obtain as where "scanner_ready ?x" "scanning 128 r classes as (mach (java (jw ?x)))"
    "rs_delivers drv r rows (db (mach (java (jw ?x))))" using assms(3) by (auto simp: rows_to_come_def)
  from get_next_run[OF this(1,2) _ assms(5) this(3), of u None] assms(4) obtain x' where
    x': "scanner_get_next (java_jni drv u) None ?x = (Undef Missing_Return, x')"
    "rs_delivers drv r (drop 128 rows) (db (mach (java (jw x'))))" by auto
  let ?w' = "w\<lparr>vm := jw x', src_scanner := Some (sc x')\<rparr>"
  have "with_scanner (scanner_get_next (p_jni pf) None) w = (Undef Missing_Return, ?w')"
    using x'(1) assms(1,2) by (simp add: with_scanner_def)
  then have "data_source_get_next pf None w = Some (Undef Missing_Return, ?w')"
    by (simp add: data_source_get_next_def init_chunk_def source_loop_step obind_Undef)
  with assms(6) have "read_loop pf w = Some (Undef Missing_Return, ?w')"
    by (subst read_loop.simps) simp
  then show thesis by (rule that) (simp add: x'(2))
qed

text \<open>C13. The first request of the pipeline, had its query state the descriptor table it lacks: with a
  working driver and database, the request for a chunk never returns when the query has no row, and
  otherwise it ends in undefined behaviour after the first 128 rows have been taken out of the
  result set, delivered to nobody.\<close>

theorem pipeline_delivers_nothing:
  fixes drv :: "('w, 'r) jdbc"
  assumes "\<not> has_source w" "mgr_ok (drivers_mgr w)"
    and "desc_tbl state = Some t" "get_tuple_descriptor t 123 = Some tuple" "slots tuple \<noteq> []"
    and "p_jni pf = java_jni drv to_url" "\<forall>path. to_url path = None"
    and "booted (vm w)" "objs (java (vm w)) = []" "pending (java (vm w)) = None"
    and "query_yields drv (mach (java (vm w))) r classes rows"
  shows "if rows = [] then driver_process pf [True] state w = None
    else \<exists>w'. driver_process pf [True] state w = Some (Undef Missing_Return, w') \<and>
      rs_delivers drv r (drop 128 rows) (db (mach (java (vm w'))))"
proof -
  let ?w0 = "create_chunk_source w"
  obtain w1 s where w1: "data_source_open pf state ?w0 = (Val OK, w1)" "src_scanner w1 = Some s"
    "\<lparr>jw = vm w1, sc = s\<rparr> \<in> rows_to_come drv r classes rows"
    by (rule source_opens[of ?w0 state t tuple pf drv to_url r classes rows])
       (use assms in \<open>simp_all add: create_chunk_source_def\<close>)
  let ?w2 = "w1\<lparr>opened := True\<rparr>"
  have own: "own_status w1 = OK" using open_frame[OF w1(1)] by (simp add: create_chunk_source_def)
  have read: "read_chunk pf state ?w0 = obind (read_loop pf) (\<lambda>_. total (ret OK)) ?w2"
    using w1(1) by (simp add: read_chunk_def obind_def total_def after_def run_simps bind_run create_chunk_source_def)
  show ?thesis
  proof (cases "rows = []")
    case True
    have "at_end (rows_to_come drv r classes []) ?w2" using w1(2,3) own True by (simp add: at_end_def)
    with read_loop_runs_forever no_rows_exhausted[of drv to_url r classes] assms(6)
    have "read_loop pf ?w2 = None" by metis
    with True read first_request(2)[OF assms(1)] show ?thesis by (simp add: obind_None)
  next
    case False
    have "\<forall>row \<in> set rows. fits drv classes row" using assms(11) by (simp add: query_yields_def)
    then obtain w' where "read_loop pf ?w2 = Some (Undef Missing_Return, w')"
      "rs_delivers drv r (drop 128 rows) (db (mach (java (vm w'))))"
      using rows_are_undefined[OF assms(6), of ?w2 s r classes rows] w1(2,3) own False by auto
    moreover from this(1) read first_request(1)[OF assms(1)]
    have "driver_process pf [True] state w = Some (Undef Missing_Return, w')" by (simp add: obind_Undef)
    ultimately show ?thesis using False by auto
  qed
qed

lemma demo_query_yields:
  "\<forall>row \<in> set rows. fits (list_jdbc demo_classes rows no_floats) demo_classes row \<Longrightarrow>
   query_yields (list_jdbc demo_classes rows no_floats) demo_jmach 3 demo_classes rows"
  using list_jdbc_delivers[of demo_classes rows no_floats 3 rows None]
  by (simp add: query_yields_def) (simp add: demo_jmach_def demo_classes_def list_jdbc_def jopen_def
      jbind_def java_simps on_db_def get_source_def source_provider_def JDBCScanner_new_def java_context_def)

definition java_platform_of :: "unit jval option list list \<Rightarrow>
    (string, (unit jval option list list \<times> unit jval option list option, unit) jvm) platform" where
  "java_platform_of rows = java_platform\<lparr>p_jni := java_jni (list_jdbc demo_classes rows no_floats) (\<lambda>_. None)\<rparr>"

theorem pipeline_delivers_nothing_witness:
  "driver_process (java_platform_of []) [True] demo_state (java_pipe\<lparr>has_source := False\<rparr>) = None \<and>
   (\<exists>w'. driver_process (java_platform_of demo_rows) [True] demo_state (java_pipe\<lparr>has_source := False\<rparr>) =
      Some (Undef Missing_Return, w'))"
proof -
  let ?w = "java_pipe\<lparr>has_source := False\<rparr>"
  obtain t where t: "desc_tbl demo_state = Some t" by (simp add: demo_state_def RuntimeState_def)
  then obtain tuple where tuple: "get_tuple_descriptor t 123 = Some tuple" "slots tuple \<noteq> []"
    by (auto simp: demo_state_def get_tuple_descriptor_def demo_slots_def)
  have w: "\<not> has_source ?w" "mgr_ok (drivers_mgr ?w)" "booted (vm ?w)" "objs (java (vm ?w)) = []"
    "pending (java (vm ?w)) = None" "mach (java (vm ?w)) = demo_jmach"
    using demo_fresh(1) by (simp_all add: java_pipe_def fresh_machine_def demo_sworld_def)
  have q: "query_yields (list_jdbc demo_classes rows no_floats) (mach (java (vm ?w))) 3 demo_classes rows"
    if "rows = [] \<or> rows = demo_rows" for rows
    using that demo_query_yields[of rows] demo_fits unfolding w(6) by auto
  note run = pipeline_delivers_nothing[OF w(1,2) t tuple _ _ w(3-5) q]
  have "driver_process (java_platform_of []) [True] demo_state ?w = None"
    using run[where rows = "[]" and pf = "java_platform_of []" and to_url = "\<lambda>_. None"] by (simp add: java_platform_of_def)
  moreover have "demo_rows \<noteq> []" by (simp add: demo_rows_def)
  then have "\<exists>w'. driver_process (java_platform_of demo_rows) [True] demo_state ?w = Some (Undef Missing_Return, w')"
    using run[where rows = demo_rows and pf = "java_platform_of demo_rows" and to_url = "\<lambda>_. None"]
    by (auto simp: java_platform_of_def)
  ultimately show ?thesis by blast
qed

end
