(* ===== verification/Spec2Isabelle.thy ===== *)
theory Spec2Isabelle
  imports Status Filesystem Md5_Digest Http_Proto Http_Client Download Download_Stdio Driver_Manager
    Driver_Concurrency Driver_Linear Driver_Downloads Driver_Singleton Type_Descriptor Descriptors Runtime_State
    Java_Udf Jdbc_Scanner Pipeline Java_Scanner Java_Triples Java_Connections Java_Typing Java_Scanners
    Java_Interleaving Java_Util Java_Machine Java_Pipeline
begin

text \<open>
  A verification of the scanner demo: a C++ back end (src/be) that reads a table of a foreign
  database through JDBC, and the Java bridge (src/fe) it drives over JNI.

  \<^bold>\<open>The program.\<close> \<open>main\<close> (main.cpp) starts the manager of JDBC drivers
  (runtime/jdbc\_driver\_manager), builds a pipeline of one scan operator and asks it once for a
  chunk (mock\_pipeline\_driver, operator/, source/). The chunk source opens a data source
  (datasource/jdbc\_connector), which has the manager fetch the jar of the driver: looked up in a
  map, otherwise downloaded (util/download\_util) over HTTP (http/http\_client), checked against
  an MD5 digest (util/md5) and renamed to its place (fs/fs\_util). The data source then opens a
  scanner (scanner/jdbc\_scanner), which creates the Java objects through the JNI helper
  (udf/java\_udf) and reads chunks from the Java class JDBCScanner. Errors travel as \<open>Status\<close> and
  \<open>StatusOr\<close> (common/), what is read is described by the descriptors (table/descriptors,
  runtime/types).

  \<^bold>\<open>The theories.\<close>
  \<^item> \<open>Prelude\<close>: results of running C++ code (a value, a thrown exception, a failed debug check,
    undefined behaviour by its kind), programs over a state, the collection \<open>run_simps\<close>.
  \<^item> \<open>Cxx_String\<close>: the operations of the C++ string library the sources use, with \<open>std::stol\<close> and
    \<open>std::to\_string\<close> at 64 bits; the interface \<open>codec\<close> of print/parse pairs.
  \<^item> \<open>Status\<close>: common/status.h and common/statusor.h on an explicit heap of message blocks, because
    the defaulted copies share the block. \<open>status_step\<close> runs a body of operations on named objects;
    \<open>disciplined\<close> is the ownership discipline that makes it safe. The value type \<open>status\<close> is what
    a live object stands for (\<open>abs_status\<close>); the later theories use it for statuses that are only
    passed on by value.
  \<^item> \<open>Filesystem\<close>: fs/fs\_util.h on a map from paths to files and directories; the interface
    \<open>file_store\<close> of its lookup laws. The record \<open>os_env\<close> says what the operating system permits.
  \<^item> \<open>Md5_Digest\<close>, \<open>Http_Proto\<close>, \<open>Http_Client\<close>, \<open>Download\<close>: util/md5, the tables and messages of
    http/, the client over libcurl, and \<open>DownloadUtil::download\<close>. The interface \<open>sink\<close> is what a
    write callback promises the transfer; the response string, the local file and the download
    with its digest interpret it.
  \<^item> \<open>Download_Stdio\<close>: the same download among others. A step is a call of the operating system or
    of the C library, files are inodes behind names, a stream has a buffer, and \<open>fclose\<close> comes
    after the rename, as the scope guard has it. \<open>sys_run\<close> takes a schedule of the threads.
    \<open>stdio_refines_download\<close> ties it to \<open>Download\<close>.
  \<^item> \<open>Driver_Manager\<close>: the manager as a sequential program over its entries, its map and the disk.
    \<open>cache_of\<close> abstracts it to a map from names to checksums and locations; the interface \<open>memo\<close>
    is the contract of a cache, interpreted on the manager, and driver file names interpret
    \<open>codec\<close>.
  \<^item> \<open>Driver_Concurrency\<close>: the same requests by several threads, as a step relation over the map's
    lock (one step) and the download locks of the entries. \<open>Driver_Linear\<close>: its runs with the order
    in which the threads pass the map's lock, compared with serial runs in that order.
    \<open>Driver_Downloads\<close>: the transfers of a state of \<open>Driver_Concurrency\<close> as jobs of
    \<open>Download_Stdio\<close>, and when their paths differ. \<open>Driver_Singleton\<close>: the unsynchronised \<open>getInstance\<close>.
  \<^item> \<open>Type_Descriptor\<close>, \<open>Descriptors\<close>, \<open>Runtime_State\<close>: runtime/types, table/descriptors with the
    interface \<open>registry\<close> of its three maps, runtime/runtime\_state on the heap of \<open>Status\<close>, and the
    buffers, chunks and columns.
  \<^item> \<open>Java_Udf\<close>, \<open>Jdbc_Scanner\<close>: the JNI helper and the scanner, for any virtual machine;
    and whose environment a thread of the process works with.
  \<^item> \<open>Pipeline\<close>: from \<open>main\<close> to the scanner. The two loops that need not end are
    \<open>partial_function (option)\<close>; not returning is \<open>None\<close>.
  \<^item> \<open>Java_Scanner\<close>: the Java classes JDBCScanner, JDBCScanContext, DataSourceCache and JDBCBridge,
    with the column arrays in an explicit store.
  \<^item> \<open>Java_Triples\<close>: triples over its methods. With them, \<open>Java_Connections\<close> says what \<open>open\<close> takes
    from the pool and \<open>close\<close> gives back (\<open>pools\<close> is what a connection pool documents), and
    \<open>Java_Typing\<close> which classes the elements of the arrays have.
  \<^item> \<open>Java_Scanners\<close>: several scanners on one Java machine, over one database, source cache and heap.
    \<open>jvm_step\<close> makes a scanner through the bridge or calls a whole method of one, as the one C++ thread
    that has the JNI environment does; \<open>confined\<close> is what a method may do to the heap.
    \<open>Java_Interleaving\<close>: a client (\<open>read_among\<close>) that reads one of them while the others are used;
    \<open>reads_apart\<close> is what a driver documents of results on different handles.
  \<^item> \<open>Java_Util\<close>: JDBCUtil, with the steps of its shared \<open>SimpleDateFormat\<close>, and Main.
  \<^item> \<open>Java_Machine\<close>: the two halves together. \<open>java_jni\<close> is a function table for \<open>Jdbc_Scanner\<close>
    whose calls run the methods of \<open>Java_Scanner\<close> on objects in a list; it stands for a virtual
    machine that has the bridge's classes and one scanner, and gives a Java exception to the C++
    side as a pending one. It is an instance of the parameter \<open>jni\<close>, not a model of code.
    \<open>Java_Pipeline\<close> runs the data source and the first request of \<open>Pipeline\<close> on it.

  \<^bold>\<open>What is shown.\<close>
  \<^item> Drivers: the manager refines an abstract cache, a location once given out stays, a request
    touches only its own files, an entry is transferred at most once however requests interleave,
    the locking does not get stuck, and concurrent requests are answered as a serial run would
    answer them. A download that says OK has stored what the server sent
    with the digest asked for, and one that fails leaves the target alone; concurrent downloads end
    and do not disturb each other as long as they share no path, which transfers of different
    drivers do not. Against that stand the
    theorems on what the code gets wrong: a failed download is served, no driver survives a
    restart, \<open>init\<close> is undefined as soon as it finds a driver it could load, two entries share a
    temporary file and then corrupt each other's target, a full disk is not noticed, two first callers of \<open>getInstance\<close> destroy each other's manager.
  \<^item> Statuses: the ownership discipline is sound, and the ways round it (copies, \<open>StatusOr\<close> from a
    temporary, a moved-from \<open>StatusOr\<close>) are undefined or lose the error.
  \<^item> Scanning: on the Java side every row is delivered once and in order, in arrays that are reused
    from chunk to chunk and hold values of their column's class only; scanners share no array, and
    one delivers the same rows however the others are used in between, but only the thread that
    created the machine has an environment of its own to call them with; \<open>close\<close> gives back the connection \<open>open\<close> took, and scanners that nobody
    closes drain the pool; on the C++ side no chunk ever comes out of the scanner, reading never
    returns to its caller, and the program as it is started ends in undefined behaviour. Together:
    the location the driver cache gives out and the texts of the scan's context reach Java, as C
    strings; an exception of Java's \<open>open\<close> is never reported; the rows of a chunk are taken from
    the result set and lost; and given the descriptor table it lacks, the program would wait
    forever on an empty result and be undefined on any other.
  \<^item> Dates: the text of a time keeps its order and all but the fraction of the second, for years of
    four digits; a date formatted while another one is may come out as a mixture of the two.

  \<^bold>\<open>Parameters and hypotheses.\<close> Code outside the repository is an argument of the definitions:
  libcurl (\<open>curl_lib\<close>; \<open>curl_delivers\<close> says that the pieces of a transfer arrive in order, at most
  16384 bytes each, and that it stops when the callback refuses one), OpenSSL (\<open>md5_lib\<close>;
  \<open>md5_streaming\<close> says that feeding pieces is feeding their concatenation), \<open>boost::iequals\<close>, the
  operating system (\<open>os_env\<close>), the clock, the virtual machine (\<open>jni\<close>), the JDBC driver and pool
  (\<open>jdbc\<close>; \<open>rs_delivers\<close> is the contract of a result set, \<open>reads_apart\<close> that of one among others,
  \<open>pools\<close> that of the pool). \<open>falls\<close> says whether the translation
  of a function without \<open>return\<close> falls through harmlessly, \<open>debug\<close> whether \<open>DCHECK\<close> is compiled
  in. Every hypothesis is met by a concrete instance in a witness.

  \<^bold>\<open>Bounds.\<close> A schedule that gives a download one step per piece and five more is enough for it to
  end. Names of paths, bodies and results are of any length; \<open>size_t\<close> and the time stamps in
  file names are kept at 64 bits where the code depends on it. \<open>retry_loop\<close> counts its attempts
  down, \<open>chunk_loop\<close> the rows left in a chunk, from a number the fetch size gives and the loop
  cannot exceed; \<open>read_all\<close> and \<open>read_among\<close> are readers' loops, and one round more than there
  are rows is enough.

  \<^bold>\<open>Not modelled.\<close> googletest (vendored), udf/types.h (commented out), the \<open>RETURN_IF_ERROR\<close>
  macros and \<open>to\_status\<close> of common/status.h (they name members \<open>Status\<close> does not have), logging,
  methods that are declared and have no body. File streams are unbuffered in \<open>Filesystem\<close>,
  \<open>Http_Client\<close> and \<open>Download\<close>, so an error that would only show when a stream is closed shows at
  the write there; \<open>Download_Stdio\<close> has the buffer. A start of the manager does not overlap with
  requests: \<open>main\<close> makes the one before the other. Global references are never freed by the code
  (the destructor that should is empty), so no count of them is kept.

  \<^bold>\<open>Plan.\<close> Every function of the sources that has a body is modelled, and the components are
  composed where the code composes them. What is left is code the sources do not have yet: the
  columns a chunk is filled into, the destructor of global references, the pipeline's output.
\<close>

end
